(* ===== verification/Prelude.thy ===== *)
theory Prelude
  imports Main "HOL-Library.Word" "HOL-Library.AList" "HOL-Library.Multiset"
begin

text \<open>
  Shared vocabulary of the development: the machine integers of the Rust sources as
  \<open>word\<close> types, clock readings, Rust's \<open>Result\<close> as a sum with the error on the left,
  slices and in-place copies of byte vectors, \<open>Vec::swap_remove\<close>, and the big-endian
  conversions \<open>to_be_bytes\<close>/\<open>from_be_bytes\<close> with their round trips.  The collection
  \<open>rust_defs\<close> gathers the definitions of the small standard-library operations, so that
  component proofs unfold them as a group.
\<close>

unbundle bit_operations_syntax

named_theorems rust_defs \<open>definitions of small Rust standard-library operations\<close>

section \<open>Machine integers, time and results\<close>

type_synonym u8 = "8 word"
type_synonym u16 = "16 word"
type_synonym u32 = "32 word"
type_synonym u64 = "64 word"
type_synonym i64 = "64 word"
type_synonym bytes = "u8 list"

text \<open>Clock readings and durations are in nanoseconds; the difference of two readings
  saturates at zero, as \<open>Instant::duration_since\<close> does.\<close>

type_synonym instant = nat
type_synonym duration = nat

definition from_secs :: "nat \<Rightarrow> duration" where
  [rust_defs]: "from_secs n = n * 1000000000"

definition from_millis :: "nat \<Rightarrow> duration" where
  [rust_defs]: "from_millis n = n * 1000000"

definition as_secs :: "duration \<Rightarrow> nat" where
  [rust_defs]: "as_secs d = d div 1000000000"

definition duration_since :: "instant \<Rightarrow> instant \<Rightarrow> duration" where
  [rust_defs]: "duration_since now earlier = now - earlier"

text \<open>\<open>Result<T, E>\<close> is \<open>'e + 'a\<close>: \<open>Inl\<close> carries the error.\<close>

fun and_then :: "'e + 'a \<Rightarrow> ('a \<Rightarrow> 'e + 'b) \<Rightarrow> 'e + 'b" where
  "and_then (Inl e) f = Inl e"
| "and_then (Inr a) f = f a"

fun ok_or :: "'a option \<Rightarrow> 'e \<Rightarrow> 'e + 'a" where
  "ok_or None e = Inl e"
| "ok_or (Some a) e = Inr a"

fun map_err :: "('e \<Rightarrow> 'f) \<Rightarrow> 'e + 'a \<Rightarrow> 'f + 'a" where
  "map_err f (Inl e) = Inl (f e)"
| "map_err f (Inr a) = Inr a"

fun ok :: "'e + 'a \<Rightarrow> 'a option" where
  "ok (Inl e) = None"
| "ok (Inr a) = Some a"

lemma and_then_eq_Inr [simp]:
  "and_then r f = Inr b \<longleftrightarrow> (\<exists>a. r = Inr a \<and> f a = Inr b)"
  by (cases r) auto

lemma ok_or_eq_Inr [simp]: "ok_or x e = Inr a \<longleftrightarrow> x = Some a"
  by (cases x) auto

lemma ok_or_eq_Inl [simp]: "ok_or x e = Inl e' \<longleftrightarrow> x = None \<and> e' = e"
  by (cases x) auto

lemma map_err_eq_Inr [simp]: "map_err f r = Inr a \<longleftrightarrow> r = Inr a"
  by (cases r) auto

lemma ok_eq_Some [simp]: "ok r = Some a \<longleftrightarrow> r = Inr a"
  by (cases r) auto

section \<open>Slices and vectors\<close>

text \<open>\<open>&xs[i..j]\<close>, and \<open>dst[i..i + src.len()].copy_from_slice(src)\<close>.\<close>

definition slice :: "nat \<Rightarrow> nat \<Rightarrow> 'a list \<Rightarrow> 'a list" where
  "slice i j xs = take (j - i) (drop i xs)"

definition copy_at :: "nat \<Rightarrow> 'a list \<Rightarrow> 'a list \<Rightarrow> 'a list" where
  "copy_at i src dst = take i dst @ src @ drop (i + length src) dst"

lemma length_slice [simp]: "length (slice i j xs) = min (j - i) (length xs - i)"
  by (simp add: slice_def)

lemma slice_append_left:
  "j \<le> length xs \<Longrightarrow> slice i j (xs @ ys) = slice i j xs"
  by (simp add: slice_def)

lemma slice_append_right:
  "length xs \<le> i \<Longrightarrow> slice i j (xs @ ys) = slice (i - length xs) (j - length xs) ys"
  by (simp add: slice_def)

lemma slice_full [simp]: "length xs \<le> j \<Longrightarrow> slice 0 j xs = xs"
  by (simp add: slice_def)

lemma length_copy_at [simp]:
  "i + length src \<le> length dst \<Longrightarrow> length (copy_at i src dst) = length dst"
  by (simp add: copy_at_def)

lemma nth_copy_at:
  assumes "i + length src \<le> length dst" and "n < length dst"
  shows "copy_at i src dst ! n =
    (if i \<le> n \<and> n < i + length src then src ! (n - i) else dst ! n)"
  using assms by (auto simp: copy_at_def nth_append min_def)

lemma nth_slice: "n < j - i \<Longrightarrow> i + n < length xs \<Longrightarrow> slice i j xs ! n = xs ! (i + n)"
  by (simp add: slice_def)

lemma slice_copy_at_same:
  "i + length src \<le> length dst \<Longrightarrow> slice i (i + length src) (copy_at i src dst) = src"
  by (simp add: slice_def copy_at_def)

lemma slice_copy_at_disjoint:
  assumes "i + length src \<le> length dst" and "b \<le> length dst"
    and "b \<le> i \<or> i + length src \<le> a"
  shows "slice a b (copy_at i src dst) = slice a b dst"
proof (rule nth_equalityI)
  show "length (slice a b (copy_at i src dst)) = length (slice a b dst)"
    using assms by simp
next
  fix n assume "n < length (slice a b (copy_at i src dst))"
  then have "n < b - a" and "a + n < length dst" using assms by auto
  then show "slice a b (copy_at i src dst) ! n = slice a b dst ! n"
    using assms by (auto simp: nth_slice nth_copy_at)
qed

text \<open>\<open>Vec::swap_remove\<close>: the last element takes the place of the removed one.\<close>

definition swap_remove :: "nat \<Rightarrow> 'a list \<Rightarrow> 'a list" where
  "swap_remove i xs = butlast (xs[i := last xs])"

lemma length_swap_remove [simp]: "length (swap_remove i xs) = length xs - 1"
  by (simp add: swap_remove_def)

lemma swap_remove_snoc:
  "i \<le> length xs \<Longrightarrow>
   swap_remove i (xs @ [y]) = (if i < length xs then xs[i := y] else xs)"
  by (auto simp: swap_remove_def list_update_append butlast_append)

lemma mset_swap_remove:
  assumes "i < length xs"
  shows "add_mset (xs ! i) (mset (swap_remove i xs)) = mset xs"
proof -
  from assms obtain ys y where xs: "xs = ys @ [y]"
    by (metis length_0_conv less_nat_zero_code rev_exhaust)
  show ?thesis
  proof (cases "i < length ys")
    case True
    have "mset ys = add_mset (ys ! i) (mset ys - {#ys ! i#})"
      using True by (simp add: nth_mem_mset)
    with True xs show ?thesis
      by (simp add: swap_remove_snoc nth_append mset_update)
  next
    case False
    with assms xs have "i = length ys" by simp
    with xs show ?thesis by (simp add: swap_remove_snoc)
  qed
qed

lemma set_swap_remove_subset: "set (swap_remove i xs) \<subseteq> set xs"
proof (cases "xs = []")
  case False
  then have "set (xs[i := last xs]) \<subseteq> set xs"
    by (metis insert_absorb last_in_set set_update_subset_insert)
  then show ?thesis
    unfolding swap_remove_def by (meson in_set_butlastD subset_iff)
qed (simp add: swap_remove_def)

lemma length_filter_update:
  "i < length xs \<Longrightarrow>
   length (filter P (xs[i := x])) + (if P (xs ! i) then 1 else 0) =
   length (filter P xs) + (if P x then 1 else 0)"
proof (induction xs arbitrary: i)
  case (Cons y ys)
  then show ?case by (cases i) auto
qed simp

section \<open>Big-endian conversions\<close>

lemma nth_middle: "length xs = n \<Longrightarrow> j < length ys \<Longrightarrow> (xs @ ys @ zs) ! (n + j) = ys ! j"
  by (auto simp: nth_append)

lemma unat_of_nat_lt: "n < 2 ^ LENGTH('a) \<Longrightarrow> unat (of_nat n :: 'a::len word) = n"
  by (simp add: unsigned_of_nat take_bit_nat_eq_self)

text \<open>
  \<open>cat_be\<close> joins digits of one width into a wider word, most significant digit first;
  \<open>split_be n\<close> cuts a word into its \<open>n\<close> low-order digits.  At digit width 8 they are
  \<open>from_be_bytes\<close> and \<open>to_be_bytes\<close>; at digit width 16 they relate an IPv6 address to
  its segments.
\<close>

lemma unat_drop_bit_of_nat:
  assumes "n < 2 ^ LENGTH('a)"
  shows "unat (drop_bit k (of_nat n :: 'a::len word)) = n div 2 ^ k"
proof -
  have "unat (drop_bit k (of_nat n :: 'a word)) = drop_bit k (unat (of_nat n :: 'a word))"
    by (rule unat_drop_bit_eq)
  then show ?thesis by (simp add: unat_of_nat_lt[OF assms] drop_bit_eq_div)
qed

definition cat_be :: "'b::len word list \<Rightarrow> 'a::len word" where
  "cat_be ds = foldl (\<lambda>w d. push_bit LENGTH('b) w OR ucast d) 0 ds"

definition split_be :: "nat \<Rightarrow> 'a::len word \<Rightarrow> 'b::len word list" where
  "split_be n w = map (\<lambda>j. ucast (drop_bit (LENGTH('b) * (n - 1 - j)) w)) [0..<n]"

lemma length_split_be [simp]: "length (split_be n w) = n"
  by (simp add: split_be_def)

lemma cat_be_Nil [simp]: "cat_be [] = 0"
  by (simp add: cat_be_def)

lemma cat_be_single [simp]: "cat_be [d] = ucast d"
  by (simp add: cat_be_def)

lemma cat_be_snoc:
  "(cat_be (ds @ [d]) :: 'a::len word) =
     push_bit LENGTH('b) (cat_be ds) OR ucast (d :: 'b::len word)"
  by (simp add: cat_be_def)

lemma bit_cat_be:
  fixes ds :: "'b::len word list"
  shows "bit (cat_be ds :: 'a::len word) n \<longleftrightarrow>
    n < LENGTH('a) \<and> n < LENGTH('b) * length ds \<and>
    bit (ds ! (length ds - 1 - n div LENGTH('b))) (n mod LENGTH('b))"
proof (induction ds arbitrary: n rule: rev_induct)
  case Nil
  show ?case by simp
next
  case (snoc d ds)
  show ?case
  proof (cases "n < LENGTH('b)")
    case True
    then show ?thesis
      by (auto simp: cat_be_snoc bit_or_iff bit_push_bit_iff bit_ucast_iff nth_append
          possible_bit_word dest: bit_imp_le_length)
  next
    case False
    then have d: "n div LENGTH('b) = Suc ((n - LENGTH('b)) div LENGTH('b))"
      and m: "n mod LENGTH('b) = (n - LENGTH('b)) mod LENGTH('b)"
      by (simp_all add: le_div_geq le_mod_geq)
    have "\<not> bit (ucast d :: 'a word) n"
      using False by (auto simp: bit_ucast_iff dest: bit_imp_le_length)
    with False snoc.IH[of "n - LENGTH('b)"] d m show ?thesis
      by (cases "ds = []")
        (auto simp: cat_be_snoc bit_or_iff bit_push_bit_iff possible_bit_word nth_append)
  qed
qed

lemma split_be_cat_be:
  fixes ds :: "'b::len word list"
  assumes "length ds = n" and "LENGTH('b) * n \<le> LENGTH('a)"
  shows "split_be n (cat_be ds :: 'a::len word) = ds"
proof (rule nth_equalityI)
  show "length (split_be n (cat_be ds :: 'a word) :: 'b word list) = length ds"
    using assms by simp
next
  fix j assume "j < length (split_be n (cat_be ds :: 'a word) :: 'b word list)"
  then have j: "j < n" by simp
  show "(split_be n (cat_be ds :: 'a word) :: 'b word list) ! j = ds ! j"
  proof (rule bit_word_eqI)
    fix k assume k: "k < LENGTH('b)"
    let ?i = "LENGTH('b) * (n - 1 - j) + k"
    have "?i < LENGTH('b) * n"
    proof -
      have "?i < LENGTH('b) * (n - 1 - j) + LENGTH('b)" using k by simp
      also have "\<dots> = LENGTH('b) * Suc (n - 1 - j)" by simp
      also have "\<dots> \<le> LENGTH('b) * n" using j by (intro mult_le_mono2) simp
      finally show ?thesis .
    qed
    moreover have "?i div LENGTH('b) = n - 1 - j" using k by simp
    moreover have "?i mod LENGTH('b) = k" using k by simp
    ultimately show "bit ((split_be n (cat_be ds :: 'a word) :: 'b word list) ! j) k =
        bit (ds ! j) k"
      using j k assms by (simp add: split_be_def bit_ucast_iff bit_drop_bit_eq bit_cat_be)
  qed
qed

lemma cat_be_split_be:
  fixes w :: "'a::len word"
  assumes "LENGTH('a) = LENGTH('b) * n"
  shows "cat_be (split_be n w :: 'b::len word list) = w"
proof (rule bit_word_eqI)
  fix i assume i: "i < LENGTH('a)"
  with assms have q: "i div LENGTH('b) < n"
    by (simp add: less_mult_imp_div_less mult.commute)
  have r: "i mod LENGTH('b) < LENGTH('b)" by simp
  have "n - 1 - (n - 1 - i div LENGTH('b)) = i div LENGTH('b)" using q by simp
  moreover have "LENGTH('b) * (i div LENGTH('b)) + i mod LENGTH('b) = i" by simp
  ultimately show "bit (cat_be (split_be n w :: 'b word list) :: 'a word) i = bit w i"
    using i q r assms
    by (simp add: bit_cat_be split_be_def bit_ucast_iff bit_drop_bit_eq)
qed

lemma split_be_inject:
  fixes v w :: "'a::len word"
  assumes "LENGTH('a) = LENGTH('b) * n"
    and "(split_be n v :: 'b::len word list) = split_be n w"
  shows "v = w"
  using assms by (metis cat_be_split_be)

abbreviation u16_to_be_bytes :: "u16 \<Rightarrow> bytes" where
  "u16_to_be_bytes w \<equiv> split_be 2 w"

abbreviation u16_from_be_bytes :: "u8 \<Rightarrow> u8 \<Rightarrow> u16" where
  "u16_from_be_bytes a b \<equiv> cat_be [a, b]"

abbreviation u32_from_be_bytes :: "u8 \<Rightarrow> u8 \<Rightarrow> u8 \<Rightarrow> u8 \<Rightarrow> u32" where
  "u32_from_be_bytes a b c d \<equiv> cat_be [a, b, c, d]"

lemma u16_to_be_bytes_expand:
  "u16_to_be_bytes w = [ucast (drop_bit 8 w), ucast w]"
  by (simp add: split_be_def upt_rec)

lemma u16_be_roundtrip [simp]:
  "u16_from_be_bytes (ucast (drop_bit 8 w)) (ucast w) = w"
  using cat_be_split_be[of 2 w, where 'b = 8] by (simp add: u16_to_be_bytes_expand)

section \<open>Codecs\<close>

text \<open>The contract of an encoder and its decoder, and of a datagram format that puts a header in
  front of a payload.  Clients use that encodings are unambiguous.\<close>

locale codec =
  fixes enc :: "'a \<Rightarrow> 'b" and dec :: "'b \<Rightarrow> 'a option" and valid :: "'a \<Rightarrow> bool"
  assumes dec_enc: "valid x \<Longrightarrow> dec (enc x) = Some x"
begin

lemma enc_inject: "valid x \<Longrightarrow> valid y \<Longrightarrow> enc x = enc y \<longleftrightarrow> x = y"
  using dec_enc by (metis option.inject)

lemma enc_inj_on: "inj_on enc {x. valid x}"
  by (rule inj_onI) (simp add: enc_inject)

end

locale datagram_codec =
  fixes enc :: "'h \<Rightarrow> 'c list \<Rightarrow> 'c list" and dec :: "'c list \<Rightarrow> ('h \<times> 'c list) option"
    and valid :: "'h \<Rightarrow> bool"
  assumes dec_enc: "valid h \<Longrightarrow> dec (enc h p) = Some (h, p)"

sublocale datagram_codec \<subseteq> pair: codec "\<lambda>(h, p). enc h p" dec "\<lambda>(h, p). valid h"
  by unfold_locales (auto simp: dec_enc)

context datagram_codec
begin

lemma payload_unambiguous: "valid h \<Longrightarrow> enc h p = enc h q \<longleftrightarrow> p = q"
  by (metis dec_enc option.inject prod.inject)

lemma header_unambiguous: "valid h \<Longrightarrow> valid g \<Longrightarrow> enc h p = enc g q \<Longrightarrow> h = g"
  by (metis dec_enc option.inject prod.inject)

end

end
