(* ===== verification/Hash_Map.thy ===== *)
theory Hash_Map
  imports Prelude
begin

text \<open>
  \<open>std::collections::HashMap\<close> as a list of entries with distinct keys.  Four components keep
  their state in one: the fragment reassembler (\<open>slots\<close>), the statistics registry
  (\<open>inner\<close>), the UDP forwarders (\<open>sessions\<close>) and the mobile node (\<open>listeners\<close>).  The locale
  \<open>map_store\<close> is the contract those components use: what a lookup returns after every
  operation.  It is interpreted on the list operations below, and the components reason with
  the facts \<open>hm.\<dots>\<close> only.  The order of the list stands for one iteration order of the map;
  a property that must not depend on it is stated up to permutation.
\<close>

type_synonym ('k, 'v) hash_map = "('k \<times> 'v) list"

definition hm_new :: "('k, 'v) hash_map" where
  "hm_new = []"

definition hm_get :: "('k, 'v) hash_map \<Rightarrow> 'k \<Rightarrow> 'v option" where
  "hm_get m k = map_of m k"

definition hm_insert :: "'k \<Rightarrow> 'v \<Rightarrow> ('k, 'v) hash_map \<Rightarrow> ('k, 'v) hash_map" where
  "hm_insert k v m = AList.update k v m"

definition hm_remove :: "'k \<Rightarrow> ('k, 'v) hash_map \<Rightarrow> ('k, 'v) hash_map" where
  "hm_remove k m = AList.delete k m"

definition hm_retain :: "('k \<Rightarrow> 'v \<Rightarrow> bool) \<Rightarrow> ('k, 'v) hash_map \<Rightarrow> ('k, 'v) hash_map" where
  "hm_retain P m = filter (\<lambda>(k, v). P k v) m"

definition hm_invar :: "('k, 'v) hash_map \<Rightarrow> bool" where
  "hm_invar m \<longleftrightarrow> distinct (map fst m)"

definition hm_len :: "('k, 'v) hash_map \<Rightarrow> nat" where
  "hm_len m = length m"

definition hm_values :: "('k, 'v) hash_map \<Rightarrow> 'v list" where
  "hm_values m = map snd m"

text \<open>\<open>map.entry(k).or_insert_with(f)\<close>: the entry's value and the map that now holds it.\<close>

definition hm_entry_or_insert :: "'k \<Rightarrow> 'v \<Rightarrow> ('k, 'v) hash_map \<Rightarrow> 'v \<times> ('k, 'v) hash_map" where
  "hm_entry_or_insert k v m =
     (case hm_get m k of Some v' \<Rightarrow> (v', m) | None \<Rightarrow> (v, hm_insert k v m))"

section \<open>The contract\<close>

locale map_store =
  fixes empty :: "'m"
    and lookup :: "'m \<Rightarrow> 'k \<Rightarrow> 'v option"
    and insert :: "'k \<Rightarrow> 'v \<Rightarrow> 'm \<Rightarrow> 'm"
    and remove :: "'k \<Rightarrow> 'm \<Rightarrow> 'm"
    and retain :: "('k \<Rightarrow> 'v \<Rightarrow> bool) \<Rightarrow> 'm \<Rightarrow> 'm"
    and invar :: "'m \<Rightarrow> bool"
  assumes lookup_empty: "lookup empty k = None"
    and lookup_insert: "lookup (insert k v m) k' = (if k' = k then Some v else lookup m k')"
    and lookup_remove: "lookup (remove k m) k' = (if k' = k then None else lookup m k')"
    and lookup_retain: "invar m \<Longrightarrow>
      lookup (retain P m) k = (case lookup m k of Some v \<Rightarrow> if P k v then Some v else None
                                                | None \<Rightarrow> None)"
    and invar_empty: "invar empty"
    and invar_insert: "invar m \<Longrightarrow> invar (insert k v m)"
    and invar_remove: "invar m \<Longrightarrow> invar (remove k m)"
    and invar_retain: "invar m \<Longrightarrow> invar (retain P m)"
begin

lemmas lookups = lookup_empty lookup_insert lookup_remove lookup_retain
lemmas invars = invar_empty invar_insert invar_remove invar_retain

lemma lookup_retain_SomeD:
  "invar m \<Longrightarrow> lookup (retain P m) k = Some v \<Longrightarrow> lookup m k = Some v \<and> P k v"
  by (auto simp: lookup_retain split: option.splits if_splits)

lemma lookup_retain_SomeI:
  "invar m \<Longrightarrow> lookup m k = Some v \<Longrightarrow> P k v \<Longrightarrow> lookup (retain P m) k = Some v"
  by (simp add: lookup_retain)

lemma lookup_retain_NoneI:
  "invar m \<Longrightarrow> lookup m k = None \<Longrightarrow> lookup (retain P m) k = None"
  by (simp add: lookup_retain)

lemma retain_retain_lookup:
  assumes "invar m" and "\<And>k v. Q k v \<Longrightarrow> P k v"
  shows "lookup (retain Q (retain P m)) k = lookup (retain Q m) k"
  using assms by (auto simp: lookup_retain invar_retain split: option.splits)

text \<open>A later write to one key leaves every other key as it was, whatever came before.\<close>

lemma lookup_insert_other: "k' \<noteq> k \<Longrightarrow> lookup (insert k v m) k' = lookup m k'"
  by (simp add: lookup_insert)

lemma lookup_remove_other: "k' \<noteq> k \<Longrightarrow> lookup (remove k m) k' = lookup m k'"
  by (simp add: lookup_remove)

lemma insert_overwrites: "lookup (insert k w (insert k v m)) k' = lookup (insert k w m) k'"
  by (simp add: lookup_insert)

end

section \<open>The list implements it\<close>

lemma map_of_filter_distinct:
  "distinct (map fst m) \<Longrightarrow>
   map_of (filter (\<lambda>(k, v). P k v) m) k =
     (case map_of m k of Some v \<Rightarrow> if P k v then Some v else None | None \<Rightarrow> None)"
proof (induction m)
  case Nil
  then show ?case by simp
next
  case (Cons e m)
  obtain k' v' where e: "e = (k', v')" by fastforce
  with Cons.prems have "k = k' \<Longrightarrow> map_of m k = None"
    by (auto simp: map_of_eq_None_iff)
  with Cons e show ?case by (auto split: option.splits)
qed

interpretation hm: map_store hm_new hm_get hm_insert hm_remove hm_retain hm_invar
proof unfold_locales
  fix m :: "('k, 'v) hash_map" and P k
  assume inv: "hm_invar m"
  show "hm_get (hm_retain P m) k =
      (case hm_get m k of Some v \<Rightarrow> if P k v then Some v else None | None \<Rightarrow> None)"
    using inv by (simp add: hm_get_def hm_retain_def hm_invar_def map_of_filter_distinct)
  show "hm_invar (hm_remove k m)"
    using inv by (simp add: hm_invar_def hm_remove_def distinct_delete)
  show "hm_invar (hm_retain P m)"
    using inv by (auto simp: hm_invar_def hm_retain_def intro: distinct_map_filter)
  fix v
  show "hm_invar (hm_insert k v m)"
    using inv by (simp add: hm_invar_def hm_insert_def distinct_update)
qed (simp_all add: hm_new_def hm_get_def hm_insert_def hm_remove_def hm_invar_def
    update_conv' delete_conv')

lemmas hm_lookups [simp] = hm.lookup_empty hm.lookup_insert hm.lookup_remove
lemmas hm_invars [simp, intro] = hm.invars

lemma hm_entry_or_insert_lookup:
  "hm_entry_or_insert k v m = (w, m') \<Longrightarrow>
   hm_get m' k = Some w \<and> (\<forall>k'. k' \<noteq> k \<longrightarrow> hm_get m' k' = hm_get m k') \<and>
   (hm_invar m \<longrightarrow> hm_invar m')"
  by (auto simp: hm_entry_or_insert_def split: option.splits)

lemma hm_values_get: "hm_invar m \<Longrightarrow> v \<in> set (hm_values m) \<longleftrightarrow> (\<exists>k. hm_get m k = Some v)"
  by (force simp: hm_values_def hm_get_def hm_invar_def map_of_eq_Some_iff)

end
