(* ===== verification/Frag.thy ===== *)
theory Frag
  imports Hash_Map
begin

text \<open>
  IPv6 fragment reassembly, \<open>crates/yggstack/src/netstack/frag.rs\<close>.  \<open>FragReassembler\<close> keeps
  one \<open>FragSlot\<close> per (source, destination, identification); \<open>feed\<close> passes other packets
  through, writes a fragment into its slot's buffer and rebuilds the packet once the bytes
  received reach the length the last fragment announced.  The two clock readings \<open>feed\<close> takes
  are the ones the code makes: in \<open>evict_expired\<close>, and when it creates a slot.
\<close>

section \<open>Model\<close>

definition FRAG_TIMEOUT :: duration where
  "FRAG_TIMEOUT = from_secs 60"

definition IPV6_HEADER_LEN :: nat where
  "IPV6_HEADER_LEN = 40"

definition FRAG_EXT_LEN :: nat where
  "FRAG_EXT_LEN = 8"

record FragKey =
  key_src :: bytes
  key_dst :: bytes
  key_identification :: u32

record FragSlot =
  slot_next_header :: u8
  slot_src :: bytes
  slot_dst :: bytes
  total_len :: "nat option"
  received :: nat
  buf :: bytes
  created :: instant

record FragReassembler =
  slots :: "(FragKey, FragSlot) hash_map"

definition new_reassembler :: FragReassembler where
  "new_reassembler = \<lparr>slots = hm_new\<rparr>"

definition slot_count :: "FragReassembler \<Rightarrow> nat" where
  "slot_count r = hm_len (slots r)"

definition evict_expired :: "instant \<Rightarrow> FragReassembler \<Rightarrow> FragReassembler" where
  "evict_expired now r =
     r\<lparr>slots := hm_retain (\<lambda>_ s. duration_since now (created s) < FRAG_TIMEOUT) (slots r)\<rparr>"

definition build_reassembled :: "bytes \<Rightarrow> bytes \<Rightarrow> u8 \<Rightarrow> bytes \<Rightarrow> bytes" where
  "build_reassembled src dst nh payload =
     (let total_len = IPV6_HEADER_LEN + length payload;
          pkt = replicate total_len 0;
          pkt = pkt[0 := 0x60];
          plen = (of_nat (length payload) :: u16);
          pkt = pkt[4 := ucast (drop_bit 8 plen)];
          pkt = pkt[5 := ucast plen];
          pkt = pkt[6 := nh];
          pkt = pkt[7 := 64];
          pkt = copy_at 8 src pkt;
          pkt = copy_at 24 dst pkt
      in copy_at IPV6_HEADER_LEN payload pkt)"

definition feed ::
  "instant \<Rightarrow> instant \<Rightarrow> bytes \<Rightarrow> FragReassembler \<Rightarrow> FragReassembler \<times> bytes option" where
  "feed now created_at pkt r0 =
     (let r = evict_expired now r0 in
      if length pkt < IPV6_HEADER_LEN then (r, Some pkt)
      else if pkt ! 6 \<noteq> 44 then (r, Some pkt)
      else if length pkt < IPV6_HEADER_LEN + FRAG_EXT_LEN then (r, None)
      else
        let fh = slice IPV6_HEADER_LEN (IPV6_HEADER_LEN + FRAG_EXT_LEN) pkt;
            frag_next_header = fh ! 0;
            offset_and_m = u16_from_be_bytes (fh ! 2) (fh ! 3);
            frag_offset = unat (drop_bit 3 offset_and_m) * 8;
            more_fragments = (offset_and_m AND 1 \<noteq> 0);
            identification = u32_from_be_bytes (fh ! 4) (fh ! 5) (fh ! 6) (fh ! 7);
            src = slice 8 24 pkt;
            dst = slice 24 40 pkt;
            payload = drop (IPV6_HEADER_LEN + FRAG_EXT_LEN) pkt;
            payload_len = length payload;
            key = \<lparr>key_src = src, key_dst = dst, key_identification = identification\<rparr>;
            (slot, slots') = hm_entry_or_insert key
              \<lparr>slot_next_header = frag_next_header, slot_src = src, slot_dst = dst,
               total_len = None, received = 0, buf = replicate 65535 0,
               created = created_at\<rparr> (slots r);
            fend = frag_offset + payload_len
        in if fend > length (buf slot) then (r\<lparr>slots := hm_remove key slots'\<rparr>, None)
           else
             let slot1 = slot\<lparr>buf := copy_at frag_offset payload (buf slot),
                              received := received slot + payload_len\<rparr>;
                 slot2 = (if more_fragments then slot1 else slot1\<lparr>total_len := Some fend\<rparr>)
             in case total_len slot2 of
                  Some tot \<Rightarrow>
                    if tot \<le> received slot2
                    then (r\<lparr>slots := hm_remove key slots'\<rparr>,
                          Some (build_reassembled (slot_src slot2) (slot_dst slot2)
                                  (slot_next_header slot2) (take tot (buf slot2))))
                    else (r\<lparr>slots := hm_insert key slot2 slots'\<rparr>, None)
                | None \<Rightarrow> (r\<lparr>slots := hm_insert key slot2 slots'\<rparr>, None))"

text \<open>A run of the reassembler over packets in arrival order, each with its clock readings.\<close>

type_synonym arrival = "instant \<times> instant \<times> bytes"

fun feed_all :: "FragReassembler \<Rightarrow> arrival list \<Rightarrow> FragReassembler \<times> bytes option list" where
  "feed_all r [] = (r, [])"
| "feed_all r ((now, created_at, pkt) # xs) =
     (let (r1, out) = feed now created_at pkt r; (r2, outs) = feed_all r1 xs
      in (r2, out # outs))"

section \<open>What a fragment says\<close>

text \<open>The fields of a fragment packet, named, and \<open>feed\<close> in terms of them.\<close>

definition is_frag :: "bytes \<Rightarrow> bool" where
  "is_frag pkt \<longleftrightarrow> IPV6_HEADER_LEN + FRAG_EXT_LEN \<le> length pkt \<and> pkt ! 6 = 44"

definition frag_key :: "bytes \<Rightarrow> FragKey" where
  "frag_key pkt = \<lparr>key_src = slice 8 24 pkt, key_dst = slice 24 40 pkt,
     key_identification = u32_from_be_bytes (pkt ! 44) (pkt ! 45) (pkt ! 46) (pkt ! 47)\<rparr>"

definition frag_nh :: "bytes \<Rightarrow> u8" where
  "frag_nh pkt = pkt ! 40"

definition frag_off :: "bytes \<Rightarrow> nat" where
  "frag_off pkt = unat (drop_bit 3 (u16_from_be_bytes (pkt ! 42) (pkt ! 43))) * 8"

definition frag_more :: "bytes \<Rightarrow> bool" where
  "frag_more pkt \<longleftrightarrow> u16_from_be_bytes (pkt ! 42) (pkt ! 43) AND 1 \<noteq> 0"

definition frag_data :: "bytes \<Rightarrow> bytes" where
  "frag_data pkt = drop 48 pkt"

lemmas frag_fields = frag_key_def frag_nh_def frag_off_def frag_more_def frag_data_def

definition new_slot :: "bytes \<Rightarrow> instant \<Rightarrow> FragSlot" where
  "new_slot pkt t = \<lparr>slot_next_header = frag_nh pkt, slot_src = key_src (frag_key pkt),
     slot_dst = key_dst (frag_key pkt), total_len = None, received = 0,
     buf = replicate 65535 0, created = t\<rparr>"

definition the_slot :: "bytes \<Rightarrow> instant \<Rightarrow> FragReassembler \<Rightarrow> FragSlot" where
  "the_slot pkt t r = (case hm_get (slots r) (frag_key pkt) of Some s \<Rightarrow> s | None \<Rightarrow> new_slot pkt t)"

definition write_frag :: "bytes \<Rightarrow> FragSlot \<Rightarrow> FragSlot" where
  "write_frag pkt s = s\<lparr>buf := copy_at (frag_off pkt) (frag_data pkt) (buf s),
     received := received s + length (frag_data pkt),
     total_len := (if frag_more pkt then total_len s
                   else Some (frag_off pkt + length (frag_data pkt)))\<rparr>"

definition complete :: "FragSlot \<Rightarrow> bool" where
  "complete s \<longleftrightarrow> (case total_len s of Some n \<Rightarrow> n \<le> received s | None \<Rightarrow> False)"

definition deliver :: "FragSlot \<Rightarrow> bytes" where
  "deliver s = build_reassembled (slot_src s) (slot_dst s) (slot_next_header s)
     (take (the (total_len s)) (buf s))"

lemma feed_passes_other:
  "length pkt < IPV6_HEADER_LEN \<or> pkt ! 6 \<noteq> 44 \<Longrightarrow>
   feed now t pkt r = (evict_expired now r, Some pkt)"
  by (auto simp: feed_def Let_def)

lemma feed_drops_short:
  "IPV6_HEADER_LEN \<le> length pkt \<Longrightarrow> length pkt < IPV6_HEADER_LEN + FRAG_EXT_LEN \<Longrightarrow>
   pkt ! 6 = 44 \<Longrightarrow> feed now t pkt r = (evict_expired now r, None)"
  by (auto simp: feed_def Let_def)

lemma nth_frag_header:
  "IPV6_HEADER_LEN + FRAG_EXT_LEN \<le> length pkt \<Longrightarrow> j < 8 \<Longrightarrow>
   slice IPV6_HEADER_LEN (IPV6_HEADER_LEN + FRAG_EXT_LEN) pkt ! j = pkt ! (40 + j)"
  by (simp add: nth_slice IPV6_HEADER_LEN_def FRAG_EXT_LEN_def)

definition with_entry :: "bytes \<Rightarrow> instant \<Rightarrow> FragReassembler \<Rightarrow> (FragKey, FragSlot) hash_map" where
  "with_entry pkt t r = snd (hm_entry_or_insert (frag_key pkt) (new_slot pkt t) (slots r))"

lemma entry_the_slot:
  "hm_entry_or_insert (frag_key pkt) (new_slot pkt t) (slots r) =
     (the_slot pkt t r, with_entry pkt t r)"
  by (auto simp: hm_entry_or_insert_def the_slot_def with_entry_def split: option.splits)

lemma with_entry_other: "k \<noteq> frag_key pkt \<Longrightarrow> hm_get (with_entry pkt t r) k = hm_get (slots r) k"
  by (auto simp: hm_entry_or_insert_def with_entry_def split: option.splits)

lemma with_entry_invar: "hm_invar (slots r) \<Longrightarrow> hm_invar (with_entry pkt t r)"
  by (auto simp: hm_entry_or_insert_def with_entry_def split: option.splits)

lemma feed_frag:
  assumes "is_frag pkt"
  shows "feed now t pkt r0 =
    (let r = evict_expired now r0; s = the_slot pkt t r; m = with_entry pkt t r;
         k = frag_key pkt
     in if length (buf s) < frag_off pkt + length (frag_data pkt)
        then (r\<lparr>slots := hm_remove k m\<rparr>, None)
        else if complete (write_frag pkt s)
        then (r\<lparr>slots := hm_remove k m\<rparr>, Some (deliver (write_frag pkt s)))
        else (r\<lparr>slots := hm_insert k (write_frag pkt s) m\<rparr>, None))"
proof -
  have len: "IPV6_HEADER_LEN + FRAG_EXT_LEN \<le> length pkt" "\<not> length pkt < IPV6_HEADER_LEN"
    and six: "pkt ! 6 = 44"
    using assms by (auto simp: is_frag_def IPV6_HEADER_LEN_def FRAG_EXT_LEN_def)
  have d: "drop (IPV6_HEADER_LEN + FRAG_EXT_LEN) pkt = frag_data pkt"
    by (simp add: frag_data_def IPV6_HEADER_LEN_def FRAG_EXT_LEN_def)
  have e: "hm_entry_or_insert (frag_key pkt)
      \<lparr>slot_next_header = pkt ! 40, slot_src = slice 8 24 pkt, slot_dst = slice 24 40 pkt,
       total_len = None, received = 0, buf = replicate 65535 0, created = t\<rparr>
      (slots (evict_expired now r0)) =
      (the_slot pkt t (evict_expired now r0), with_entry pkt t (evict_expired now r0))"
    using entry_the_slot[of pkt t "evict_expired now r0"]
    by (simp add: new_slot_def frag_nh_def frag_key_def)
  have key: "\<lparr>key_src = slice 8 24 pkt, key_dst = slice 24 40 pkt, key_identification =
      u32_from_be_bytes (pkt ! 44) (pkt ! 45) (pkt ! 46) (pkt ! 47)\<rparr> = frag_key pkt"
    by (simp add: frag_key_def)
  have off: "unat (drop_bit 3 (u16_from_be_bytes (pkt ! 42) (pkt ! 43))) * 8 = frag_off pkt"
    by (simp add: frag_off_def)
  have more: "(u16_from_be_bytes (pkt ! 42) (pkt ! 43) AND 1 \<noteq> 0) = frag_more pkt"
    by (simp add: frag_more_def)
  show ?thesis
    unfolding feed_def Let_def
    using len six
    by (simp add: nth_frag_header d key off e more write_frag_def complete_def deliver_def
        split: option.splits)
qed


section \<open>Slots stay well formed\<close>

definition wf_slot :: "FragSlot \<Rightarrow> bool" where
  "wf_slot s \<longleftrightarrow> length (buf s) = 65535 \<and> (\<forall>n. total_len s = Some n \<longrightarrow> n \<le> 65535) \<and>
     length (slot_src s) = 16 \<and> length (slot_dst s) = 16"

definition wf_reassembler :: "FragReassembler \<Rightarrow> bool" where
  "wf_reassembler r \<longleftrightarrow> hm_invar (slots r) \<and>
     (\<forall>k s. hm_get (slots r) k = Some s \<longrightarrow>
        wf_slot s \<and> \<not> complete s \<and> slot_src s = key_src k \<and> slot_dst s = key_dst k)"

lemma wf_new_reassembler: "wf_reassembler new_reassembler"
  by (simp add: wf_reassembler_def new_reassembler_def)

lemma wf_evict_expired: "wf_reassembler r \<Longrightarrow> wf_reassembler (evict_expired now r)"
  by (auto simp: wf_reassembler_def evict_expired_def dest!: hm.lookup_retain_SomeD)

lemma evict_expired_get:
  "hm_invar (slots r) \<Longrightarrow> hm_get (slots (evict_expired now r)) k =
     (case hm_get (slots r) k of
        Some s \<Rightarrow> if duration_since now (created s) < FRAG_TIMEOUT then Some s else None
      | None \<Rightarrow> None)"
  by (simp add: evict_expired_def hm.lookup_retain)

lemma evict_expired_invar: "hm_invar (slots r) \<Longrightarrow> hm_invar (slots (evict_expired now r))"
  by (simp add: evict_expired_def)

lemma wf_new_slot: "is_frag pkt \<Longrightarrow> wf_slot (new_slot pkt t) \<and> \<not> complete (new_slot pkt t)"
  by (auto simp: wf_slot_def new_slot_def frag_key_def is_frag_def complete_def
      IPV6_HEADER_LEN_def FRAG_EXT_LEN_def)

lemma the_slot_cases:
  assumes "wf_reassembler r" and "is_frag pkt"
  shows "wf_slot (the_slot pkt t r) \<and> slot_src (the_slot pkt t r) = key_src (frag_key pkt) \<and>
    slot_dst (the_slot pkt t r) = key_dst (frag_key pkt)"
  using assms wf_new_slot[OF assms(2), of t]
  by (auto simp: the_slot_def wf_reassembler_def new_slot_def split: option.splits)

lemma wf_write_frag:
  "wf_slot s \<Longrightarrow> frag_off pkt + length (frag_data pkt) \<le> length (buf s) \<Longrightarrow>
   wf_slot (write_frag pkt s)"
  by (auto simp: wf_slot_def write_frag_def)

lemma write_frag_addrs [simp]:
  "slot_src (write_frag pkt s) = slot_src s" "slot_dst (write_frag pkt s) = slot_dst s"
  "slot_next_header (write_frag pkt s) = slot_next_header s" "created (write_frag pkt s) = created s"
  by (simp_all add: write_frag_def)

lemma wf_feed: "wf_reassembler r \<Longrightarrow> wf_reassembler (fst (feed now t pkt r))"
proof -
  assume wf: "wf_reassembler r"
  let ?r = "evict_expired now r"
  have wf': "wf_reassembler ?r" using wf by (rule wf_evict_expired)
  then have inv: "hm_invar (slots ?r)" by (simp add: wf_reassembler_def)
  have rem: "wf_reassembler (?r\<lparr>slots := hm_remove (frag_key pkt) (with_entry pkt t ?r)\<rparr>)"
    using wf' by (auto simp: wf_reassembler_def with_entry_invar with_entry_other split: if_splits)
  show ?thesis
  proof (cases "is_frag pkt")
    case True
    let ?s = "the_slot pkt t ?r"
    have "wf_reassembler (?r\<lparr>slots := hm_insert (frag_key pkt) (write_frag pkt ?s) (with_entry pkt t ?r)\<rparr>)"
      if "\<not> complete (write_frag pkt ?s)" "frag_off pkt + length (frag_data pkt) \<le> length (buf ?s)"
      using that wf' the_slot_cases[OF wf' True, of t] wf_write_frag[of ?s pkt]
      by (auto simp: wf_reassembler_def with_entry_invar with_entry_other split: if_splits)
    with rem True show ?thesis by (simp add: feed_frag Let_def)
  next
    case False
    then consider "length pkt < IPV6_HEADER_LEN \<or> pkt ! 6 \<noteq> 44"
      | "IPV6_HEADER_LEN \<le> length pkt" "length pkt < IPV6_HEADER_LEN + FRAG_EXT_LEN" "pkt ! 6 = 44"
      by (force simp: is_frag_def)
    then show ?thesis
      using wf' by cases (simp_all add: feed_passes_other feed_drops_short)
  qed
qed

lemma wf_feed_all: "wf_reassembler r \<Longrightarrow> wf_reassembler (fst (feed_all r xs))"
  by (induction xs arbitrary: r) (auto simp: Let_def split_beta wf_feed)

section \<open>The rebuilt packet\<close>

lemma build_reassembled_layout:
  assumes "length src = 16" and "length dst = 16"
  shows "build_reassembled src dst nh payload =
    [0x60, 0, 0, 0] @ u16_to_be_bytes (of_nat (length payload)) @ [nh, 64] @ src @ dst @ payload"
proof -
  have r: "replicate (40 + length payload) (0 :: u8) =
      [0, 0, 0, 0, 0, 0, 0, 0] @ replicate 16 0 @ replicate 16 0 @ replicate (length payload) 0"
    by (simp add: numeral_eq_Suc)
  have c8: "copy_at 8 src (a # b # c # d # e # f # g # h # replicate 16 0 @ ys) =
      a # b # c # d # e # f # g # h # src @ ys" for a b c d e f g h :: u8 and ys
    using assms by (simp add: copy_at_def numeral_eq_Suc)
  have c24: "copy_at 24 dst (a # b # c # d # e # f # g # h # src @ replicate 16 0 @ ys) =
      a # b # c # d # e # f # g # h # src @ dst @ ys" for a b c d e f g h :: u8 and ys
    using assms by (simp add: copy_at_def numeral_eq_Suc)
  have c40: "copy_at 40 payload (a # b # c # d # e # f # g # h # src @ dst @ replicate (length payload) 0) =
      a # b # c # d # e # f # g # h # src @ dst @ payload" for a b c d e f g h :: u8
    using assms by (simp add: copy_at_def numeral_eq_Suc)
  show ?thesis
    unfolding build_reassembled_def Let_def IPV6_HEADER_LEN_def r
    by (simp add: c8 c24 c40 u16_to_be_bytes_expand)
qed

lemma payload_length_field:
  "length payload \<le> 65535 \<Longrightarrow>
   unat (u16_from_be_bytes (ucast (drop_bit 8 (of_nat (length payload) :: u16)))
       (ucast (of_nat (length payload) :: u16))) = length payload"
  by (simp add: unat_of_nat_lt)

section \<open>Tilings of a datagram\<close>

text \<open>
  \<open>pieces 0 ds\<close> are the (offset, more, data) triples of a datagram cut into the consecutive
  chunks \<open>ds\<close>: every chunk but the last says that more follow.
\<close>

type_synonym piece = "nat \<times> bool \<times> bytes"

fun pieces :: "nat \<Rightarrow> bytes list \<Rightarrow> piece list" where
  "pieces off [] = []"
| "pieces off [d] = [(off, False, d)]"
| "pieces off (d # e # ds) = (off, True, d) # pieces (off + length d) (e # ds)"

definition piece_end :: "piece \<Rightarrow> nat" where
  "piece_end p = fst p + length (snd (snd p))"

definition frag_piece :: "bytes \<Rightarrow> piece" where
  "frag_piece pkt = (frag_off pkt, frag_more pkt, frag_data pkt)"

definition piece_len :: "piece \<Rightarrow> nat" where
  "piece_len p = length (snd (snd p))"

lemma piece_len_frag [simp]: "piece_len (frag_piece pkt) = length (frag_data pkt)"
  by (simp add: piece_len_def frag_piece_def)

lemma pieces_bounds:
  "(off, m, d) \<in> set (pieces b ds) \<Longrightarrow>
   b \<le> off \<and> off + length d \<le> b + length (concat ds) \<and>
   (\<not> m \<longrightarrow> off + length d = b + length (concat ds))"
  by (induction b ds rule: pieces.induct) fastforce+

lemma pieces_sorted: "sorted_wrt (\<lambda>p q. piece_end p \<le> fst q) (pieces b ds)"
  by (induction b ds rule: pieces.induct)
    (auto simp: piece_end_def dest!: pieces_bounds)

lemma pieces_total: "(\<Sum>p\<leftarrow>pieces b ds. piece_len p) = length (concat ds)"
  by (induction b ds rule: pieces.induct) (auto simp: piece_len_def)

lemma pieces_last: "ds \<noteq> [] \<Longrightarrow> \<exists>p\<in>set (pieces b ds). \<not> fst (snd p)"
  by (induction b ds rule: pieces.induct) auto

lemma pieces_nonempty: "\<forall>d\<in>set ds. d \<noteq> [] \<Longrightarrow> \<forall>p\<in>set (pieces b ds). 0 < piece_len p"
  by (induction b ds rule: pieces.induct) (auto simp: piece_len_def)

text \<open>A buffer that holds every piece of a tiling holds the datagram.\<close>

lemma pieces_cover:
  assumes "\<forall>(off, m, d)\<in>set (pieces b ds). slice off (off + length d) xs = d"
    and "b + length (concat ds) \<le> length xs"
  shows "slice b (b + length (concat ds)) xs = concat ds"
  using assms
proof (induction b ds rule: pieces.induct)
  case (3 off d e ds)
  then have "slice off (off + length d) xs = d"
    and "slice (off + length d) (off + length d + length (concat (e # ds))) xs = concat (e # ds)"
    by auto
  then show ?case
    by (simp add: slice_def take_add drop_drop add.commute add.left_commute)
qed (auto simp: slice_def)

text \<open>Two pieces of a tiling, taken as a sub-multiset, never overlap.\<close>

lemma sorted_wrt_pair:
  "sorted_wrt R ps \<Longrightarrow> {#x, y#} \<subseteq># mset ps \<Longrightarrow> R x y \<or> R y x"
proof (induction ps)
  case (Cons p ps)
  show ?case
  proof (cases "{#x, y#} \<subseteq># mset ps")
    case True
    with Cons show ?thesis by simp
  next
    case False
    have "x = p \<or> y = p"
    proof (rule ccontr)
      assume "\<not> (x = p \<or> y = p)"
      then have "count {#x, y#} a \<le> count (mset ps) a" for a
        using Cons.prems(2) by (cases "a = p") (auto simp: subseteq_mset_def dest: spec[of _ a])
      with False show False by (simp add: subseteq_mset_def)
    qed
    then show ?thesis
    proof
      assume "x = p"
      with Cons.prems(2) have "y \<in> set ps" by simp
      with Cons.prems(1) \<open>x = p\<close> show ?thesis by simp
    next
      assume "y = p"
      with Cons.prems(2) have "x \<in> set ps" by (simp add: add_mset_commute)
      with Cons.prems(1) \<open>y = p\<close> show ?thesis by simp
    qed
  qed
qed simp

lemma pieces_disjoint:
  assumes "add_mset q (mset qs) \<subseteq># mset (pieces b ds)" and "p \<in> set qs"
  shows "piece_end p \<le> fst q \<or> piece_end q \<le> fst p"
proof -
  from assms(2) have "{#p#} \<subseteq># mset qs" by simp
  with assms(1) have "{#q, p#} \<subseteq># mset (pieces b ds)"
    by (meson mset_subset_eq_add_mset_cancel subset_mset.order_trans)
  from sorted_wrt_pair[OF pieces_sorted this] show ?thesis by auto
qed

section \<open>Reassembly of a tiling, in any order\<close>

text \<open>\<open>slot_holds\<close>: the slot has received exactly the pieces \<open>qs\<close> of the tiling.\<close>

definition slot_holds :: "FragKey \<Rightarrow> u8 \<Rightarrow> bytes list \<Rightarrow> piece list \<Rightarrow> FragSlot \<Rightarrow> bool" where
  "slot_holds k nh ds qs s \<longleftrightarrow>
     length (buf s) = 65535 \<and> slot_src s = key_src k \<and> slot_dst s = key_dst k \<and>
     slot_next_header s = nh \<and> received s = (\<Sum>p\<leftarrow>qs. piece_len p) \<and>
     (\<forall>p\<in>set qs. slice (fst p) (piece_end p) (buf s) = snd (snd p)) \<and>
     total_len s = (if \<exists>p\<in>set qs. \<not> fst (snd p) then Some (length (concat ds)) else None)"

lemma slot_holds_new: "slot_holds (frag_key pkt) (frag_nh pkt) ds [] (new_slot pkt t)"
  by (simp add: slot_holds_def new_slot_def)

lemma piece_in_tiling:
  assumes "add_mset (frag_piece pkt) (mset qs) \<subseteq># mset (pieces 0 ds)"
  shows "frag_off pkt + length (frag_data pkt) \<le> length (concat ds)"
    and "\<not> frag_more pkt \<Longrightarrow> frag_off pkt + length (frag_data pkt) = length (concat ds)"
proof -
  from assms have "frag_piece pkt \<in> set (pieces 0 ds)"
    by (metis insert_subset_eq_iff set_mset_mset)
  from pieces_bounds[OF this[unfolded frag_piece_def]]
  show "frag_off pkt + length (frag_data pkt) \<le> length (concat ds)"
    and "\<not> frag_more pkt \<Longrightarrow> frag_off pkt + length (frag_data pkt) = length (concat ds)"
    by simp_all
qed

lemma slot_holds_write:
  assumes h: "slot_holds k nh ds qs s"
    and sub: "add_mset (frag_piece pkt) (mset qs) \<subseteq># mset (pieces 0 ds)"
    and len: "length (concat ds) \<le> 65535"
  shows "frag_off pkt + length (frag_data pkt) \<le> length (buf s)"
    and "slot_holds k nh ds (frag_piece pkt # qs) (write_frag pkt s)"
proof -
  note fits = piece_in_tiling[OF sub]
  from h have lb: "length (buf s) = 65535" by (simp add: slot_holds_def)
  with fits len show room: "frag_off pkt + length (frag_data pkt) \<le> length (buf s)" by simp
  have old: "slice (fst p) (piece_end p) (copy_at (frag_off pkt) (frag_data pkt) (buf s)) = snd (snd p)"
    if p: "p \<in> set qs" for p
  proof -
    from sub have "mset qs \<subseteq># mset (pieces 0 ds)"
      by (meson mset_subset_eq_insertD subset_mset.less_imp_le)
    with p have "p \<in> set (pieces 0 ds)" by (metis mset_subset_eqD set_mset_mset)
    then have "piece_end p \<le> length (concat ds)"
      using pieces_bounds[of "fst p" "fst (snd p)" "snd (snd p)" 0 ds] by (simp add: piece_end_def)
    with pieces_disjoint[OF sub p] room lb len h p show ?thesis
      by (simp add: slice_copy_at_disjoint frag_piece_def piece_end_def slot_holds_def)
  qed
  show "slot_holds k nh ds (frag_piece pkt # qs) (write_frag pkt s)"
    using h room old fits
    by (auto simp: slot_holds_def write_frag_def frag_piece_def piece_end_def piece_len_def
        slice_copy_at_same)
qed

lemma tiling_sum_strict:
  assumes "mset qs \<subset># mset (pieces 0 ds)" and "\<forall>d\<in>set ds. d \<noteq> []"
  shows "(\<Sum>p\<leftarrow>qs. piece_len p) < length (concat ds)"
proof -
  from assms(1) obtain R where R: "mset (pieces 0 ds) = mset qs + R"
    by (auto simp: subset_mset.less_le mset_subset_eq_exists_conv)
  with assms(1) have "R \<noteq> {#}" by auto
  then obtain p where p: "p \<in># R" by blast
  with R have "p \<in> set (pieces 0 ds)" by (metis set_mset_mset union_iff)
  with pieces_nonempty[OF assms(2)] have "0 < piece_len p" by blast
  moreover from p have "R = add_mset p (R - {#p#})" by simp
  then have "(\<Sum>p\<in>#R. piece_len p) = piece_len p + (\<Sum>p\<in>#R - {#p#}. piece_len p)"
    by (metis image_mset_add_mset sum_mset.insert)
  moreover have "(\<Sum>p\<leftarrow>pieces 0 ds. piece_len p) = (\<Sum>p\<leftarrow>qs. piece_len p) + (\<Sum>p\<in>#R. piece_len p)"
    using R by (simp flip: sum_mset_sum_list)
  ultimately show ?thesis by (simp add: pieces_total)
qed

lemma complete_iff_all:
  assumes h: "slot_holds k nh ds qs s" and sub: "mset qs \<subseteq># mset (pieces 0 ds)"
    and ds: "ds \<noteq> []" "\<forall>d\<in>set ds. d \<noteq> []"
  shows "complete s \<longleftrightarrow> mset qs = mset (pieces 0 ds)"
proof (cases "mset qs = mset (pieces 0 ds)")
  case True
  then have "(\<Sum>p\<leftarrow>qs. piece_len p) = length (concat ds)"
    by (metis mset_map pieces_total sum_mset_sum_list)
  moreover from True have "set qs = set (pieces 0 ds)" by (metis set_mset_mset)
  with pieces_last[OF ds(1)] have "\<exists>p\<in>set qs. \<not> fst (snd p)" by metis
  ultimately show ?thesis using h True by (simp add: slot_holds_def complete_def)
next
  case False
  with sub have "mset qs \<subset># mset (pieces 0 ds)" by (simp add: subset_mset.less_le)
  from tiling_sum_strict[OF this ds(2)] h False show ?thesis
    by (simp add: slot_holds_def complete_def)
qed

lemma deliver_all:
  assumes h: "slot_holds k nh ds qs s" and all: "mset qs = mset (pieces 0 ds)"
    and ds: "ds \<noteq> []" and len: "length (concat ds) \<le> 65535"
  shows "deliver s = build_reassembled (key_src k) (key_dst k) nh (concat ds)"
proof -
  from all have st: "set qs = set (pieces 0 ds)" by (metis set_mset_mset)
  with pieces_last[OF ds] have "\<exists>p\<in>set qs. \<not> fst (snd p)" by metis
  then have tot: "total_len s = Some (length (concat ds))" using h by (simp add: slot_holds_def)
  have "\<forall>(off, m, d)\<in>set (pieces 0 ds). slice off (off + length d) (buf s) = d"
    using h st by (auto simp: slot_holds_def piece_end_def)
  moreover have "0 + length (concat ds) \<le> length (buf s)" using h len by (simp add: slot_holds_def)
  ultimately have "slice 0 (0 + length (concat ds)) (buf s) = concat ds" by (rule pieces_cover)
  then have "take (length (concat ds)) (buf s) = concat ds" by (simp add: slice_def)
  with tot h show ?thesis by (simp add: deliver_def slot_holds_def)
qed

text \<open>
  \<open>collecting\<close>: the reassembler holds the pieces \<open>qs\<close> under the key, in a slot no older than
  \<open>t0\<close> (and no slot at all before the first piece).
\<close>

definition collecting ::
  "instant \<Rightarrow> FragKey \<Rightarrow> u8 \<Rightarrow> bytes list \<Rightarrow> piece list \<Rightarrow> FragReassembler \<Rightarrow> bool" where
  "collecting t0 k nh ds qs r \<longleftrightarrow> hm_invar (slots r) \<and>
     (if qs = [] then hm_get (slots r) k = None
      else \<exists>s. hm_get (slots r) k = Some s \<and> slot_holds k nh ds qs s \<and> t0 \<le> created s)"

definition mine :: "FragKey \<Rightarrow> arrival \<Rightarrow> bool" where
  "mine k a \<longleftrightarrow> is_frag (snd (snd a)) \<and> frag_key (snd (snd a)) = k"

definition in_window :: "instant \<Rightarrow> arrival \<Rightarrow> bool" where
  "in_window t0 a \<longleftrightarrow> fst a < t0 + FRAG_TIMEOUT \<and> t0 \<le> fst (snd a)"

lemma not_expired:
  "now < t0 + FRAG_TIMEOUT \<Longrightarrow> t0 \<le> c \<Longrightarrow> duration_since now c < FRAG_TIMEOUT"
  by (auto simp: duration_since_def FRAG_TIMEOUT_def from_secs_def)

lemma collecting_evict:
  "collecting t0 k nh ds qs r \<Longrightarrow> now < t0 + FRAG_TIMEOUT \<Longrightarrow>
   collecting t0 k nh ds qs (evict_expired now r)"
  by (auto simp: collecting_def evict_expired_get evict_expired_invar not_expired)

lemma collecting_other:
  assumes "collecting t0 k nh ds qs r" and "now < t0 + FRAG_TIMEOUT"
    and "\<not> mine k (now, t, pkt)"
  shows "collecting t0 k nh ds qs (fst (feed now t pkt r))"
proof -
  note ev = collecting_evict[OF assms(1,2)]
  consider (frag) "is_frag pkt" "k \<noteq> frag_key pkt"
    | "length pkt < IPV6_HEADER_LEN \<or> pkt ! 6 \<noteq> 44"
    | "IPV6_HEADER_LEN \<le> length pkt" "length pkt < IPV6_HEADER_LEN + FRAG_EXT_LEN" "pkt ! 6 = 44"
    using assms(3) by (force simp: mine_def is_frag_def)
  then show ?thesis
  proof cases
    case frag
    with ev show ?thesis
      by (auto simp: feed_frag Let_def collecting_def with_entry_other with_entry_invar)
  qed (use ev in \<open>simp_all add: feed_passes_other feed_drops_short\<close>)
qed

lemma collecting_the_slot:
  assumes "collecting t0 k nh ds qs r" and "mine k (now, t, pkt)" and "frag_nh pkt = nh" and "t0 \<le> t"
  shows "slot_holds k nh ds qs (the_slot pkt t r) \<and> t0 \<le> created (the_slot pkt t r)"
  using assms slot_holds_new[of pkt ds t]
  by (auto simp: collecting_def the_slot_def mine_def new_slot_def split: if_splits)

lemma collecting_step:
  assumes col: "collecting t0 k nh ds qs r" and mine: "mine k (now, t, pkt)"
    and win: "in_window t0 (now, t, pkt)" and nh: "frag_nh pkt = nh"
    and sub: "add_mset (frag_piece pkt) (mset qs) \<subseteq># mset (pieces 0 ds)"
    and ds: "ds \<noteq> []" "\<forall>d\<in>set ds. d \<noteq> []" "length (concat ds) \<le> 65535"
  shows "if add_mset (frag_piece pkt) (mset qs) = mset (pieces 0 ds)
    then snd (feed now t pkt r) = Some (build_reassembled (key_src k) (key_dst k) nh (concat ds)) \<and>
         collecting t0 k nh ds [] (fst (feed now t pkt r))
    else snd (feed now t pkt r) = None \<and>
         collecting t0 k nh ds (frag_piece pkt # qs) (fst (feed now t pkt r))"
proof -
  let ?r = "evict_expired now r"
  let ?s = "the_slot pkt t ?r"
  from win have now: "now < t0 + FRAG_TIMEOUT" and t: "t0 \<le> t" by (simp_all add: in_window_def)
  note ev = collecting_evict[OF col now]
  from collecting_the_slot[OF ev mine nh t]
  have h: "slot_holds k nh ds qs ?s" and c: "t0 \<le> created ?s" by simp_all
  note w = slot_holds_write[OF h sub ds(3)]
  from mine have f: "is_frag pkt" and k: "frag_key pkt = k" by (simp_all add: mine_def)
  have inv: "hm_invar (with_entry pkt t ?r)"
    using ev by (simp add: collecting_def with_entry_invar)
  have iff: "complete (write_frag pkt ?s) \<longleftrightarrow>
      add_mset (frag_piece pkt) (mset qs) = mset (pieces 0 ds)"
    using complete_iff_all[OF w(2) _ ds(1,2)] sub by simp
  show ?thesis
  proof (cases "add_mset (frag_piece pkt) (mset qs) = mset (pieces 0 ds)")
    case True
    with deliver_all[OF w(2) _ ds(1,3)] iff w(1) f k inv show ?thesis
      by (simp add: feed_frag Let_def collecting_def)
  next
    case False
    with iff w f k inv c show ?thesis
      by (simp add: feed_frag Let_def collecting_def)
  qed
qed

text \<open>The pieces that arrive for the key in a trace, and what the run does with them.\<close>

definition arrived :: "FragKey \<Rightarrow> arrival list \<Rightarrow> piece list" where
  "arrived k xs = map (\<lambda>a. frag_piece (snd (snd a))) (filter (mine k) xs)"

lemma collecting_trace:
  assumes "collecting t0 k nh ds qs r"
    and "\<forall>a\<in>set xs. in_window t0 a \<and> (mine k a \<longrightarrow> frag_nh (snd (snd a)) = nh)"
    and "mset qs + mset (arrived k xs) \<subset># mset (pieces 0 ds)"
    and "ds \<noteq> []" "\<forall>d\<in>set ds. d \<noteq> []" "length (concat ds) \<le> 65535"
  shows "collecting t0 k nh ds (rev (arrived k xs) @ qs) (fst (feed_all r xs)) \<and>
    (\<forall>i<length xs. mine k (xs ! i) \<longrightarrow> snd (feed_all r xs) ! i = None)"
  using assms(1-3)
proof (induction xs arbitrary: r qs)
  case Nil
  then show ?case by (simp add: arrived_def)
next
  case (Cons a xs)
  obtain now t pkt where a: "a = (now, t, pkt)" by (cases a)
  let ?r = "fst (feed now t pkt r)"
  have rest: "\<forall>a\<in>set xs. in_window t0 a \<and> (mine k a \<longrightarrow> frag_nh (snd (snd a)) = nh)"
    using Cons.prems(2) by simp
  show ?case
  proof (cases "mine k a")
    case True
    then have sub: "add_mset (frag_piece pkt) (mset qs) + mset (arrived k xs) \<subset># mset (pieces 0 ds)"
      using Cons.prems(3) a by (simp add: arrived_def)
    then have sub': "add_mset (frag_piece pkt) (mset qs) \<subset># mset (pieces 0 ds)"
      by (metis mset_subset_eq_add_left subset_mset.le_less_trans)
    have "snd (feed now t pkt r) = None \<and> collecting t0 k nh ds (frag_piece pkt # qs) ?r"
      using collecting_step[of t0 k nh ds qs r now t pkt] Cons.prems(1,2) True a sub' assms(4-6)
      by (simp add: subset_mset.less_le)
    moreover from this have "collecting t0 k nh ds (rev (arrived k xs) @ frag_piece pkt # qs)
        (fst (feed_all ?r xs)) \<and> (\<forall>i<length xs. mine k (xs ! i) \<longrightarrow> snd (feed_all ?r xs) ! i = None)"
      using Cons.IH[of "frag_piece pkt # qs" ?r] rest sub by simp
    ultimately show ?thesis
      using a True by (simp add: Let_def split_beta arrived_def nth_Cons')
  next
    case False
    have "collecting t0 k nh ds qs ?r"
      using collecting_other[of t0 k nh ds qs r now t pkt] Cons.prems(1,2) False a
      by (simp add: in_window_def)
    from Cons.IH[OF this rest] Cons.prems(3) False a show ?thesis
      by (simp add: Let_def split_beta arrived_def nth_Cons')
  qed
qed

section \<open>A sender's fragments\<close>

text \<open>One well-formed fragment packet per piece, as a sender lays it out.\<close>

definition mk_frag :: "FragKey \<Rightarrow> u8 \<Rightarrow> piece \<Rightarrow> bytes" where
  "mk_frag k nh p =
     [0x60, 0, 0, 0] @ u16_to_be_bytes (of_nat (8 + piece_len p)) @ [44, 64] @
     key_src k @ key_dst k @
     [nh, 0] @ u16_to_be_bytes (of_nat (fst p + (if fst (snd p) then 1 else 0))) @
     split_be 4 (key_identification k) @ snd (snd p)"

lemma split_be_4:
  "(split_be 4 (w :: u32) :: bytes) =
     [ucast (drop_bit 24 w), ucast (drop_bit 16 w), ucast (drop_bit 8 w), ucast w]"
  by (simp add: split_be_def upt_rec)

lemma mk_frag_bytes:
  assumes "length (key_src k) = 16" and "length (key_dst k) = 16"
  shows "\<exists>hd. length hd = 6 \<and> mk_frag k nh p = hd @ 44 # 64 # key_src k @ key_dst k @
    nh # 0 # ucast (drop_bit 8 (of_nat (fst p + (if fst (snd p) then 1 else 0)) :: u16)) #
    ucast (of_nat (fst p + (if fst (snd p) then 1 else 0)) :: u16) #
    ucast (drop_bit 24 (key_identification k)) # ucast (drop_bit 16 (key_identification k)) #
    ucast (drop_bit 8 (key_identification k)) # ucast (key_identification k) # snd (snd p)"
  by (rule exI[of _ "[0x60, 0, 0, 0] @ u16_to_be_bytes (of_nat (8 + piece_len p))"])
    (simp add: mk_frag_def u16_to_be_bytes_expand split_be_4)

lemma offset_word:
  assumes "8 dvd off" and "off < 65536"
  shows "unat (drop_bit 3 (of_nat (off + (if m then 1 else 0)) :: u16)) * 8 = off"
    and "(of_nat (off + (if m then 1 else 0)) :: u16) AND 1 \<noteq> 0 \<longleftrightarrow> m"
proof -
  have "off + (if m then 1 else 0) < 2 ^ LENGTH(16)" using assms by auto
  then have "unat (drop_bit 3 (of_nat (off + (if m then 1 else 0)) :: u16)) =
      (off + (if m then 1 else 0)) div 2 ^ 3"
    by (rule unat_drop_bit_of_nat)
  moreover from assms(1) have "(off + (if m then 1 else 0)) div 8 * 8 = off" by auto
  ultimately show "unat (drop_bit 3 (of_nat (off + (if m then 1 else 0)) :: u16)) * 8 = off"
    by simp
  have "even off" using assms(1) by (meson dvd_trans even_numeral)
  then show "(of_nat (off + (if m then 1 else 0)) :: u16) AND 1 \<noteq> 0 \<longleftrightarrow> m"
    by (auto simp: and_one_eq mod_2_eq_odd)
qed

lemma mk_frag_view:
  assumes k: "length (key_src k) = 16" "length (key_dst k) = 16"
    and p: "8 dvd fst p" "fst p < 65536"
  shows "is_frag (mk_frag k nh p)" and "frag_key (mk_frag k nh p) = k"
    and "frag_nh (mk_frag k nh p) = nh" and "frag_piece (mk_frag k nh p) = p"
proof -
  let ?w = "of_nat (fst p + (if fst (snd p) then 1 else 0)) :: u16"
  let ?i = "key_identification k"
  from mk_frag_bytes[OF k] obtain hd where len: "length hd = 6"
    and eq: "mk_frag k nh p = hd @ 44 # 64 # key_src k @ key_dst k @ nh # 0 #
      ucast (drop_bit 8 ?w) # ucast ?w # ucast (drop_bit 24 ?i) # ucast (drop_bit 16 ?i) #
      ucast (drop_bit 8 ?i) # ucast ?i # snd (snd p)" by blast
  have tail: "mk_frag k nh p = (hd @ [44, 64] @ key_src k @ key_dst k) @ [nh, 0,
      ucast (drop_bit 8 ?w), ucast ?w, ucast (drop_bit 24 ?i), ucast (drop_bit 16 ?i),
      ucast (drop_bit 8 ?i), ucast ?i] @ snd (snd p)"
    by (simp add: eq)
  have l40: "length (hd @ [44, 64] @ key_src k @ key_dst k) = 40" by (simp add: len k)
  have at: "mk_frag k nh p ! (40 + j) = [nh, 0, ucast (drop_bit 8 ?w), ucast ?w,
      ucast (drop_bit 24 ?i), ucast (drop_bit 16 ?i), ucast (drop_bit 8 ?i), ucast ?i] ! j"
    if "j < 8" for j
    unfolding tail by (rule nth_middle[OF l40]) (use that in simp)
  note bytes = at[of 0, simplified] at[of 2, simplified] at[of 3, simplified]
    at[of 4, simplified] at[of 5, simplified] at[of 6, simplified] at[of 7, simplified]
  show "is_frag (mk_frag k nh p)"
    by (simp add: is_frag_def eq len k nth_append IPV6_HEADER_LEN_def FRAG_EXT_LEN_def)
  show "frag_nh (mk_frag k nh p) = nh" by (simp add: frag_nh_def bytes)
  have "u32_from_be_bytes (ucast (drop_bit 24 ?i)) (ucast (drop_bit 16 ?i))
      (ucast (drop_bit 8 ?i)) (ucast ?i) = ?i"
    using cat_be_split_be[of 4 ?i, where 'b = 8] by (simp add: split_be_4)
  then show "frag_key (mk_frag k nh p) = k"
    unfolding frag_key_def bytes
    by (simp add: eq slice_def len k drop_Cons')
  have "frag_data (mk_frag k nh p) = snd (snd p)"
    unfolding frag_data_def tail using l40 by (simp add: drop_Cons')
  moreover have "frag_off (mk_frag k nh p) = fst p"
    using offset_word(1)[OF p, of "fst (snd p)"] by (simp add: frag_off_def bytes)
  moreover have "frag_more (mk_frag k nh p) = fst (snd p)"
    using offset_word(2)[OF p, of "fst (snd p)"] by (simp add: frag_more_def bytes)
  ultimately show "frag_piece (mk_frag k nh p) = p" by (simp add: frag_piece_def)
qed

section \<open>Properties\<close>

lemma reassembles:
  assumes fresh: "hm_invar (slots r)" "hm_get (slots r) k = None"
    and tiles: "ds \<noteq> []" "\<forall>d\<in>set ds. d \<noteq> []" "length (concat ds) \<le> 65535"
    and win: "\<forall>a\<in>set (xs @ [(now, t, pkt)]). in_window t0 a"
    and nh: "\<forall>a\<in>set (xs @ [(now, t, pkt)]). mine k a \<longrightarrow> frag_nh (snd (snd a)) = nh"
    and last: "mine k (now, t, pkt)"
    and all: "mset (arrived k (xs @ [(now, t, pkt)])) = mset (pieces 0 ds)"
  shows "snd (feed now t pkt (fst (feed_all r xs))) =
      Some (build_reassembled (key_src k) (key_dst k) nh (concat ds)) \<and>
    (\<forall>i<length xs. mine k (xs ! i) \<longrightarrow> snd (feed_all r xs) ! i = None)"
proof -
  have split: "mset (pieces 0 ds) = add_mset (frag_piece pkt) (mset (arrived k xs))"
    using all last by (simp add: arrived_def)
  have start: "collecting t0 k nh ds [] r" using fresh by (simp add: collecting_def)
  have "mset [] + mset (arrived k xs) \<subset># mset (pieces 0 ds)" by (simp add: split)
  from collecting_trace[OF start _ this tiles] win nh
  have tr: "collecting t0 k nh ds (rev (arrived k xs)) (fst (feed_all r xs))"
    and none: "\<forall>i<length xs. mine k (xs ! i) \<longrightarrow> snd (feed_all r xs) ! i = None"
    by auto
  from collecting_step[OF tr last _ _ _ tiles] win nh last split none show ?thesis
    by simp
qed

text \<open>C1. Fragments of one datagram, arriving in any order within the sixty second
  window and interleaved with any other traffic (other datagrams included), are reassembled
  exactly: every fragment but the one that arrives last yields nothing, and the last yields
  the packet built from the whole payload.\<close>

theorem reassembly_correct:
  assumes fresh: "hm_invar (slots r)" "hm_get (slots r) k = None"
    and tiles: "ds \<noteq> []" "\<forall>d\<in>set ds. d \<noteq> []" "length (concat ds) \<le> 65535"
    and win: "\<forall>a\<in>set (xs @ [(now, t, pkt)]). in_window t0 a"
    and nh: "\<forall>a\<in>set (xs @ [(now, t, pkt)]). mine k a \<longrightarrow> frag_nh (snd (snd a)) = nh"
    and last: "mine k (now, t, pkt)"
    and all: "mset (arrived k (xs @ [(now, t, pkt)])) = mset (pieces 0 ds)"
  shows "snd (feed now t pkt (fst (feed_all r xs))) =
      Some (build_reassembled (key_src k) (key_dst k) nh (concat ds)) \<and>
    (\<forall>i<length xs. mine k (xs ! i) \<longrightarrow> snd (feed_all r xs) ! i = None)"
  using reassembles[OF assms] .

definition demo_key :: FragKey where
  "demo_key = \<lparr>key_src = replicate 16 1, key_dst = replicate 16 2, key_identification = 7\<rparr>"

lemma demo_key_lengths [simp]: "length (key_src demo_key) = 16" "length (key_dst demo_key) = 16"
  by (simp_all add: demo_key_def)

theorem reassembly_correct_witness:
  "snd (feed 5 5 (mk_frag demo_key 17 (0, True, replicate 8 9))
      (fst (feed_all new_reassembler [(3, 3, mk_frag demo_key 17 (8, False, [4, 5])), (4, 4, [1, 2])]))) =
    Some (build_reassembled (key_src demo_key) (key_dst demo_key) 17 (replicate 8 9 @ [4, 5]))"
proof -
  let ?xs = "[(3, 3, mk_frag demo_key 17 (8, False, [4, 5])), (4, 4, [1, 2])] :: arrival list"
  have v1: "mine demo_key (3, 3, mk_frag demo_key 17 (8, False, [4, 5]))"
    and v2: "mine demo_key (5, 5, mk_frag demo_key 17 (0, True, replicate 8 9))"
    and v3: "\<not> mine demo_key (4, 4, [1, 2])"
    by (simp_all add: mine_def mk_frag_view) (simp add: is_frag_def IPV6_HEADER_LEN_def)
  have "mset (arrived demo_key (?xs @ [(5, 5, mk_frag demo_key 17 (0, True, replicate 8 9))])) =
      mset (pieces 0 [replicate 8 9, [4, 5]])"
    using v1 v2 v3 by (simp add: arrived_def mk_frag_view)
  from reassembly_correct[of new_reassembler demo_key "[replicate 8 9, [4, 5]]" ?xs 5 5
      "mk_frag demo_key 17 (0, True, replicate 8 9)" 3 17, OF _ _ _ _ _ _ _ v2 this]
  show ?thesis
    using v3 by (simp add: new_reassembler_def in_window_def FRAG_TIMEOUT_def from_secs_def mk_frag_view)
qed

text \<open>From any well-formed state, a packet rebuilt from fragments is a well-formed
  IPv6 packet: at most 65575 bytes, version 6, the addresses of the fragment that completed it,
  and a payload length field that equals the number of payload bytes (the sixteen bit field
  never truncates).\<close>

theorem reassembled_packet_wf:
  assumes "wf_reassembler r" and "is_frag pkt" and "feed now t pkt r = (r', Some out)"
  shows "40 \<le> length out \<and> length out \<le> 65575 \<and> out ! 0 = 0x60 \<and>
    unat (u16_from_be_bytes (out ! 4) (out ! 5)) = length out - 40 \<and>
    slice 8 24 out = slice 8 24 pkt \<and> slice 24 40 out = slice 24 40 pkt"
proof -
  let ?s = "write_frag pkt (the_slot pkt t (evict_expired now r))"
  note ev = wf_evict_expired[OF assms(1), of now]
  note ts = the_slot_cases[OF ev assms(2), of t]
  from assms(2,3) have c: "complete ?s" and out: "out = deliver ?s"
    and fits: "frag_off pkt + length (frag_data pkt) \<le> length (buf (the_slot pkt t (evict_expired now r)))"
    by (auto simp: feed_frag Let_def split: if_splits)
  from fits ts have w: "wf_slot ?s" by (simp add: wf_write_frag)
  from c obtain n where n: "total_len ?s = Some n" by (auto simp: complete_def split: option.splits)
  let ?p = "take n (buf ?s)"
  from w n have lp: "length ?p \<le> 65535" and l16: "length (slot_src ?s) = 16" "length (slot_dst ?s) = 16"
    by (auto simp: wf_slot_def)
  from ts have a: "slot_src ?s = take 16 (drop 8 pkt)" "slot_dst ?s = take 16 (drop 24 pkt)"
    by (simp_all add: frag_key_def slice_def)
  have o: "out = [0x60, 0, 0, 0] @ u16_to_be_bytes (of_nat (length ?p)) @
      [slot_next_header ?s, 64] @ slot_src ?s @ slot_dst ?s @ ?p"
    using out n build_reassembled_layout[OF l16] by (simp add: deliver_def)
  show ?thesis
    unfolding o using lp l16 payload_length_field[OF lp] a
    by (simp add: u16_to_be_bytes_expand slice_def drop_Cons')
qed

theorem reassembled_packet_wf_witness:
  "\<exists>r' out. feed 5 5 (mk_frag demo_key 17 (0, False, [4, 5])) new_reassembler = (r', Some out) \<and>
     unat (u16_from_be_bytes (out ! 4) (out ! 5)) = length out - 40"
proof -
  let ?p = "mk_frag demo_key 17 (0, False, [4, 5])"
  have f: "is_frag ?p" by (simp add: mk_frag_view)
  have "frag_off ?p = 0" "\<not> frag_more ?p" "frag_data ?p = [4, 5]"
    using mk_frag_view(4)[of demo_key "(0, False, [4, 5])" 17] by (simp_all add: frag_piece_def)
  then obtain r' out where e: "feed 5 5 ?p new_reassembler = (r', Some out)"
    using f by (simp add: feed_frag Let_def the_slot_def new_reassembler_def evict_expired_def
        hm.lookup_retain new_slot_def write_frag_def complete_def)
  from reassembled_packet_wf[OF wf_new_reassembler f e] e show ?thesis by blast
qed

text \<open>C28. Whatever packets arrive and whenever, the reassembler stays well formed: keys are
  unique, every slot keeps its full-size buffer and an announced length inside it (so the
  slice the code takes on delivery is in range), no stored slot is complete, and each slot
  carries the addresses of its key.\<close>

theorem reassembler_invariant: "wf_reassembler (fst (feed_all new_reassembler xs))"
  by (rule wf_feed_all[OF wf_new_reassembler])

text \<open>Received bytes are counted, not covered ranges: when the first fragment of a
  three-fragment datagram arrives twice and the middle one never does, the code delivers a
  packet whose middle eight bytes are zeros that nobody sent.\<close>

theorem duplicate_fragment_leaves_hole:
  "snd (feed_all new_reassembler
     [(0, 0, mk_frag demo_key 17 (0, True, replicate 8 1)),
      (1, 1, mk_frag demo_key 17 (0, True, replicate 8 1)),
      (2, 2, mk_frag demo_key 17 (16, False, replicate 8 3))]) =
   [None, None, Some (build_reassembled (key_src demo_key) (key_dst demo_key) 17
      (replicate 8 1 @ replicate 8 0 @ replicate 8 3))]"
proof -
  let ?a = "mk_frag demo_key 17 (0, True, replicate 8 1)"
  let ?c = "mk_frag demo_key 17 (16, False, replicate 8 3)"
  have a: "is_frag ?a" "frag_key ?a = demo_key" "frag_nh ?a = 17" "frag_off ?a = 0" "frag_more ?a"
      "frag_data ?a = replicate 8 1"
    using mk_frag_view[of demo_key "(0, True, replicate 8 1)" 17] by (simp_all add: frag_piece_def)
  have c: "is_frag ?c" "frag_key ?c = demo_key" "frag_nh ?c = 17" "frag_off ?c = 16" "\<not> frag_more ?c"
      "frag_data ?c = replicate 8 3"
    using mk_frag_view[of demo_key "(16, False, replicate 8 3)" 17] by (simp_all add: frag_piece_def)
  show ?thesis
    using a c
    by (simp add: feed_frag Let_def the_slot_def with_entry_def new_reassembler_def
        hm_entry_or_insert_def evict_expired_def hm.lookup_retain new_slot_def write_frag_def
        complete_def deliver_def duration_since_def FRAG_TIMEOUT_def from_secs_def copy_at_def)
qed

end
