(* ===== verification/Std_Text.thy ===== *)
theory Std_Text
  imports Prelude
begin

text \<open>
  The string operations of Rust's standard library that the sources use.  A \<open>str\<close> is its UTF-8
  bytes, a \<open>string\<close>; every separator the sources split on is ASCII, so byte-wise splitting is
  what the code does.  Each operation is executable, and the lemmas give the round trips that
  parsers and printers rely on: printed numbers parse back, and a line list joined with a
  separator splits back.
\<close>

section \<open>Bytes and text\<close>

definition str_bytes :: "string \<Rightarrow> bytes" where
  "str_bytes s = map of_char s"

definition bytes_str :: "bytes \<Rightarrow> string" where
  "bytes_str bs = map (\<lambda>b. char_of (unat b)) bs"

lemma bytes_str_bytes [simp]: "bytes_str (str_bytes s) = s" "length (str_bytes s) = length s"
proof -
  have "char_of (unat (of_char c :: u8)) = c" for c
  proof -
    have "(of_char c :: nat) < 256" by (metis of_char_mod_256 mod_less_divisor zero_less_numeral)
    then have "unat (of_nat (of_char c) :: u8) = of_char c" by (intro unat_of_nat_lt) simp
    then have "unat (of_char c :: u8) = of_char c" by (simp only: of_nat_of_char)
    then show ?thesis by simp
  qed
  then show "bytes_str (str_bytes s) = s" by (simp add: bytes_str_def str_bytes_def map_idI)
  show "length (str_bytes s) = length s" by (simp add: str_bytes_def)
qed

section \<open>Searching and splitting\<close>

fun str_find :: "char \<Rightarrow> string \<Rightarrow> nat option" where
  "str_find c [] = None"
| "str_find c (x # xs) = (if x = c then Some 0 else map_option Suc (str_find c xs))"

fun str_rfind :: "char \<Rightarrow> string \<Rightarrow> nat option" where
  "str_rfind c [] = None"
| "str_rfind c (x # xs) =
     (case str_rfind c xs of Some i \<Rightarrow> Some (Suc i) | None \<Rightarrow> if x = c then Some 0 else None)"

lemma str_find_Some:
  "str_find c s = Some i \<Longrightarrow> i < length s \<and> s = take i s @ c # drop (Suc i) s \<and> c \<notin> set (take i s)"
  by (induction s arbitrary: i) (auto split: if_splits)

lemma str_find_None: "str_find c s = None \<longleftrightarrow> c \<notin> set s"
  by (induction s) auto

lemma str_rfind_None: "str_rfind c s = None \<longleftrightarrow> c \<notin> set s"
  by (induction s) (auto split: option.splits)

lemma str_rfind_Some:
  "str_rfind c s = Some i \<Longrightarrow>
   i < length s \<and> s = take i s @ c # drop (Suc i) s \<and> c \<notin> set (drop (Suc i) s)"
proof (induction s arbitrary: i)
  case (Cons x xs)
  then show ?case
    by (cases "str_rfind c xs") (auto simp: str_rfind_None split: if_splits)
qed simp

lemma str_rfind_append: "c \<notin> set ys \<Longrightarrow> str_rfind c (xs @ c # ys) = Some (length xs)"
  by (induction xs) (auto simp: str_rfind_None split: option.splits)

lemma str_find_append: "c \<notin> set xs \<Longrightarrow> str_find c (xs @ c # ys) = Some (length xs)"
  by (induction xs) auto

text \<open>\<open>str::split(c)\<close>: the pieces between separators, at least one.\<close>

fun str_split :: "char \<Rightarrow> string \<Rightarrow> string list" where
  "str_split c [] = [[]]"
| "str_split c (x # xs) =
     (if x = c then [] # str_split c xs
      else (case str_split c xs of p # ps \<Rightarrow> (x # p) # ps | [] \<Rightarrow> [[x]]))"

text \<open>\<open>str::splitn(n, c)\<close>: at most \<open>n\<close> pieces, the last one with the rest unsplit.\<close>

fun str_splitn :: "nat \<Rightarrow> char \<Rightarrow> string \<Rightarrow> string list" where
  "str_splitn 0 c s = []"
| "str_splitn (Suc 0) c s = [s]"
| "str_splitn (Suc (Suc n)) c s =
     (case str_find c s of
        None \<Rightarrow> [s]
      | Some i \<Rightarrow> take i s # str_splitn (Suc n) c (drop (Suc i) s))"

definition split_once :: "char \<Rightarrow> string \<Rightarrow> (string \<times> string) option" where
  "split_once c s = map_option (\<lambda>i. (take i s, drop (Suc i) s)) (str_find c s)"

definition rsplit_once :: "char \<Rightarrow> string \<Rightarrow> (string \<times> string) option" where
  "rsplit_once c s = map_option (\<lambda>i. (take i s, drop (Suc i) s)) (str_rfind c s)"

lemma str_split_not_Nil [simp]: "str_split c s \<noteq> []"
  by (cases s) (auto split: list.splits)

lemma str_split_no_sep: "p \<in> set (str_split c s) \<Longrightarrow> c \<notin> set p"
proof (induction s arbitrary: p)
  case (Cons x xs)
  then show ?case by (cases "str_split c xs") (auto split: if_splits)
qed simp

fun join :: "string \<Rightarrow> string list \<Rightarrow> string" where
  "join sep [] = []"
| "join sep [x] = x"
| "join sep (x # y # ys) = x @ sep @ join sep (y # ys)"

lemma join_Cons: "ys \<noteq> [] \<Longrightarrow> join sep (x # ys) = x @ sep @ join sep ys"
  by (cases ys) simp_all

lemma join_concat: "join sep (x # xs) = x @ concat (map (\<lambda>y. sep @ y) xs)"
  by (induction xs arbitrary: x) simp_all

lemma join_str_split: "join [c] (str_split c s) = s"
proof (induction s)
  case (Cons x xs)
  then show ?case
    by (cases "str_split c xs"; cases "tl (str_split c xs)") (auto split: if_splits list.splits)
qed simp

lemma str_split_single: "c \<notin> set s \<Longrightarrow> str_split c s = [s]"
  by (induction s) auto

lemma str_split_append: "c \<notin> set xs \<Longrightarrow> str_split c (xs @ c # ys) = xs # str_split c ys"
  by (induction xs) auto

lemma str_split_join:
  "ps \<noteq> [] \<Longrightarrow> \<forall>p\<in>set ps. c \<notin> set p \<Longrightarrow> str_split c (join [c] ps) = ps"
proof (induction ps)
  case (Cons p ps)
  then show ?case by (cases ps) (auto simp: str_split_append str_split_single)
qed simp

section \<open>Prefixes, suffixes and trimming\<close>

fun strip_prefix :: "string \<Rightarrow> string \<Rightarrow> string option" where
  "strip_prefix [] s = Some s"
| "strip_prefix (p # ps) [] = None"
| "strip_prefix (p # ps) (x # xs) = (if p = x then strip_prefix ps xs else None)"

lemma strip_prefix_Some: "strip_prefix p s = Some r \<longleftrightarrow> s = p @ r"
  by (induction p s rule: strip_prefix.induct) auto

definition ends_with :: "string \<Rightarrow> string \<Rightarrow> bool" where
  "ends_with suf s \<longleftrightarrow> strip_prefix (rev suf) (rev s) \<noteq> None"

lemma ends_with_iff: "ends_with suf s \<longleftrightarrow> (\<exists>p. s = p @ suf)"
proof -
  have "ends_with suf s \<longleftrightarrow> (\<exists>r. strip_prefix (rev suf) (rev s) = Some r)"
    by (simp add: ends_with_def)
  also have "\<dots> \<longleftrightarrow> (\<exists>r. rev s = rev suf @ r)"
    by (simp add: strip_prefix_Some)
  also have "\<dots> \<longleftrightarrow> (\<exists>p. s = p @ suf)"
    by (metis rev_append rev_rev_ident)
  finally show ?thesis .
qed

definition trim_start_matches :: "(char \<Rightarrow> bool) \<Rightarrow> string \<Rightarrow> string" where
  "trim_start_matches P s = dropWhile P s"

definition trim_end_matches :: "(char \<Rightarrow> bool) \<Rightarrow> string \<Rightarrow> string" where
  "trim_end_matches P s = rev (dropWhile P (rev s))"

definition trim_matches :: "(char \<Rightarrow> bool) \<Rightarrow> string \<Rightarrow> string" where
  "trim_matches P s = trim_end_matches P (trim_start_matches P s)"

lemma trim_end_matches_id: "s = [] \<or> \<not> P (last s) \<Longrightarrow> trim_end_matches P s = s"
  by (cases s rule: rev_cases) (auto simp: trim_end_matches_def)

lemma trim_end_matches_snoc: "P c \<Longrightarrow> trim_end_matches P (s @ [c]) = trim_end_matches P s"
  by (simp add: trim_end_matches_def)

lemma trim_end_matches_prefix: "\<exists>t. s = trim_end_matches P s @ t \<and> (\<forall>c\<in>set t. P c)"
proof -
  have "s = rev (dropWhile P (rev s)) @ rev (takeWhile P (rev s))"
    by (metis rev_append rev_rev_ident takeWhile_dropWhile_id)
  moreover have "\<forall>c\<in>set (rev (takeWhile P (rev s))). P c"
    by (auto dest: set_takeWhileD)
  ultimately show ?thesis unfolding trim_end_matches_def by blast
qed

lemma trim_matches_id: "\<forall>c\<in>set s. \<not> P c \<Longrightarrow> trim_matches P s = s"
proof -
  assume a: "\<forall>c\<in>set s. \<not> P c"
  then have "dropWhile P s = s" by (cases s) auto
  with a show ?thesis
    by (auto simp: trim_matches_def trim_start_matches_def intro!: trim_end_matches_id)
qed

text \<open>\<open>trim_end_matches\<close> with a string pattern removes it as often as it ends the string.\<close>

function trim_end_str :: "string \<Rightarrow> string \<Rightarrow> string" where
  "trim_end_str suf s =
     (if suf \<noteq> [] \<and> ends_with suf s then trim_end_str suf (take (length s - length suf) s) else s)"
  by pat_completeness auto
termination
  by (relation "measure (\<lambda>(suf, s). length s)") (auto simp: ends_with_iff)

declare trim_end_str.simps [simp del]

lemma trim_end_str_stop: "\<not> ends_with suf s \<Longrightarrow> trim_end_str suf s = s"
  by (simp add: trim_end_str.simps)

lemma trim_end_str_append: "suf \<noteq> [] \<Longrightarrow> trim_end_str suf (s @ suf) = trim_end_str suf s"
  by (subst trim_end_str.simps) (auto simp: ends_with_iff)

lemma trim_end_str_not_ends: "suf \<noteq> [] \<Longrightarrow> \<not> ends_with suf (trim_end_str suf s)"
proof (induction suf s rule: trim_end_str.induct)
  case (1 suf s)
  then show ?case
    by (cases "ends_with suf s") (simp_all add: trim_end_str.simps[of suf s])
qed

lemma trim_end_str_prefix: "\<exists>n. s = trim_end_str suf s @ concat (replicate n suf)"
proof (induction suf s rule: trim_end_str.induct)
  case (1 suf s)
  show ?case
  proof (cases "suf \<noteq> [] \<and> ends_with suf s")
    case True
    then obtain p where p: "s = p @ suf" by (auto simp: ends_with_iff)
    with True "1.IH" obtain n where "p = trim_end_str suf p @ concat (replicate n suf)" by auto
    with True p have "s = trim_end_str suf s @ concat (replicate (Suc n) suf)"
      by (metis append.assoc concat.simps(2) concat_append replicate_Suc replicate_append_same
          concat.simps(1) append_Nil2 trim_end_str_append)
    then show ?thesis by blast
  next
    case False
    then have "trim_end_str suf s = s" by (subst trim_end_str.simps) auto
    then show ?thesis by (intro exI[of _ 0]) simp
  qed
qed

text \<open>
  \<open>str::trim\<close> removes leading and trailing characters with the Unicode property
  \<open>White_Space\<close>.  \<open>ws_len\<close> is the number of bytes of such a character at the head of the
  string, 0 when there is none; \<open>ws_len_rev\<close> reads the reversed string.
\<close>

definition ws_byte :: "char \<Rightarrow> bool" where
  "ws_byte c \<longleftrightarrow> (9 \<le> (of_char c :: nat) \<and> (of_char c :: nat) \<le> 13) \<or> c = CHR '' ''"

definition ws_e280 :: "char \<Rightarrow> bool" where
  "ws_e280 c \<longleftrightarrow> (0x80 \<le> (of_char c :: nat) \<and> (of_char c :: nat) \<le> 0x8A) \<or>
     c = CHR 0xA8 \<or> c = CHR 0xA9 \<or> c = CHR 0xAF"

definition ws3 :: "char \<Rightarrow> char \<Rightarrow> char \<Rightarrow> bool" where
  "ws3 a b c \<longleftrightarrow> (a = CHR 0xE1 \<and> b = CHR 0x9A \<and> c = CHR 0x80) \<or>
     (a = CHR 0xE2 \<and> b = CHR 0x80 \<and> ws_e280 c) \<or>
     (a = CHR 0xE2 \<and> b = CHR 0x81 \<and> c = CHR 0x9F) \<or>
     (a = CHR 0xE3 \<and> b = CHR 0x80 \<and> c = CHR 0x80)"

definition ws2 :: "char \<Rightarrow> char \<Rightarrow> bool" where
  "ws2 a b \<longleftrightarrow> a = CHR 0xC2 \<and> (b = CHR 0x85 \<or> b = CHR 0xA0)"

fun ws_len :: "string \<Rightarrow> nat" where
  "ws_len [] = 0"
| "ws_len [a] = (if ws_byte a then 1 else 0)"
| "ws_len [a, b] = (if ws_byte a then 1 else if ws2 a b then 2 else 0)"
| "ws_len (a # b # c # s) =
     (if ws_byte a then 1 else if ws2 a b then 2 else if ws3 a b c then 3 else 0)"

fun ws_len_rev :: "string \<Rightarrow> nat" where
  "ws_len_rev [] = 0"
| "ws_len_rev [a] = (if ws_byte a then 1 else 0)"
| "ws_len_rev [b, a] = (if ws_byte b then 1 else if ws2 a b then 2 else 0)"
| "ws_len_rev (c # b # a # s) =
     (if ws_byte c then 1 else if ws2 b c then 2 else if ws3 a b c then 3 else 0)"

lemma ws_len_le: "ws_len s \<le> length s"
  by (induction s rule: ws_len.induct) auto

lemma ws_len_rev_le: "ws_len_rev s \<le> length s"
  by (induction s rule: ws_len_rev.induct) auto

function trim_start :: "string \<Rightarrow> string" where
  "trim_start s = (if ws_len s = 0 then s else trim_start (drop (ws_len s) s))"
  by pat_completeness auto
termination
  by (relation "measure length") (use ws_len_le in \<open>auto simp: diff_less_mono2 intro: diff_less le_trans\<close>)

function drop_ws_rev :: "string \<Rightarrow> string" where
  "drop_ws_rev s = (if ws_len_rev s = 0 then s else drop_ws_rev (drop (ws_len_rev s) s))"
  by pat_completeness auto
termination
  by (relation "measure length") (use ws_len_rev_le in \<open>auto simp: diff_less_mono2 intro: diff_less le_trans\<close>)

declare trim_start.simps [simp del] drop_ws_rev.simps [simp del]

definition trim_end :: "string \<Rightarrow> string" where
  "trim_end s = rev (drop_ws_rev (rev s))"

definition trim :: "string \<Rightarrow> string" where
  "trim s = trim_end (trim_start s)"

lemma trim_start_id: "ws_len s = 0 \<Longrightarrow> trim_start s = s"
  by (simp add: trim_start.simps)

lemma trim_end_id: "ws_len_rev (rev s) = 0 \<Longrightarrow> trim_end s = s"
  by (simp add: trim_end_def drop_ws_rev.simps)

lemma trim_id: "ws_len s = 0 \<Longrightarrow> ws_len_rev (rev s) = 0 \<Longrightarrow> trim s = s"
  by (simp add: trim_def trim_start_id trim_end_id)

text \<open>Printable ASCII other than the blank is never part of a white-space character.\<close>

definition graphic :: "char \<Rightarrow> bool" where
  "graphic c \<longleftrightarrow> 33 \<le> (of_char c :: nat) \<and> (of_char c :: nat) < 127"

lemma not_graphic_ws:
  assumes "graphic c"
  shows "\<not> ws_byte c" "\<not> ws2 c b" "\<not> ws2 a c" "\<not> ws3 c a b" "\<not> ws3 a b c"
  using assms by (auto simp: graphic_def ws_byte_def ws2_def ws3_def ws_e280_def)

lemma ws_len_graphic: "graphic c \<Longrightarrow> ws_len (c # s) = 0"
  by (cases "c # s" rule: ws_len.cases) (auto simp: not_graphic_ws)

lemma ws_len_rev_graphic: "graphic c \<Longrightarrow> ws_len_rev (c # s) = 0"
  by (cases "c # s" rule: ws_len_rev.cases) (auto simp: not_graphic_ws)

lemma trim_graphic: "s \<noteq> [] \<Longrightarrow> graphic (hd s) \<Longrightarrow> graphic (last s) \<Longrightarrow> trim s = s"
proof (rule trim_id)
  assume s: "s \<noteq> []" "graphic (hd s)" "graphic (last s)"
  then show "ws_len s = 0" by (cases s) (simp_all add: ws_len_graphic)
  from s show "ws_len_rev (rev s) = 0" by (cases s rule: rev_cases) (simp_all add: ws_len_rev_graphic)
qed

section \<open>ASCII case\<close>

definition ascii_lower :: "char \<Rightarrow> char" where
  "ascii_lower c =
     (let n = (of_char c :: nat) in if 65 \<le> n \<and> n \<le> 90 then char_of (n + 32) else c)"

definition to_ascii_lowercase :: "string \<Rightarrow> string" where
  "to_ascii_lowercase s = map ascii_lower s"

definition eq_ignore_ascii_case :: "string \<Rightarrow> string \<Rightarrow> bool" where
  "eq_ignore_ascii_case a b \<longleftrightarrow> to_ascii_lowercase a = to_ascii_lowercase b"

section \<open>Numbers\<close>

text \<open>\<open>char::to_digit(radix)\<close> for radix at most 36.\<close>

definition digit_val :: "nat \<Rightarrow> char \<Rightarrow> nat option" where
  "digit_val r c =
     (let n = (of_char c :: nat);
          v = (if 48 \<le> n \<and> n \<le> 57 then n - 48
               else if 97 \<le> n \<and> n \<le> 122 then n - 87
               else if 65 \<le> n \<and> n \<le> 90 then n - 55 else r)
      in if v < r then Some v else None)"

definition is_radix_digit :: "nat \<Rightarrow> char \<Rightarrow> bool" where
  "is_radix_digit r c \<longleftrightarrow> digit_val r c \<noteq> None"

lemma digit_graphic: "is_radix_digit r c \<Longrightarrow> graphic c"
  by (auto simp: is_radix_digit_def digit_val_def graphic_def Let_def split: if_splits)

definition digits_value :: "nat \<Rightarrow> string \<Rightarrow> nat" where
  "digits_value r s = foldl (\<lambda>v c. v * r + the (digit_val r c)) 0 s"

text \<open>\<open>u16::from_str\<close> and its kin: an optional plus sign, then decimal digits only, no overflow.\<close>

definition parse_unsigned :: "nat \<Rightarrow> string \<Rightarrow> nat option" where
  "parse_unsigned m s =
     (let ds = (case s of c # cs \<Rightarrow> if c = CHR ''+'' then cs else s | [] \<Rightarrow> [])
      in if ds \<noteq> [] \<and> list_all (is_radix_digit 10) ds \<and> digits_value 10 ds \<le> m
         then Some (digits_value 10 ds) else None)"

definition parse_u16 :: "string \<Rightarrow> u16 option" where
  "parse_u16 s = map_option of_nat (parse_unsigned 65535 s)"

definition parse_u8 :: "string \<Rightarrow> u8 option" where
  "parse_u8 s = map_option of_nat (parse_unsigned 255 s)"

text \<open>Decimal and lower-case hexadecimal output (\<open>{}\<close> and \<open>{:x}\<close>).\<close>

definition digit_char :: "nat \<Rightarrow> char" where
  "digit_char n = char_of (if n < 10 then 48 + n else 87 + n)"

fun show_radix :: "nat \<Rightarrow> nat \<Rightarrow> string" where
  "show_radix r n =
     (if n < r \<or> r < 2 then [digit_char n] else show_radix r (n div r) @ [digit_char (n mod r)])"

declare show_radix.simps [simp del]

abbreviation show_nat :: "nat \<Rightarrow> string" where
  "show_nat n \<equiv> show_radix 10 n"

lemma digit_val_char: "n < r \<Longrightarrow> r \<le> 16 \<Longrightarrow> digit_val r (digit_char n) = Some n"
  by (simp add: digit_val_def digit_char_def Let_def)

lemma is_radix_digit_char: "n < r \<Longrightarrow> r \<le> 16 \<Longrightarrow> is_radix_digit r (digit_char n)"
  by (simp add: is_radix_digit_def digit_val_char)

lemma digits_value_snoc: "digits_value r (s @ [c]) = digits_value r s * r + the (digit_val r c)"
  by (simp add: digits_value_def)

lemma show_radix_props:
  assumes "2 \<le> r" and "r \<le> 16"
  shows "list_all (is_radix_digit r) (show_radix r n) \<and> digits_value r (show_radix r n) = n \<and>
    show_radix r n \<noteq> [] \<and> (1 < length (show_radix r n) \<longrightarrow> hd (show_radix r n) \<noteq> CHR ''0'')"
  using assms
proof (induction r n rule: show_radix.induct)
  case (1 r n)
  show ?case
  proof (cases "n < r")
    case True
    with "1.prems" show ?thesis
      by (simp add: show_radix.simps[of r n] is_radix_digit_char digits_value_def digit_val_char)
  next
    case False
    with "1.prems" have r: "n mod r < r" "0 < n div r" by (simp_all add: div_greater_zero_iff)
    from False "1.prems" "1.IH" have ih: "list_all (is_radix_digit r) (show_radix r (n div r))"
      "digits_value r (show_radix r (n div r)) = n div r" "show_radix r (n div r) \<noteq> []"
      "1 < length (show_radix r (n div r)) \<longrightarrow> hd (show_radix r (n div r)) \<noteq> CHR ''0''"
      by auto
    have "hd (show_radix r (n div r)) \<noteq> CHR ''0''"
    proof (cases "n div r < r")
      case True
      then have "show_radix r (n div r) = [digit_char (n div r)]" by (simp add: show_radix.simps)
      moreover have "digit_val r (CHR ''0'') = Some 0" using "1.prems" by (simp add: digit_val_def)
      ultimately show ?thesis
        using r True "1.prems" digit_val_char[of "n div r" r] by auto
    next
      case False
      then have "1 < length (show_radix r (n div r))"
        using "1.prems" ih(3) by (subst show_radix.simps) (simp add: show_radix.simps[of r "n div r div r"])
      with ih(4) show ?thesis by blast
    qed
    with False "1.prems" ih r show ?thesis
      by (simp add: show_radix.simps[of r n] digits_value_snoc digit_val_char is_radix_digit_char)
  qed
qed

lemma show_radix_length: "n < r ^ k \<Longrightarrow> 0 < k \<Longrightarrow> 2 \<le> r \<Longrightarrow> length (show_radix r n) \<le> k"
proof (induction k arbitrary: n)
  case (Suc k)
  show ?case
  proof (cases "n < r")
    case False
    with Suc.prems have "n div r < r ^ k" by (simp add: less_mult_imp_div_less mult.commute)
    moreover from False Suc.prems have "0 < k" by (cases k) auto
    ultimately have "length (show_radix r (n div r)) \<le> k" using Suc by simp
    with False Suc.prems show ?thesis by (simp add: show_radix.simps[of r n])
  qed (simp add: show_radix.simps)
qed simp

lemmas show_nat_props = show_radix_props[of 10, simplified]

lemma list_all_radix_not_in:
  "list_all (is_radix_digit r) s \<Longrightarrow> \<not> is_radix_digit r c \<Longrightarrow> c \<notin> set s"
  by (auto simp: list_all_iff)

lemma not_radix_digit [simp]:
  "r \<le> 36 \<Longrightarrow> c \<in> set '':.[]+%/,- '' \<Longrightarrow> \<not> is_radix_digit r c"
  by (auto simp: is_radix_digit_def digit_val_def Let_def)

lemma show_nat_no_special: "c \<in> set '':.[]+%/,- '' \<Longrightarrow> c \<notin> set (show_nat n)"
  using show_nat_props[of n] by (intro list_all_radix_not_in[where r = 10]) auto

lemma parse_unsigned_show_nat: "n \<le> m \<Longrightarrow> parse_unsigned m (show_nat n) = Some n"
proof -
  assume "n \<le> m"
  moreover have "hd (show_nat n) \<noteq> CHR ''+''"
    using show_nat_props[of n] show_nat_no_special[of "CHR ''+''" n] by (metis hd_in_set
        insertI1 insertI2 list.set(2) numeral_code)
  ultimately show ?thesis
    using show_nat_props[of n] by (cases "show_nat n") (auto simp: parse_unsigned_def)
qed

lemma parse_u16_show_nat: "parse_u16 (show_nat (unat p)) = Some p"
proof -
  have "unat p \<le> 65535" using unsigned_less[of p, where 'a = nat] by simp
  then show ?thesis by (simp add: parse_u16_def parse_unsigned_show_nat)
qed

lemma show_nat_inject: "show_nat a = show_nat b \<Longrightarrow> a = b"
  using show_nat_props[of a] show_nat_props[of b] by metis

lemma parse_unsigned_chars:
  "parse_unsigned m s = Some n \<Longrightarrow> c \<in> set s \<Longrightarrow> c = CHR ''+'' \<or> is_radix_digit 10 c"
  by (auto simp: parse_unsigned_def Let_def list_all_iff split: list.splits if_splits)

text \<open>A value between the apostrophes of a message such as \<open>no record for '{}'\<close>.\<close>

definition quoted :: "string \<Rightarrow> string" where
  "quoted s = CHR 0x27 # s @ [CHR 0x27]"

section \<open>Durations\<close>

text \<open>\<open>Debug\<close> of a \<open>Duration\<close>: the largest unit that leaves a non-zero integer part, with the
  fraction printed without trailing zeros.\<close>

definition pad_zeros :: "nat \<Rightarrow> string \<Rightarrow> string" where
  "pad_zeros n s = replicate (n - length s) (CHR ''0'') @ s"

definition fmt_decimal :: "nat \<Rightarrow> nat \<Rightarrow> nat \<Rightarrow> string" where
  "fmt_decimal ip frac digits =
     show_nat ip @
     (if frac = 0 then []
      else ''.'' @ trim_end_matches (\<lambda>c. c = CHR ''0'') (pad_zeros digits (show_nat frac)))"

definition debug_duration :: "duration \<Rightarrow> string" where
  "debug_duration d =
     (if 1000000000 \<le> d then fmt_decimal (d div 1000000000) (d mod 1000000000) 9 @ ''s''
      else if 1000000 \<le> d then fmt_decimal (d div 1000000) (d mod 1000000) 6 @ ''ms''
      else if 1000 \<le> d then fmt_decimal (d div 1000) (d mod 1000) 3 @ [CHR 0xC2, CHR 0xB5, CHR ''s'']
      else show_nat d @ ''ns'')"

end
