(* ===== verification/Std_Net.thy ===== *)
theory Std_Net
  imports Std_Text
begin

text \<open>
  The part of \<open>std::net\<close> the sources use: address types, the address parser behind
  \<open>FromStr\<close>, and \<open>Display\<close>.  A parser reads a prefix of the input and returns the rest; on
  \<open>None\<close> the caller keeps its input, which is what \<open>read_atomically\<close> does.  The main result
  is that every address, printed and parsed, comes back.
\<close>

section \<open>Addresses\<close>

type_synonym ipv4 = "32 word"
type_synonym ipv6 = "128 word"

datatype ip_addr = V4 ipv4 | V6 ipv6

datatype socket_addr =
    SockV4 ipv4 (v4_port: u16)
  | SockV6 ipv6 (v6_port: u16) (flowinfo: u32) (scope_id: u32)

fun sock_new :: "ip_addr \<Rightarrow> u16 \<Rightarrow> socket_addr" where
  "sock_new (V4 a) p = SockV4 a p"
| "sock_new (V6 a) p = SockV6 a p 0 0"

fun sock_ip :: "socket_addr \<Rightarrow> ip_addr" where
  "sock_ip (SockV4 a p) = V4 a"
| "sock_ip (SockV6 a p f s) = V6 a"

fun sock_port :: "socket_addr \<Rightarrow> u16" where
  "sock_port (SockV4 a p) = p"
| "sock_port (SockV6 a p f s) = p"

definition v4_octets :: "ipv4 \<Rightarrow> bytes" where
  "v4_octets a = split_be 4 a"

definition v4_of_octets :: "bytes \<Rightarrow> ipv4" where
  "v4_of_octets bs = cat_be bs"

definition v6_octets :: "ipv6 \<Rightarrow> bytes" where
  "v6_octets a = split_be 16 a"

definition v6_of_octets :: "bytes \<Rightarrow> ipv6" where
  "v6_of_octets bs = cat_be bs"

definition segments :: "ipv6 \<Rightarrow> u16 list" where
  "segments a = split_be 8 a"

definition v6_of_segments :: "u16 list \<Rightarrow> ipv6" where
  "v6_of_segments gs = cat_be gs"

definition v4_unspecified :: ipv4 where "v4_unspecified = 0"

definition v4_localhost :: ipv4 where "v4_localhost = v4_of_octets [127, 0, 0, 1]"

lemma length_octets [simp]: "length (v4_octets a) = 4" "length (v6_octets b) = 16"
  "length (segments b) = 8"
  by (simp_all add: v4_octets_def v6_octets_def segments_def)

lemma v4_of_octets_octets [simp]: "v4_of_octets (v4_octets a) = a"
  by (simp add: v4_of_octets_def v4_octets_def cat_be_split_be)

lemma v6_of_octets_octets [simp]: "v6_of_octets (v6_octets a) = a"
  by (simp add: v6_of_octets_def v6_octets_def cat_be_split_be)

lemma v6_octets_of_octets [simp]: "length bs = 16 \<Longrightarrow> v6_octets (v6_of_octets bs) = bs"
  by (simp add: v6_of_octets_def v6_octets_def split_be_cat_be)

lemma v4_octets_of_octets [simp]: "length bs = 4 \<Longrightarrow> v4_octets (v4_of_octets bs) = bs"
  by (simp add: v4_of_octets_def v4_octets_def split_be_cat_be)

lemma v6_of_segments_segments [simp]: "v6_of_segments (segments a) = a"
  by (simp add: v6_of_segments_def segments_def cat_be_split_be)

lemma segments_of_segments [simp]: "length gs = 8 \<Longrightarrow> segments (v6_of_segments gs) = gs"
  by (simp add: v6_of_segments_def segments_def split_be_cat_be)

section \<open>The parser\<close>

definition read_given_char :: "char \<Rightarrow> string \<Rightarrow> string option" where
  "read_given_char c s = (case s of x # xs \<Rightarrow> if x = c then Some xs else None | [] \<Rightarrow> None)"

text \<open>\<open>read_number\<close> with a digit limit (address groups) and without (ports, scope ids).\<close>

definition read_number :: "nat \<Rightarrow> nat option \<Rightarrow> bool \<Rightarrow> nat \<Rightarrow> string \<Rightarrow> (nat \<times> string) option" where
  "read_number radix max_digits allow_zero_prefix m s =
     (let ds = takeWhile (is_radix_digit radix) s; rest = dropWhile (is_radix_digit radix) s
      in if ds = [] then None
         else if (case max_digits of Some k \<Rightarrow> k < length ds | None \<Rightarrow> False) then None
         else if \<not> allow_zero_prefix \<and> hd ds = CHR ''0'' \<and> 1 < length ds then None
         else if digits_value radix ds \<le> m then Some (digits_value radix ds, rest) else None)"

definition read_octet :: "string \<Rightarrow> (u8 \<times> string) option" where
  "read_octet s = map_option (\<lambda>(n, r). (of_nat n, r)) (read_number 10 (Some 3) False 255 s)"

definition read_group :: "string \<Rightarrow> (u16 \<times> string) option" where
  "read_group s = map_option (\<lambda>(n, r). (of_nat n, r)) (read_number 16 (Some 4) True 65535 s)"

definition read_separator ::
  "char \<Rightarrow> bool \<Rightarrow> (string \<Rightarrow> ('a \<times> string) option) \<Rightarrow> string \<Rightarrow> ('a \<times> string) option" where
  "read_separator sep first p s =
     (if first then p s else Option.bind (read_given_char sep s) p)"

fun read_octets :: "nat \<Rightarrow> bool \<Rightarrow> string \<Rightarrow> (bytes \<times> string) option" where
  "read_octets 0 first s = Some ([], s)"
| "read_octets (Suc n) first s =
     (case read_separator (CHR ''.'') first read_octet s of
        None \<Rightarrow> None
      | Some (b, s1) \<Rightarrow>
          (case read_octets n False s1 of None \<Rightarrow> None | Some (bs, s2) \<Rightarrow> Some (b # bs, s2)))"

definition read_ipv4 :: "string \<Rightarrow> (ipv4 \<times> string) option" where
  "read_ipv4 s = map_option (\<lambda>(bs, r). (v4_of_octets bs, r)) (read_octets 4 True s)"

text \<open>\<open>read_groups\<close>: up to \<open>n\<close> groups, an embedded IPv4 address where two slots remain.\<close>

fun read_groups :: "nat \<Rightarrow> bool \<Rightarrow> string \<Rightarrow> u16 list \<times> bool \<times> string" where
  "read_groups 0 first s = ([], False, s)"
| "read_groups (Suc n) first s =
     (case (if 0 < n then read_separator (CHR '':'') first read_ipv4 s else None) of
        Some (a, r) \<Rightarrow> (split_be 2 a, True, r)
      | None \<Rightarrow>
          (case read_separator (CHR '':'') first read_group s of
             None \<Rightarrow> ([], False, s)
           | Some (g, s1) \<Rightarrow> (case read_groups n False s1 of (gs, v, r) \<Rightarrow> (g # gs, v, r))))"

definition read_ipv6 :: "string \<Rightarrow> (ipv6 \<times> string) option" where
  "read_ipv6 s =
     (case read_groups 8 True s of (head, head_ipv4, s1) \<Rightarrow>
        if length head = 8 then Some (v6_of_segments head, s1)
        else if head_ipv4 then None
        else (case Option.bind (read_given_char (CHR '':'') s1) (read_given_char (CHR '':'')) of
            None \<Rightarrow> None
          | Some s2 \<Rightarrow>
              (case read_groups (8 - (length head + 1)) True s2 of (tail, _, s3) \<Rightarrow>
                 Some (v6_of_segments (head @ replicate (8 - length head - length tail) 0 @ tail),
                       s3))))"

definition read_port :: "string \<Rightarrow> (u16 \<times> string) option" where
  "read_port s = Option.bind (read_given_char (CHR '':'') s)
     (\<lambda>s1. map_option (\<lambda>(n, r). (of_nat n, r)) (read_number 10 None True 65535 s1))"

definition read_scope_id :: "string \<Rightarrow> (u32 \<times> string) option" where
  "read_scope_id s = Option.bind (read_given_char (CHR ''%'') s)
     (\<lambda>s1. map_option (\<lambda>(n, r). (of_nat n, r)) (read_number 10 None True 4294967295 s1))"

definition read_socket_v4 :: "string \<Rightarrow> (socket_addr \<times> string) option" where
  "read_socket_v4 s =
     (case read_ipv4 s of
        None \<Rightarrow> None
      | Some (a, s1) \<Rightarrow>
          (case read_port s1 of None \<Rightarrow> None | Some (p, s2) \<Rightarrow> Some (SockV4 a p, s2)))"

definition read_socket_v6 :: "string \<Rightarrow> (socket_addr \<times> string) option" where
  "read_socket_v6 s =
     (case read_given_char (CHR ''['') s of
        None \<Rightarrow> None
      | Some s1 \<Rightarrow>
          (case read_ipv6 s1 of
             None \<Rightarrow> None
           | Some (a, s2) \<Rightarrow>
               (let (sc, s3) = (case read_scope_id s2 of Some (c, r) \<Rightarrow> (c, r) | None \<Rightarrow> (0, s2))
                in case read_given_char (CHR '']'') s3 of
                     None \<Rightarrow> None
                   | Some s4 \<Rightarrow>
                       (case read_port s4 of
                          None \<Rightarrow> None
                        | Some (p, s5) \<Rightarrow> Some (SockV6 a p 0 sc, s5)))))"

text \<open>\<open>parse_with\<close>: the parse succeeds only when it consumes the whole input.\<close>

definition parse_with :: "(string \<Rightarrow> ('a \<times> string) option) \<Rightarrow> string \<Rightarrow> 'a option" where
  "parse_with p s = (case p s of Some (a, []) \<Rightarrow> Some a | _ \<Rightarrow> None)"

definition parse_ipv4 :: "string \<Rightarrow> ipv4 option" where
  "parse_ipv4 s = (if 15 < length s then None else parse_with read_ipv4 s)"

definition parse_ipv6 :: "string \<Rightarrow> ipv6 option" where
  "parse_ipv6 s = parse_with read_ipv6 s"

definition read_ip :: "string \<Rightarrow> (ip_addr \<times> string) option" where
  "read_ip s =
     (case read_ipv4 s of
        Some (a, r) \<Rightarrow> Some (V4 a, r)
      | None \<Rightarrow> map_option (\<lambda>(a, r). (V6 a, r)) (read_ipv6 s))"

definition parse_ip :: "string \<Rightarrow> ip_addr option" where
  "parse_ip s = parse_with read_ip s"

definition read_socket :: "string \<Rightarrow> (socket_addr \<times> string) option" where
  "read_socket s = (case read_socket_v4 s of Some r \<Rightarrow> Some r | None \<Rightarrow> read_socket_v6 s)"

definition parse_socket :: "string \<Rightarrow> socket_addr option" where
  "parse_socket s = parse_with read_socket s"

section \<open>Display\<close>

definition show_ipv4 :: "ipv4 \<Rightarrow> string" where
  "show_ipv4 a = join ''.'' (map (\<lambda>b. show_nat (unat b)) (v4_octets a))"

text \<open>The longest run of zero segments, the first one when several are longest.\<close>

fun zero_runs :: "nat \<Rightarrow> nat \<times> nat \<Rightarrow> nat \<times> nat \<Rightarrow> u16 list \<Rightarrow> nat \<times> nat" where
  "zero_runs i cur longest [] = longest"
| "zero_runs i (start, len) longest (g # gs) =
     (if g = 0
      then let cur = (if len = 0 then i else start, len + 1)
           in zero_runs (Suc i) cur (if snd longest < snd cur then cur else longest) gs
      else zero_runs (Suc i) (0, 0) longest gs)"

definition show_group :: "u16 \<Rightarrow> string" where
  "show_group g = show_radix 16 (unat g)"

definition show_groups :: "u16 list \<Rightarrow> string" where
  "show_groups gs = join '':'' (map show_group gs)"

definition to_ipv4_mapped :: "ipv6 \<Rightarrow> ipv4 option" where
  "to_ipv4_mapped a =
     (if take 6 (segments a) = [0, 0, 0, 0, 0, 0xFFFF] then Some (cat_be (drop 6 (segments a)))
      else None)"

definition show_ipv6 :: "ipv6 \<Rightarrow> string" where
  "show_ipv6 a =
     (case to_ipv4_mapped a of
        Some v4 \<Rightarrow> ''::ffff:'' @ show_ipv4 v4
      | None \<Rightarrow>
          (let (start, len) = zero_runs 0 (0, 0) (0, 0) (segments a)
           in if 1 < len
              then show_groups (take start (segments a)) @ ''::'' @
                   show_groups (drop (start + len) (segments a))
              else show_groups (segments a)))"

fun show_ip :: "ip_addr \<Rightarrow> string" where
  "show_ip (V4 a) = show_ipv4 a"
| "show_ip (V6 a) = show_ipv6 a"

fun show_socket :: "socket_addr \<Rightarrow> string" where
  "show_socket (SockV4 a p) = show_ipv4 a @ '':'' @ show_nat (unat p)"
| "show_socket (SockV6 a p f sc) =
     ''['' @ show_ipv6 a @ (if sc = 0 then [] else ''%'' @ show_nat (unat sc)) @ '']:'' @
     show_nat (unat p)"

section \<open>Printed addresses parse back\<close>

definition stops :: "nat \<Rightarrow> string \<Rightarrow> bool" where
  "stops r s \<longleftrightarrow> (case s of [] \<Rightarrow> True | c # cs \<Rightarrow> \<not> is_radix_digit r c)"

lemma stops_simps [simp]: "stops r []" "stops r (c # cs) \<longleftrightarrow> \<not> is_radix_digit r c"
  by (simp_all add: stops_def)

lemma takeWhile_stops:
  "list_all (is_radix_digit r) ds \<Longrightarrow> stops r rest \<Longrightarrow>
   takeWhile (is_radix_digit r) (ds @ rest) = ds \<and> dropWhile (is_radix_digit r) (ds @ rest) = rest"
  by (induction ds) (auto simp: stops_def split: list.splits)

lemma read_number_show:
  assumes "stops r rest" "2 \<le> r" "r \<le> 16" "n \<le> m"
    and "case k of Some l \<Rightarrow> length (show_radix r n) \<le> l | None \<Rightarrow> True"
  shows "read_number r k z m (show_radix r n @ rest) = Some (n, rest)"
proof -
  from show_radix_props[OF assms(2,3), of n]
  have p: "list_all (is_radix_digit r) (show_radix r n)" "digits_value r (show_radix r n) = n"
    "show_radix r n \<noteq> []" "1 < length (show_radix r n) \<longrightarrow> hd (show_radix r n) \<noteq> CHR ''0''"
    by auto
  with takeWhile_stops[OF p(1) assms(1)] assms(4,5) show ?thesis
    by (auto simp: read_number_def Let_def split: option.splits)
qed

lemma read_octet_show: "stops 10 rest \<Longrightarrow> read_octet (show_nat (unat b) @ rest) = Some (b, rest)"
proof -
  assume "stops 10 rest"
  moreover have "unat b < 256" using unsigned_less[of b, where 'a = nat] by simp
  moreover from this have "length (show_nat (unat b)) \<le> 3" by (intro show_radix_length) simp_all
  ultimately show ?thesis by (simp add: read_octet_def read_number_show)
qed

lemma read_group_show: "stops 16 rest \<Longrightarrow> read_group (show_group g @ rest) = Some (g, rest)"
proof -
  assume "stops 16 rest"
  moreover have "unat g < 65536" using unsigned_less[of g, where 'a = nat] by simp
  moreover from this have "length (show_radix 16 (unat g)) \<le> 4" by (intro show_radix_length) simp_all
  ultimately show ?thesis by (simp add: read_group_def show_group_def read_number_show)
qed

lemma read_octets_show:
  "stops 10 rest \<Longrightarrow>
   read_octets (length bs) False (concat (map (\<lambda>b. ''.'' @ show_nat (unat b)) bs) @ rest) = Some (bs, rest)"
proof (induction bs)
  case (Cons b bs)
  have "stops 10 (concat (map (\<lambda>b. ''.'' @ show_nat (unat b)) bs) @ rest)"
    using Cons.prems by (cases bs) simp_all
  with Cons show ?case
    by (simp add: read_separator_def read_given_char_def read_octet_show)
qed simp

lemma read_octets_4:
  "read_octets 4 first s =
     (case read_separator (CHR ''.'') first read_octet s of
        None \<Rightarrow> None
      | Some (b, s1) \<Rightarrow>
          (case read_octets 3 False s1 of None \<Rightarrow> None | Some (bs, s2) \<Rightarrow> Some (b # bs, s2)))"
  using read_octets.simps(2)[of 3 first s] by simp

lemma read_octets_3_fail:
  "read_given_char (CHR ''.'') s = None \<Longrightarrow> read_octets 3 False s = None"
  using read_octets.simps(2)[of 2 False s] by (simp add: read_separator_def)

lemma read_ipv4_show: "stops 10 rest \<Longrightarrow> read_ipv4 (show_ipv4 a @ rest) = Some (a, rest)"
proof -
  assume st: "stops 10 rest"
  obtain b bs where bs: "v4_octets a = b # bs" and l: "length bs = 3"
    using length_octets(1)[of a] by (cases "v4_octets a") auto
  let ?t = "concat (map (\<lambda>b. ''.'' @ show_nat (unat b)) bs) @ rest"
  have "stops 10 ?t" using st by (cases bs) simp_all
  moreover have "show_ipv4 a @ rest = show_nat (unat b) @ ?t"
    by (simp add: show_ipv4_def bs join_concat comp_def)
  moreover have "read_octets 3 False ?t = Some (bs, rest)"
    using read_octets_show[OF st, of bs] l by simp
  ultimately show ?thesis
    using v4_of_octets_octets[of a]
    by (simp add: read_ipv4_def read_octets_4 read_separator_def read_octet_show bs)
qed

text \<open>A decimal number not followed by a dot is no IPv4 address.\<close>

lemma read_number_rest:
  "read_number r k z m s = Some (n, t) \<Longrightarrow> t = dropWhile (is_radix_digit r) s"
  by (auto simp: read_number_def Let_def split: if_splits)

lemma read_ipv4_None:
  assumes "\<And>cs. dropWhile (is_radix_digit 10) s \<noteq> CHR ''.'' # cs"
  shows "read_ipv4 s = None"
proof -
  have "read_octets 4 True s = None"
  proof (cases "read_octet s")
    case (Some x)
    then obtain b t where "read_octet s = Some (b, t)" by (cases x) auto
    then have t: "t = dropWhile (is_radix_digit 10) s"
      by (auto simp: read_octet_def dest: read_number_rest)
    with assms have "read_given_char (CHR ''.'') t = None"
      by (auto simp: read_given_char_def split: list.splits)
    with \<open>read_octet s = Some (b, t)\<close> show ?thesis
      by (simp add: read_octets_4 read_separator_def read_octets_3_fail)
  qed (simp add: read_octets_4 read_separator_def)
  then show ?thesis by (simp add: read_ipv4_def)
qed

lemma hex_of_dec: "is_radix_digit 10 c \<Longrightarrow> is_radix_digit 16 c"
  by (auto simp: is_radix_digit_def digit_val_def Let_def split: if_splits)

lemma dropWhile_no_dot:
  assumes "CHR ''.'' \<notin> set xs" and "stops 10 rest" and "\<And>cs. rest \<noteq> CHR ''.'' # cs"
  shows "dropWhile (is_radix_digit 10) (xs @ rest) \<noteq> CHR ''.'' # cs"
proof (cases "\<forall>x\<in>set xs. is_radix_digit 10 x")
  case True
  then have "dropWhile (is_radix_digit 10) (xs @ rest) = rest"
    using assms(2) by (auto simp: dropWhile_append2 stops_def split: list.splits)
  with assms(3) show ?thesis by metis
next
  case False
  then have "dropWhile (is_radix_digit 10) (xs @ rest) = dropWhile (is_radix_digit 10) xs @ rest"
    and "dropWhile (is_radix_digit 10) xs \<noteq> []"
    by (auto simp: dropWhile_append1 dropWhile_eq_Nil_conv)
  with assms(1) show ?thesis
    by (metis append_eq_Cons_conv list.set_intros(1) set_dropWhileD)
qed

lemma group_no_dot: "CHR ''.'' \<notin> set (show_group g)"
  using show_radix_props[of 16 "unat g"]
  by (intro list_all_radix_not_in[where r = 16]) (auto simp: show_group_def)

text \<open>\<open>group_stop\<close>: what may follow the groups so that no further group is read.\<close>

definition group_stop :: "string \<Rightarrow> bool" where
  "group_stop s \<longleftrightarrow>
     (case s of
        [] \<Rightarrow> True
      | c # cs \<Rightarrow> \<not> is_radix_digit 16 c \<and> c \<noteq> CHR ''.'' \<and>
          (c = CHR '':'' \<longrightarrow> stops 16 cs))"

lemma group_stopD: "group_stop s \<Longrightarrow> stops 16 s \<and> stops 10 s \<and> s \<noteq> CHR ''.'' # cs"
  by (auto simp: group_stop_def stops_def dest: hex_of_dec split: list.splits)

lemma read_ipv4_stops: "stops 10 s \<Longrightarrow> read_ipv4 s = None"
  by (cases s) (simp_all add: read_ipv4_def read_octets_4 read_separator_def read_octet_def read_number_def Let_def)

lemma read_group_stops: "stops 16 s \<Longrightarrow> read_group s = None"
  by (cases s) (simp_all add: read_group_def read_number_def Let_def)

lemma stops_16_10: "stops 16 s \<Longrightarrow> stops 10 s"
  by (auto simp: stops_def dest: hex_of_dec split: list.splits)

lemma read_groups_stop: "group_stop s \<Longrightarrow> read_groups n first s = ([], False, s)"
proof (cases n)
  case (Suc m)
  assume g: "group_stop s"
  have "read_separator (CHR '':'') first read_ipv4 s = None"
    and "read_separator (CHR '':'') first read_group s = None"
    using g group_stopD[OF g, of "[]"]
    by (auto simp: read_separator_def read_given_char_def group_stop_def read_ipv4_stops
        read_group_stops stops_16_10 split: list.splits)
  then show ?thesis using Suc by simp
qed simp

lemma group_followed:
  assumes "group_stop rest"
  shows "stops 16 (concat (map (\<lambda>g. '':'' @ show_group g) gs) @ rest)"
    and "read_ipv4 (show_group g @ concat (map (\<lambda>g. '':'' @ show_group g) gs) @ rest) = None"
proof -
  let ?t = "concat (map (\<lambda>g. '':'' @ show_group g) gs) @ rest"
  show st: "stops 16 ?t" using group_stopD[OF assms, of "[]"] by (cases gs) simp_all
  have "?t \<noteq> CHR ''.'' # cs" for cs using group_stopD[OF assms, of cs] by (cases gs) simp_all
  then show "read_ipv4 (show_group g @ ?t) = None"
    by (intro read_ipv4_None dropWhile_no_dot group_no_dot stops_16_10[OF st])
qed

lemma read_groups_more:
  assumes "group_stop rest"
  shows "length gs \<le> n \<Longrightarrow>
    read_groups n False (concat (map (\<lambda>g. '':'' @ show_group g) gs) @ rest) = (gs, False, rest)"
proof (induction gs arbitrary: n)
  case Nil
  with assms show ?case by (simp add: read_groups_stop)
next
  case (Cons g gs)
  then obtain m where n: "n = Suc m" by (cases n) auto
  with Cons.IH[of m] Cons.prems group_followed[OF assms] show ?case
    by (auto simp: read_separator_def read_given_char_def read_group_show)
qed

lemma read_groups_show:
  assumes "group_stop rest" and "length gs \<le> n"
  shows "read_groups n True (show_groups gs @ rest) = (gs, False, rest)"
proof (cases gs)
  case Nil
  with assms show ?thesis by (simp add: show_groups_def read_groups_stop)
next
  case (Cons g hs)
  with assms(2) obtain m where n: "n = Suc m" by (cases n) auto
  with Cons assms read_groups_more[OF assms(1), of hs m] group_followed[OF assms(1)] show ?thesis
    by (auto simp: show_groups_def join_concat comp_def read_separator_def read_group_show)
qed

text \<open>The run that \<open>Display\<close> compresses consists of zeros.\<close>

definition zero_span :: "u16 list \<Rightarrow> nat \<times> nat \<Rightarrow> bool" where
  "zero_span gs sp \<longleftrightarrow> fst sp + snd sp \<le> length gs \<and>
     (\<forall>i. fst sp \<le> i \<and> i < fst sp + snd sp \<longrightarrow> gs ! i = 0)"

lemma zero_runs_span:
  assumes "zero_span all longest" and "length pre = i" and "all = pre @ gs"
    and "zero_span all cur" and "snd cur \<noteq> 0 \<longrightarrow> fst cur + snd cur = i"
  shows "zero_span all (zero_runs i cur longest gs)"
  using assms
proof (induction i cur longest gs arbitrary: pre rule: zero_runs.induct)
  case (2 i start len longest g gs)
  let ?cur = "(if len = 0 then i else start, len + 1)"
  have ext: "length (pre @ [g]) = Suc i" "all = (pre @ [g]) @ gs" using "2.prems" by simp_all
  show ?case
  proof (cases "g = 0")
    case True
    have sp: "zero_span all ?cur"
      unfolding zero_span_def
    proof (intro conjI allI impI)
      show "fst ?cur + snd ?cur \<le> length all" using "2.prems" by auto
      fix j assume j: "fst ?cur \<le> j \<and> j < fst ?cur + snd ?cur"
      show "all ! j = 0"
      proof (cases "j = i")
        case True
        with \<open>g = 0\<close> "2.prems" show ?thesis by (simp add: nth_append)
      next
        case False
        with j "2.prems" have "start \<le> j \<and> j < start + len" by (auto split: if_splits)
        with "2.prems"(4) show ?thesis by (simp add: zero_span_def)
      qed
    qed
    have e: "snd ?cur \<noteq> 0 \<longrightarrow> fst ?cur + snd ?cur = Suc i" using "2.prems" by auto
    have l: "zero_span all (if snd longest < snd ?cur then ?cur else longest)"
      using sp "2.prems"(1) by simp
    show ?thesis
      using "2.IH"(1)[OF True refl l ext sp e] by (simp only: zero_runs.simps Let_def True if_True simp_thms)
  next
    case False
    with "2.IH"(2)[OF False "2.prems"(1) ext] show ?thesis by (simp add: zero_span_def)
  qed
qed simp

lemma compress_zeros:
  assumes "zero_span gs (st, ln)"
  shows "take st gs @ replicate ln 0 @ drop (st + ln) gs = gs"
proof -
  from assms have "take ln (drop st gs) = replicate ln 0"
    by (intro nth_equalityI) (auto simp: zero_span_def)
  then have "replicate ln 0 @ drop (st + ln) gs = drop st gs"
    by (metis add.commute append_take_drop_id drop_drop)
  then show ?thesis by simp
qed

lemma read_ipv6_compressed:
  assumes stop: "group_stop rest" and len: "length head + length tail \<le> 7"
  shows "read_ipv6 (show_groups head @ ''::'' @ show_groups tail @ rest) =
    Some (v6_of_segments (head @ replicate (8 - length head - length tail) 0 @ tail), rest)"
proof -
  have "stops 16 (CHR '':'' # show_groups tail @ rest)" by simp
  then have "group_stop (''::'' @ show_groups tail @ rest)" by (simp add: group_stop_def)
  then have h: "read_groups 8 True (show_groups head @ ''::'' @ show_groups tail @ rest) =
      (head, False, ''::'' @ show_groups tail @ rest)"
    using len by (intro read_groups_show) auto
  have t: "read_groups (7 - length head) True (show_groups tail @ rest) = (tail, False, rest)"
    using stop len by (intro read_groups_show) auto
  from h t len show ?thesis
    by (simp add: read_ipv6_def read_given_char_def)
qed

lemma read_ipv6_mapped:
  assumes "stops 10 rest"
  shows "read_ipv6 (''::ffff:'' @ show_ipv4 a @ rest) =
    Some (v6_of_segments ([0, 0, 0, 0, 0, 0xFFFF] @ split_be 2 a), rest)"
proof -
  have g: "group_stop (''::'' @ t)" for t by (simp add: group_stop_def)
  have h: "read_groups 8 True (''::ffff:'' @ show_ipv4 a @ rest) =
      ([], False, ''::ffff:'' @ show_ipv4 a @ rest)"
    using g[of "''ffff:'' @ show_ipv4 a @ rest"] by (simp add: read_groups_stop)
  have f: "show_group 0xFFFF = ''ffff''"
    by (simp add: show_group_def show_radix.simps digit_char_def char_of_def bit_0)
  have "read_ipv4 (show_group 0xFFFF @ '':'' @ show_ipv4 a @ rest) = None"
    by (intro read_ipv4_None dropWhile_no_dot group_no_dot) simp_all
  moreover have "read_group (show_group 0xFFFF @ '':'' @ show_ipv4 a @ rest) =
      Some (0xFFFF, '':'' @ show_ipv4 a @ rest)"
    by (rule read_group_show) simp
  moreover have "read_groups 6 False ('':'' @ show_ipv4 a @ rest) = (split_be 2 a, True, rest)"
    using read_groups.simps(2)[of 5 False "'':'' @ show_ipv4 a @ rest"]
    by (simp add: read_separator_def read_given_char_def read_ipv4_show[OF assms])
  ultimately have t: "read_groups 7 True (''ffff:'' @ show_ipv4 a @ rest) =
      (0xFFFF # split_be 2 a, True, rest)"
    using read_groups.simps(2)[of 6 True "''ffff:'' @ show_ipv4 a @ rest"]
    by (simp add: f read_separator_def)
  have r: "replicate 5 (0 :: u16) = [0, 0, 0, 0, 0]" by (simp add: numeral_eq_Suc)
  from h t show ?thesis
    by (simp add: read_ipv6_def read_given_char_def r)
qed

lemma read_ipv6_show:
  assumes stop: "group_stop rest"
  shows "read_ipv6 (show_ipv6 a @ rest) = Some (a, rest)"
proof (cases "to_ipv4_mapped a")
  case (Some v4)
  then have t: "take 6 (segments a) = [0, 0, 0, 0, 0, 0xFFFF]" and v4: "v4 = cat_be (drop 6 (segments a))"
    by (auto simp: to_ipv4_mapped_def split: if_splits)
  have "split_be 2 v4 = drop 6 (segments a)" unfolding v4 by (rule split_be_cat_be) simp_all
  with t have "v6_of_segments ([0, 0, 0, 0, 0, 0xFFFF] @ split_be 2 v4) = a"
    by (metis append_take_drop_id v6_of_segments_segments)
  with Some read_ipv6_mapped[of rest v4] group_stopD[OF stop, of "[]"] show ?thesis
    by (simp add: show_ipv6_def)
next
  case None
  obtain st ln where r: "zero_runs 0 (0, 0) (0, 0) (segments a) = (st, ln)" by fastforce
  have "zero_span (segments a) (zero_runs 0 (0, 0) (0, 0) (segments a))"
    by (rule zero_runs_span[where pre = "[]"]) (simp_all add: zero_span_def)
  with r have sp: "zero_span (segments a) (st, ln)" by simp
  show ?thesis
  proof (cases "1 < ln")
    case True
    let ?h = "take st (segments a)" and ?t = "drop (st + ln) (segments a)"
    from sp have b: "st + ln \<le> 8" by (simp add: zero_span_def)
    with True have "8 - length ?h - length ?t = ln" and "length ?h + length ?t \<le> 7" by auto
    with read_ipv6_compressed[OF stop, of ?h ?t] compress_zeros[OF sp] None r True show ?thesis
      by (simp add: show_ipv6_def)
  next
    case False
    with None r read_groups_show[OF stop, of "segments a" 8] show ?thesis
      by (simp add: show_ipv6_def read_ipv6_def)
  qed
qed

text \<open>The whole-string parsers invert the printers.\<close>

lemma show_ipv4_length: "length (show_ipv4 a) \<le> 15"
proof -
  obtain p q r t where o4: "v4_octets a = [p, q, r, t]"
    by (simp add: v4_octets_def split_be_def upt_rec)
  have l: "length (show_nat (unat b)) \<le> 3" for b :: u8
    using unsigned_less[of b, where 'a = nat] by (intro show_radix_length) simp_all
  show ?thesis using l[of p] l[of q] l[of r] l[of t] by (simp add: show_ipv4_def o4)
qed

lemma group_stop_Nil [simp]: "group_stop []"
  by (simp add: group_stop_def)

lemma parse_ipv4_show [simp]: "parse_ipv4 (show_ipv4 a) = Some a"
  using read_ipv4_show[of "[]" a] show_ipv4_length[of a]
  by (simp add: parse_ipv4_def parse_with_def)

lemma parse_ipv6_show [simp]: "parse_ipv6 (show_ipv6 a) = Some a"
  using read_ipv6_show[of "[]" a] by (simp add: parse_ipv6_def parse_with_def)

lemma show_ipv6_not_v4: "group_stop rest \<Longrightarrow> read_ipv4 (show_ipv6 a @ rest) = None"
proof -
  assume stop: "group_stop rest"
  have colon: "read_ipv4 (CHR '':'' # t) = None" for t by (simp add: read_ipv4_stops)
  have groups: "read_ipv4 (show_groups gs @ t) = None" if "group_stop t" for gs t
  proof (cases gs)
    case Nil
    with that show ?thesis
      using group_stopD[OF that, of "[]"] by (simp add: show_groups_def read_ipv4_stops)
  next
    case (Cons g hs)
    with group_followed(2)[OF that, of g hs] show ?thesis
      by (simp add: show_groups_def join_concat comp_def)
  qed
  have dc: "read_ipv4 (show_groups gs @ CHR '':'' # CHR '':'' # t) = None" for gs t
    by (rule groups) (simp add: group_stop_def)
  show ?thesis
    using colon groups[OF stop] dc
    by (auto simp: show_ipv6_def split: option.splits prod.splits)
qed

lemma parse_ip_show [simp]: "parse_ip (show_ip a) = Some a"
proof (cases a)
  case (V4 x)
  then show ?thesis using read_ipv4_show[of "[]" x] by (simp add: parse_ip_def parse_with_def read_ip_def)
next
  case (V6 x)
  then show ?thesis
    using read_ipv6_show[of "[]" x] show_ipv6_not_v4[of "[]" x]
    by (simp add: parse_ip_def parse_with_def read_ip_def)
qed

lemma show_ip_inject [simp]: "show_ip a = show_ip b \<longleftrightarrow> a = b"
  by (metis option.inject parse_ip_show)

lemma show_ipv6_inject [simp]: "show_ipv6 a = show_ipv6 b \<longleftrightarrow> a = b"
  by (metis option.inject parse_ipv6_show)

lemma read_port_show: "stops 10 rest \<Longrightarrow> read_port (CHR '':'' # show_nat (unat p) @ rest) = Some (p, rest)"
proof -
  assume st: "stops 10 rest"
  have "unat p \<le> 65535" using unsigned_less[of p, where 'a = nat] by simp
  with read_number_show[OF st, of "unat p" 65535 None True] show ?thesis
    by (simp add: read_port_def read_given_char_def)
qed

lemma read_scope_show:
  "stops 10 rest \<Longrightarrow> read_scope_id (CHR ''%'' # show_nat (unat c) @ rest) = Some (c, rest)"
proof -
  assume st: "stops 10 rest"
  have "unat c \<le> 4294967295" using unsigned_less[of c, where 'a = nat] by simp
  with read_number_show[OF st, of "unat c" 4294967295 None True] show ?thesis
    by (simp add: read_scope_id_def read_given_char_def)
qed

lemma read_ipv4_bracket: "read_ipv4 (CHR ''['' # t) = None"
  by (simp add: read_ipv4_stops)

lemma read_socket_show:
  assumes "stops 10 rest"
  shows "read_socket (show_socket (SockV4 a p) @ rest) = Some (SockV4 a p, rest)"
    and "read_socket (show_socket (SockV6 b p 0 sc) @ rest) = Some (SockV6 b p 0 sc, rest)"
proof -
  show "read_socket (show_socket (SockV4 a p) @ rest) = Some (SockV4 a p, rest)"
    using read_port_show[OF assms, of p] read_ipv4_show[of "CHR '':'' # show_nat (unat p) @ rest" a]
    by (simp add: read_socket_def read_socket_v4_def)
next
  let ?q = "CHR '']'' # CHR '':'' # show_nat (unat p) @ rest"
  have stop: "group_stop ?q" "group_stop (CHR ''%'' # show_nat (unat sc) @ ?q)"
    by (simp_all add: group_stop_def)
  note r = read_ipv6_show[OF stop(1), of b] read_ipv6_show[OF stop(2), of b]
  show "read_socket (show_socket (SockV6 b p 0 sc) @ rest) = Some (SockV6 b p 0 sc, rest)"
  proof (cases "sc = 0")
    case True
    have "read_scope_id ?q = None" by (simp add: read_scope_id_def read_given_char_def)
    with True r read_port_show[OF assms, of p] show ?thesis
      by (simp add: read_socket_def read_socket_v4_def read_socket_v6_def read_ipv4_bracket
          read_given_char_def)
  next
    case False
    with r read_port_show[OF assms, of p] read_scope_show[of ?q sc] show ?thesis
      by (simp add: read_socket_def read_socket_v4_def read_socket_v6_def read_ipv4_bracket
          read_given_char_def)
  qed
qed

fun flow_free :: "socket_addr \<Rightarrow> bool" where
  "flow_free (SockV4 a p) = True"
| "flow_free (SockV6 a p f sc) = (f = 0)"

lemma parse_socket_show: "flow_free a \<Longrightarrow> parse_socket (show_socket a) = Some a"
  using read_socket_show[of "[]"] by (cases a) (simp_all add: parse_socket_def parse_with_def)

lemma flow_free_new [simp]: "flow_free (sock_new i p)"
  by (cases i) simp_all

text \<open>The characters of a printed address.\<close>

definition addr_char :: "char \<Rightarrow> bool" where
  "addr_char c \<longleftrightarrow> is_radix_digit 16 c \<or> c = CHR '':'' \<or> c = CHR ''.''"

lemma list_all_join:
  "list_all P sep \<Longrightarrow> \<forall>x\<in>set xs. list_all P x \<Longrightarrow> list_all P (join sep xs)"
  by (induction sep xs rule: join.induct) auto

lemma list_all_mono_pred: "list_all P xs \<Longrightarrow> (\<And>x. P x \<Longrightarrow> Q x) \<Longrightarrow> list_all Q xs"
  by (auto simp: list_all_iff)

lemma show_ipv4_digits: "list_all (\<lambda>c. is_radix_digit 10 c \<or> c = CHR ''.'') (show_ipv4 a)"
  unfolding show_ipv4_def
  by (rule list_all_join) (use show_nat_props in \<open>auto simp: list_all_iff\<close>)

lemma show_ipv4_chars: "list_all addr_char (show_ipv4 a)"
  using show_ipv4_digits by (rule list_all_mono_pred) (auto simp: addr_char_def dest: hex_of_dec)

lemma show_groups_chars: "list_all addr_char (show_groups gs)"
  unfolding show_groups_def
  by (rule list_all_join)
    (use show_radix_props[of 16] in \<open>auto simp: list_all_iff addr_char_def show_group_def\<close>)

lemma show_ipv6_chars: "list_all addr_char (show_ipv6 a)"
proof -
  have "is_radix_digit 16 (CHR ''f'')" by (simp add: is_radix_digit_def digit_val_def)
  then show ?thesis
    by (auto simp: show_ipv6_def show_groups_chars show_ipv4_chars addr_char_def[of "CHR '':''"]
        addr_char_def[of "CHR ''f''"] split: option.splits prod.splits)
qed

lemma show_ip_chars: "list_all addr_char (show_ip a)"
  by (cases a) (simp_all add: show_ipv4_chars show_ipv6_chars)

lemma addr_char_brackets [simp]:
  "\<not> addr_char (CHR ''['')" "\<not> addr_char (CHR '']'')" "\<not> addr_char (CHR ''%'')" "\<not> addr_char (CHR ''+'')"
  by (simp_all add: addr_char_def)

lemma show_ipv4_no_colon: "CHR '':'' \<notin> set (show_ipv4 a)"
  using show_ipv4_digits[of a] by (auto simp: list_all_iff)

lemma show_ipv6_colon: "CHR '':'' \<in> set (show_ipv6 a)"
proof -
  obtain g h gs where "segments a = g # h # gs"
    using length_octets(3)[of a] by (cases "segments a"; cases "tl (segments a)") auto
  then have "CHR '':'' \<in> set (show_groups (segments a))" by (simp add: show_groups_def)
  moreover obtain st ln where "zero_runs 0 (0, 0) (0, 0) (segments a) = (st, ln)" by fastforce
  ultimately show ?thesis by (auto simp: show_ipv6_def split: option.splits)
qed

lemma show_ip_not_Nil [simp]: "show_ip a \<noteq> []" "show_ipv6 b \<noteq> []"
proof -
  show "show_ipv6 b \<noteq> []" using show_ipv6_colon[of b] by auto
  then have "show_ipv6 x \<noteq> []" for x using show_ipv6_colon[of x] by auto
  moreover have "show_ipv4 x \<noteq> []" for x
    using parse_ipv4_show[of x] by (auto simp: parse_ipv4_def parse_with_def read_ipv4_stops)
  ultimately show "show_ip a \<noteq> []" by (cases a) simp_all
qed

lemma show_ipv4_not_Nil [simp]: "show_ipv4 a \<noteq> []"
  using show_ip_not_Nil(1)[of "V4 a"] by simp

lemma addr_char_graphic: "addr_char c \<Longrightarrow> graphic c"
  by (auto simp: addr_char_def dest: digit_graphic) (simp_all add: graphic_def)

lemma show_socket_graphic: "list_all graphic (show_socket a)"
proof -
  have nat: "list_all graphic (show_nat n)" for n
    using show_nat_props[of n] by (auto simp: list_all_iff dest: digit_graphic)
  have c: "graphic (CHR '':'')" "graphic (CHR ''['')" "graphic (CHR '']'')" "graphic (CHR ''%'')"
    by (simp_all add: graphic_def)
  show ?thesis
    using c nat list_all_mono_pred[OF show_ipv4_chars addr_char_graphic]
      list_all_mono_pred[OF show_ipv6_chars addr_char_graphic] by (cases a) auto
qed

lemma trim_list_graphic: "list_all graphic s \<Longrightarrow> trim s = s"
  by (cases "s = []") (auto simp: list_all_iff trim_id intro: trim_graphic)

lemmas trim_show_socket [simp] = trim_list_graphic[OF show_socket_graphic]

lemma show_socket_nonempty [simp]: "show_socket a \<noteq> []"
  by (cases a) simp_all

text \<open>Conversely, a parsed address consists of such characters.\<close>

definition reads_addr :: "(string \<Rightarrow> ('a \<times> string) option) \<Rightarrow> bool" where
  "reads_addr p \<longleftrightarrow> (\<forall>s a r. p s = Some (a, r) \<longrightarrow> (\<exists>q. s = q @ r \<and> list_all addr_char q))"

lemma reads_addrD: "reads_addr p \<Longrightarrow> p s = Some (a, r) \<Longrightarrow> \<exists>q. s = q @ r \<and> list_all addr_char q"
  by (auto simp: reads_addr_def)

lemma reads_number:
  assumes "r = 10 \<or> r = 16"
  shows "read_number r k z m s = Some (n, t) \<Longrightarrow> \<exists>q. s = q @ t \<and> list_all addr_char q"
proof -
  assume "read_number r k z m s = Some (n, t)"
  then have "t = dropWhile (is_radix_digit r) s" by (rule read_number_rest)
  then have "s = takeWhile (is_radix_digit r) s @ t" by simp
  moreover have "list_all addr_char (takeWhile (is_radix_digit r) s)"
    using assms by (auto simp: list_all_iff addr_char_def dest!: set_takeWhileD dest: hex_of_dec)
  ultimately show ?thesis by blast
qed

lemma reads_octet: "reads_addr read_octet" and reads_group: "reads_addr read_group"
  by (auto simp: reads_addr_def read_octet_def read_group_def dest: reads_number[rotated])

lemma reads_separator:
  assumes "reads_addr p" and "addr_char c"
  shows "reads_addr (read_separator c first p)"
  unfolding reads_addr_def
proof (intro allI impI)
  fix s a r assume "read_separator c first p s = Some (a, r)"
  then consider "p s = Some (a, r)" | s' where "s = c # s'" "p s' = Some (a, r)"
    by (auto simp: read_separator_def read_given_char_def split: if_splits list.splits option.splits)
  then show "\<exists>q. s = q @ r \<and> list_all addr_char q"
  proof cases
    case 1
    with assms(1) show ?thesis by (rule reads_addrD)
  next
    case 2
    then obtain q where "s' = q @ r" "list_all addr_char q" using reads_addrD[OF assms(1)] by blast
    with 2 assms(2) show ?thesis by (intro exI[of _ "c # q"]) simp
  qed
qed

lemma addr_char_seps [simp]: "addr_char (CHR '':'')" "addr_char (CHR ''.'')"
  by (simp_all add: addr_char_def)

lemma reads_octets: "reads_addr (read_octets n first)"
proof (induction n arbitrary: first)
  case 0
  then show ?case by (simp add: reads_addr_def)
next
  case (Suc n)
  show ?case
    unfolding reads_addr_def
  proof (intro allI impI)
    fix s bs r assume "read_octets (Suc n) first s = Some (bs, r)"
    then obtain b s1 bs' where 1: "read_separator (CHR ''.'') first read_octet s = Some (b, s1)"
      and 2: "read_octets n False s1 = Some (bs', r)"
      by (auto split: option.splits)
    from reads_addrD[OF reads_separator[OF reads_octet] 1] reads_addrD[OF Suc.IH 2]
    show "\<exists>q. s = q @ r \<and> list_all addr_char q" by (force intro: exI[of _ "_ @ _"])
  qed
qed

lemma reads_ipv4: "reads_addr read_ipv4"
  using reads_octets[of 4 True] by (auto simp: reads_addr_def read_ipv4_def)

lemma reads_groups:
  "read_groups n first s = (gs, v, r) \<Longrightarrow> \<exists>q. s = q @ r \<and> list_all addr_char q"
proof (induction n first s arbitrary: gs v r rule: read_groups.induct)
  case (2 n first s)
  note rd = reads_addrD[OF reads_separator[OF reads_ipv4]] reads_addrD[OF reads_separator[OF reads_group]]
  from "2.prems" consider "r = s"
    | a where "read_separator (CHR '':'') first read_ipv4 s = Some (a, r)"
    | g s1 gs' where "(if 0 < n then read_separator (CHR '':'') first read_ipv4 s else None) = None"
        "read_separator (CHR '':'') first read_group s = Some (g, s1)"
        "read_groups n False s1 = (gs', v, r)"
    by (auto split: option.splits prod.splits if_splits)
  then show ?case
  proof cases
    case 1
    then show ?thesis by simp
  next
    case 2
    then show ?thesis by (intro rd(1)) simp_all
  next
    case 3
    from "2.IH"[OF 3(1,2) refl 3(3)] rd(2)[OF _ 3(2)] show ?thesis
      by (force intro: exI[of _ "_ @ _"])
  qed
qed simp

lemma reads_ipv6: "reads_addr read_ipv6"
  unfolding reads_addr_def
proof (intro allI impI)
  fix s a r assume a: "read_ipv6 s = Some (a, r)"
  obtain h v s1 where h: "read_groups 8 True s = (h, v, s1)" using prod_cases3 by blast
  from reads_groups[OF h] obtain q1 where q1: "s = q1 @ s1" "list_all addr_char q1" by blast
  show "\<exists>q. s = q @ r \<and> list_all addr_char q"
  proof (cases "length h = 8")
    case True
    with a h q1 show ?thesis by (auto simp: read_ipv6_def)
  next
    case False
    with a h obtain s2 where s2: "s1 = CHR '':'' # CHR '':'' # s2"
      and t: "\<exists>t w. read_groups (8 - (length h + 1)) True s2 = (t, w, r)"
      by (auto simp: read_ipv6_def read_given_char_def split: if_splits option.splits list.splits prod.splits)
    from t reads_groups obtain q2 where "s2 = q2 @ r" "list_all addr_char q2" by blast
    with q1 s2 show ?thesis by (intro exI[of _ "q1 @ ''::'' @ q2"]) simp
  qed
qed

lemma parse_ipv6_chars: "parse_ipv6 s = Some a \<Longrightarrow> list_all addr_char s"
  by (auto simp: parse_ipv6_def parse_with_def split: option.splits list.splits dest: reads_addrD[OF reads_ipv6])

text \<open>Addresses as text meet the contract of a codec.\<close>

interpretation ip_text: codec show_ip parse_ip "\<lambda>_. True"
  by unfold_locales simp

interpretation ipv6_text: codec show_ipv6 parse_ipv6 "\<lambda>_. True"
  by unfold_locales simp

interpretation socket_text: codec show_socket parse_socket flow_free
  by unfold_locales (rule parse_socket_show)

end
