(* ===== verification/Port_Mapping.thy ===== *)
theory Port_Mapping
  imports Std_Net
begin

text \<open>
  Port-forwarding specifications, \<open>crates/yggstack/src/mapping.rs\<close>: the parsers of
  \<open>local-tcp\<close>/\<open>local-udp\<close> and \<open>remote-tcp\<close>/\<open>remote-udp\<close> values.  Errors are the messages the
  code formats.  The properties are the round trip of every supported form, and which inputs
  a parser can accept at all.
\<close>

section \<open>Model\<close>

record TcpMapping =
  tcp_listen :: socket_addr
  tcp_target :: socket_addr

record UdpMapping =
  udp_listen :: socket_addr
  udp_target :: socket_addr

definition parse_host_port :: "string \<Rightarrow> (string \<times> u16) option" where
  "parse_host_port s =
     (case parse_socket s of
        Some sa \<Rightarrow> Some (show_ip (sock_ip sa), sock_port sa)
      | None \<Rightarrow>
          (case str_rfind (CHR '':'') s of
             None \<Rightarrow> None
           | Some colon \<Rightarrow>
               let host = trim_matches (\<lambda>c. c = CHR ''['' \<or> c = CHR '']'') (take colon s)
               in map_option (\<lambda>port. (host, port)) (parse_u16 (drop (colon + 1) s))))"

text \<open>The remote address of a local mapping and what precedes it.\<close>

definition parse_mapping_remote :: "string \<Rightarrow> string \<Rightarrow> string + (string \<times> string)" where
  "parse_mapping_remote s rest =
     (if ends_with '']'' rest then
        and_then (ok_or (str_rfind (CHR ''['') rest) (''unmatched '' @ quoted ''['' @ '' in '' @ quoted s))
          (\<lambda>bracket_start.
             Inr (slice (bracket_start + 1) (length rest - 1) rest,
                  trim_end_matches (\<lambda>c. c = CHR '':'') (take bracket_start rest)))
      else
        (case str_rfind (CHR '':'') rest of
           Some pos \<Rightarrow>
             Inr (drop (pos + 1) rest, trim_end_matches (\<lambda>c. c = CHR '':'') (take pos rest))
         | None \<Rightarrow> Inr (rest, [])))"

definition parse_mapping_local ::
  "string \<Rightarrow> string \<Rightarrow> u16 \<Rightarrow> string + (string option \<times> u16)" where
  "parse_mapping_local s rest remote_port =
     (if rest = [] then Inr (None, remote_port)
      else (case parse_host_port rest of
          Some (h, p) \<Rightarrow> if h = [] then Inr (None, p) else Inr (Some h, p)
        | None \<Rightarrow>
            and_then (ok_or (parse_u16 rest)
                (''invalid local spec '' @ quoted rest @ '' in '' @ quoted s))
              (\<lambda>p. Inr (None, p))))"

definition parse_mapping :: "string \<Rightarrow> string + (string option \<times> u16 \<times> string \<times> u16)" where
  "parse_mapping s =
     and_then (ok_or (str_rfind (CHR '':'') s) (''malformed mapping '' @ quoted s)) (\<lambda>rport_start.
     and_then (ok_or (parse_u16 (drop (rport_start + 1) s)) (''invalid port in '' @ quoted s))
       (\<lambda>remote_port.
     and_then (parse_mapping_remote s (take rport_start s)) (\<lambda>(remote_addr, rest).
       if remote_addr = [] then Inl (''missing remote address in '' @ quoted s)
       else if CHR '':'' \<notin> set remote_addr then
         Inl (''remote address '' @ quoted remote_addr @ '' must be an IPv6 address (Yggdrasil)'')
       else
         and_then (parse_mapping_local s rest remote_port) (\<lambda>(local_addr, local_port).
           Inr (local_addr, local_port, remote_addr, remote_port)))))"

definition parse_remote_mapping :: "string \<Rightarrow> string + (u16 \<times> string option \<times> u16)" where
  "parse_remote_mapping value =
     (case str_splitn 3 (CHR '':'') value of
        [p0] \<Rightarrow>
          and_then (ok_or (parse_u16 p0) (''invalid port '' @ quoted p0)) (\<lambda>port.
            Inr (port, None, port))
      | [p0, p1] \<Rightarrow>
          and_then (ok_or (parse_u16 p0) (''invalid port '' @ quoted p0)) (\<lambda>rport.
          and_then (ok_or (parse_u16 p1) (''invalid port '' @ quoted p1)) (\<lambda>lport.
            Inr (rport, None, lport)))
      | [p0, p1, p2] \<Rightarrow>
          and_then (ok_or (parse_u16 p0) (''invalid port '' @ quoted p0)) (\<lambda>rport.
            let rest = drop (length p0 + 1) value
            in and_then (ok_or (parse_host_port rest)
                   (''invalid local spec '' @ quoted rest @ '' in '' @ quoted value))
                 (\<lambda>(host, lport). Inr (rport, Some host, lport)))
      | _ \<Rightarrow> Inl (''too many tokens in '' @ quoted value))"

definition parse_addr_or :: "string option \<Rightarrow> ipv4 \<Rightarrow> string + ip_addr" where
  "parse_addr_or addr dflt =
     (case addr of
        Some a \<Rightarrow> ok_or (parse_ip a) (''invalid address '' @ quoted a)
      | None \<Rightarrow> Inr (V4 dflt))"

definition tcp_parse_local :: "string \<Rightarrow> string + TcpMapping" where
  "tcp_parse_local value =
     and_then (parse_mapping value) (\<lambda>(local_addr, local_port, remote_addr, remote_port).
     and_then (parse_addr_or local_addr v4_unspecified) (\<lambda>listen_ip.
     and_then (ok_or (parse_ipv6 remote_addr) (''invalid IPv6 '' @ quoted remote_addr))
       (\<lambda>remote_ip.
       Inr \<lparr>tcp_listen = sock_new listen_ip local_port,
            tcp_target = SockV6 remote_ip remote_port 0 0\<rparr>)))"

definition tcp_parse_remote :: "string \<Rightarrow> string + TcpMapping" where
  "tcp_parse_remote value =
     and_then (parse_remote_mapping value) (\<lambda>(remote_port, local_addr, local_port).
     and_then (parse_addr_or local_addr v4_localhost) (\<lambda>local_ip.
       Inr \<lparr>tcp_listen = sock_new (V4 v4_unspecified) remote_port,
            tcp_target = sock_new local_ip local_port\<rparr>))"

definition udp_parse_local :: "string \<Rightarrow> string + UdpMapping" where
  "udp_parse_local value =
     and_then (parse_mapping value) (\<lambda>(local_addr, local_port, remote_addr, remote_port).
     and_then (parse_addr_or local_addr v4_unspecified) (\<lambda>listen_ip.
     and_then (ok_or (parse_ipv6 remote_addr) (''invalid IPv6 '' @ quoted remote_addr))
       (\<lambda>remote_ip.
       Inr \<lparr>udp_listen = sock_new listen_ip local_port,
            udp_target = SockV6 remote_ip remote_port 0 0\<rparr>)))"

definition udp_parse_remote :: "string \<Rightarrow> string + UdpMapping" where
  "udp_parse_remote value =
     and_then (parse_remote_mapping value) (\<lambda>(remote_port, local_addr, local_port).
     and_then (parse_addr_or local_addr v4_localhost) (\<lambda>local_ip.
       Inr \<lparr>udp_listen = sock_new (V4 v4_unspecified) remote_port,
            udp_target = sock_new local_ip local_port\<rparr>))"

section \<open>Printing the documented forms\<close>

text \<open>The forms of the module's documentation, with the remote address in brackets: the local
  side is absent, a port, or an address with a port.\<close>

datatype local_side = Same_Port | Local_Port u16 | Local_Addr ip_addr u16

fun print_local :: "local_side \<Rightarrow> ipv6 \<Rightarrow> u16 \<Rightarrow> string" where
  "print_local Same_Port ra rp = ''['' @ show_ipv6 ra @ '']:'' @ show_nat (unat rp)"
| "print_local (Local_Port lp) ra rp =
     show_nat (unat lp) @ '':['' @ show_ipv6 ra @ '']:'' @ show_nat (unat rp)"
| "print_local (Local_Addr la lp) ra rp =
     show_socket (sock_new la lp) @ '':['' @ show_ipv6 ra @ '']:'' @ show_nat (unat rp)"

fun listen_of :: "local_side \<Rightarrow> u16 \<Rightarrow> socket_addr" where
  "listen_of Same_Port rp = SockV4 v4_unspecified rp"
| "listen_of (Local_Port lp) rp = SockV4 v4_unspecified lp"
| "listen_of (Local_Addr la lp) rp = sock_new la lp"

fun print_remote :: "u16 \<Rightarrow> local_side \<Rightarrow> string" where
  "print_remote rp Same_Port = show_nat (unat rp)"
| "print_remote rp (Local_Port lp) = show_nat (unat rp) @ '':'' @ show_nat (unat lp)"
| "print_remote rp (Local_Addr la lp) = show_nat (unat rp) @ '':'' @ show_socket (sock_new la lp)"

fun target_of :: "u16 \<Rightarrow> local_side \<Rightarrow> socket_addr" where
  "target_of rp Same_Port = SockV4 v4_localhost rp"
| "target_of rp (Local_Port lp) = SockV4 v4_localhost lp"
| "target_of rp (Local_Addr la lp) = sock_new la lp"

section \<open>Lemmas\<close>

lemma parse_mapping_split:
  assumes "CHR '':'' \<notin> set p"
  shows "parse_mapping (rest @ CHR '':'' # p) =
    and_then (ok_or (parse_u16 p) (''invalid port in '' @ quoted (rest @ CHR '':'' # p)))
       (\<lambda>remote_port.
     and_then (parse_mapping_remote (rest @ CHR '':'' # p) rest) (\<lambda>(remote_addr, rest').
       if remote_addr = [] then Inl (''missing remote address in '' @ quoted (rest @ CHR '':'' # p))
       else if CHR '':'' \<notin> set remote_addr then
         Inl (''remote address '' @ quoted remote_addr @ '' must be an IPv6 address (Yggdrasil)'')
       else
         and_then (parse_mapping_local (rest @ CHR '':'' # p) rest' remote_port)
           (\<lambda>(local_addr, local_port). Inr (local_addr, local_port, remote_addr, remote_port))))"
  using str_rfind_append[OF assms, of rest] by (simp add: parse_mapping_def)

lemma parse_mapping_remote_bracket:
  assumes "CHR ''['' \<notin> set a"
  shows "parse_mapping_remote s (pre @ CHR ''['' # a @ '']'') =
    Inr (a, trim_end_matches (\<lambda>c. c = CHR '':'') pre)"
proof -
  have "str_rfind (CHR ''['') (pre @ CHR ''['' # (a @ '']'')) = Some (length pre)"
    using assms by (intro str_rfind_append) simp
  moreover have "ends_with '']'' (pre @ CHR ''['' # a @ '']'')" by (auto simp: ends_with_iff)
  ultimately show ?thesis by (simp add: parse_mapping_remote_def slice_def)
qed

lemma show_ipv6_no_bracket: "CHR ''['' \<notin> set (show_ipv6 a)"
  using show_ipv6_chars[of a] by (auto simp: list_all_iff)

lemma show_nat_no_colon: "CHR '':'' \<notin> set (show_nat n)"
  by (rule show_nat_no_special) simp

lemma parse_mapping_bracketed:
  "parse_mapping (pre @ ''['' @ show_ipv6 ra @ '']:'' @ show_nat (unat rp)) =
   and_then (parse_mapping_local (pre @ ''['' @ show_ipv6 ra @ '']:'' @ show_nat (unat rp))
       (trim_end_matches (\<lambda>c. c = CHR '':'') pre) rp)
     (\<lambda>(local_addr, local_port). Inr (local_addr, local_port, show_ipv6 ra, rp))"
  using parse_mapping_split[OF show_nat_no_colon, of "pre @ CHR ''['' # show_ipv6 ra @ '']''" "unat rp"]
    parse_mapping_remote_bracket[OF show_ipv6_no_bracket, of _ pre ra]
  by (simp add: parse_u16_show_nat show_ipv6_colon)

lemma last_show_nat: "last (show_nat n) \<noteq> CHR '':''"
  using show_nat_props[of n] show_nat_no_colon[of n] by (metis last_in_set)

lemma sock_new_parts [simp]: "sock_ip (sock_new a p) = a" "sock_port (sock_new a p) = p"
  by (cases a; simp)+

lemma parse_host_port_socket: "parse_host_port (show_socket (sock_new a p)) = Some (show_ip a, p)"
  using parse_socket_show[OF flow_free_new, of a p] by (simp only: parse_host_port_def) simp

lemma parse_socket_number: "parse_socket (show_nat n) = None"
proof -
  have "dropWhile (is_radix_digit 10) (show_nat n) = []"
    using show_nat_props[of n] by (simp add: list_all_iff)
  then have "read_ipv4 (show_nat n) = None" by (intro read_ipv4_None) (simp del: dropWhile_eq_Nil_conv)
  then have "read_socket_v4 (show_nat n) = None" by (simp add: read_socket_v4_def)
  moreover have "hd (show_nat n) \<noteq> CHR ''[''"
    using show_nat_props[of n] show_nat_no_special[of "CHR ''[''" n]
    by (metis hd_in_set insertI1 insertI2 list.set(2))
  then have "read_socket_v6 (show_nat n) = None"
    by (cases "show_nat n") (auto simp: read_socket_v6_def read_given_char_def)
  ultimately show ?thesis by (simp add: parse_socket_def parse_with_def read_socket_def)
qed

lemma parse_host_port_number: "parse_host_port (show_nat n) = None"
  using parse_socket_number[of n] show_nat_no_colon[of n]
  by (simp add: parse_host_port_def str_rfind_None[THEN iffD2])

lemma last_show_socket: "last (show_socket (sock_new a p)) \<noteq> CHR '':''"
  using show_nat_props[of "unat p"] last_show_nat[of "unat p"] by (cases a) simp_all



lemma trim_colon: "s = [] \<or> last s \<noteq> CHR '':'' \<Longrightarrow>
  trim_end_matches (\<lambda>c. c = CHR '':'') (s @ '':'') = s"
  by (simp add: trim_end_matches_snoc trim_end_matches_id)

lemma parse_mapping_print:
  "parse_mapping (print_local ls ra rp) =
     Inr (case ls of Local_Addr la lp \<Rightarrow> Some (show_ip la) | _ \<Rightarrow> None,
          sock_port (listen_of ls rp), show_ipv6 ra, rp)"
proof (cases ls)
  case Same_Port
  then show ?thesis
    using parse_mapping_bracketed[of "[]" ra rp]
    by (simp add: trim_end_matches_id parse_mapping_local_def)
next
  case (Local_Port lp)
  then show ?thesis
    using parse_mapping_bracketed[of "show_nat (unat lp) @ '':''" ra rp] show_nat_props[of "unat lp"]
      trim_colon[of "show_nat (unat lp)"] last_show_nat[of "unat lp"]
    by (simp add: parse_mapping_local_def parse_host_port_number parse_u16_show_nat)
next
  case (Local_Addr la lp)
  then show ?thesis
    using parse_mapping_bracketed[of "show_socket (sock_new la lp) @ '':''" ra rp]
      trim_colon[of "show_socket (sock_new la lp)"] last_show_socket[of la lp]
    by (simp add: parse_mapping_local_def parse_host_port_socket)
qed

lemma listen_of_addr:
  "parse_addr_or (case ls of Local_Addr la lp \<Rightarrow> Some (show_ip la) | _ \<Rightarrow> None) v4_unspecified =
     Inr (sock_ip (listen_of ls rp)) \<and> sock_new (sock_ip (listen_of ls rp)) (sock_port (listen_of ls rp)) =
     listen_of ls rp"
  by (cases ls) (simp_all add: parse_addr_or_def)

lemma splitn_3:
  "str_splitn 3 c s = (case str_find c s of None \<Rightarrow> [s]
     | Some i \<Rightarrow> take i s # (case str_find c (drop (Suc i) s) of None \<Rightarrow> [drop (Suc i) s]
         | Some j \<Rightarrow> [take j (drop (Suc i) s), drop (Suc j) (drop (Suc i) s)]))"
  by (simp add: numeral_eq_Suc split: option.splits)

lemma show_socket_colon: "CHR '':'' \<in> set (show_socket (sock_new a p))"
  by (cases a) simp_all

lemma parse_remote_print:
  "parse_remote_mapping (print_remote rp ls) =
     Inr (rp, case ls of Local_Addr la lp \<Rightarrow> Some (show_ip la) | _ \<Rightarrow> None, sock_port (target_of rp ls))"
proof (cases ls)
  case Same_Port
  then show ?thesis
    using show_nat_no_colon[of "unat rp"]
    by (simp add: parse_remote_mapping_def splitn_3 str_find_None[THEN iffD2] parse_u16_show_nat)
next
  case (Local_Port lp)
  then show ?thesis
    using show_nat_no_colon[of "unat rp"] show_nat_no_colon[of "unat lp"]
    by (simp add: parse_remote_mapping_def splitn_3 str_find_None[THEN iffD2] str_find_append
        parse_u16_show_nat)
next
  case (Local_Addr la lp)
  obtain j where "str_find (CHR '':'') (show_socket (sock_new la lp)) = Some j"
    using show_socket_colon[of la lp] str_find_None[of "CHR '':''" "show_socket (sock_new la lp)"] by auto
  with Local_Addr show ?thesis
    using show_nat_no_colon[of "unat rp"]
    by (simp add: parse_remote_mapping_def splitn_3 str_find_append parse_u16_show_nat
        parse_host_port_socket)
qed

lemma target_of_addr:
  "parse_addr_or (case ls of Local_Addr la lp \<Rightarrow> Some (show_ip la) | _ \<Rightarrow> None) v4_localhost =
     Inr (sock_ip (target_of rp ls)) \<and> sock_new (sock_ip (target_of rp ls)) (sock_port (target_of rp ls)) =
     target_of rp ls"
  by (cases ls) (simp_all add: parse_addr_or_def)

text \<open>The unbracketed branch of \<open>parse_mapping\<close> takes the text after the last colon, which holds
  no colon.\<close>

lemma parse_mapping_remote_unbracketed:
  assumes "\<not> ends_with '']'' rest" and "parse_mapping_remote s rest = Inr (a, r)"
  shows "CHR '':'' \<notin> set a"
  using assms str_rfind_Some[of "CHR '':''" rest] str_rfind_None[of "CHR '':''" rest]
  by (auto simp: parse_mapping_remote_def split: option.splits)

lemma parse_mapping_shape:
  assumes "parse_mapping s = Inr (la, lp, ra, rp)"
  shows "\<exists>pre p. s = pre @ ''['' @ ra @ '']:'' @ p \<and> parse_u16 p = Some rp \<and> CHR ''['' \<notin> set ra"
proof -
  obtain i where i: "str_rfind (CHR '':'') s = Some i" and p: "parse_u16 (drop (i + 1) s) = Some rp"
    and r: "\<exists>r. parse_mapping_remote s (take i s) = Inr (ra, r)" and c: "CHR '':'' \<in> set ra"
    using assms by (auto simp: parse_mapping_def split: if_splits)
  from r obtain r where r: "parse_mapping_remote s (take i s) = Inr (ra, r)" by blast
  with c have e: "ends_with '']'' (take i s)" using parse_mapping_remote_unbracketed by blast
  then obtain q where q: "take i s = q @ '']''" by (auto simp: ends_with_iff)
  from r e obtain j where j: "str_rfind (CHR ''['') (take i s) = Some j"
    and ra: "ra = slice (j + 1) (length (take i s) - 1) (take i s)"
    by (auto simp: parse_mapping_remote_def)
  from str_rfind_Some[OF j] q have jq: "j < length q" "CHR ''['' \<notin> set (drop (Suc j) q)"
      "q = take j q @ CHR ''['' # drop (Suc j) q"
    by (auto simp: take_append drop_append nth_append less_Suc_eq split: if_splits)
  have "ra = drop (Suc j) q" unfolding ra q by (simp add: slice_def)
  with jq have "q = take j q @ ''['' @ ra" by simp
  with q have t: "take i s = take j q @ ''['' @ ra @ '']''" by (metis append.assoc)
  have "s = take i s @ CHR '':'' # drop (Suc i) s" using str_rfind_Some[OF i] by blast
  with t have "s = take j q @ ''['' @ ra @ '']:'' @ drop (i + 1) s" by simp
  with p jq \<open>ra = drop (Suc j) q\<close> show ?thesis by blast
qed

section \<open>Properties\<close>


text \<open>Every documented remote form (a port, two ports, or a port and a local address
  with its port, IPv6 in brackets included) is accepted by both parsers: the listener is the
  placeholder \<open>0.0.0.0\<close> with the remote port, and the target is the local address written,
  \<open>127.0.0.1\<close> when there is none.\<close>

theorem parse_remote_roundtrip:
  "tcp_parse_remote (print_remote rp ls) =
     Inr \<lparr>tcp_listen = SockV4 v4_unspecified rp, tcp_target = target_of rp ls\<rparr> \<and>
   udp_parse_remote (print_remote rp ls) =
     Inr \<lparr>udp_listen = SockV4 v4_unspecified rp, udp_target = target_of rp ls\<rparr>"
  using target_of_addr[of ls rp]
  by (simp add: tcp_parse_remote_def udp_parse_remote_def parse_remote_print)

text \<open>The local parser accepts nothing but specifications that end in a bracketed IPv6
  address, a colon and a port: the target is that address and port.  In particular a
  specification whose remote address is not in brackets is always rejected, although the
  module documentation lists that form and the code has a branch for it.\<close>

theorem parse_local_needs_brackets:
  assumes "tcp_parse_local s = Inr m"
  shows "\<exists>pre a p ip port. s = pre @ ''['' @ a @ '']:'' @ p \<and> parse_ipv6 a = Some ip \<and>
    parse_u16 p = Some port \<and> tcp_target m = SockV6 ip port 0 0"
proof -
  from assms obtain la lp ra rp ip where "parse_mapping s = Inr (la, lp, ra, rp)"
    and "parse_ipv6 ra = Some ip" and "tcp_target m = SockV6 ip rp 0 0"
    by (auto simp: tcp_parse_local_def)
  with parse_mapping_shape[of s la lp ra rp] show ?thesis by blast
qed

theorem parse_local_needs_brackets_witness:
  "\<exists>pre a p ip port. print_local (Local_Port 8080) 1 80 = pre @ ''['' @ a @ '']:'' @ p \<and>
     parse_ipv6 a = Some ip \<and> parse_u16 p = Some port \<and> SockV6 1 80 0 0 = SockV6 ip port 0 0"
proof -
  have "tcp_parse_local (print_local (Local_Port 8080) 1 80) =
      Inr \<lparr>tcp_listen = SockV4 v4_unspecified 8080, tcp_target = SockV6 1 80 0 0\<rparr>"
    by (simp only: tcp_parse_local_def parse_mapping_print)
      (simp add: parse_addr_or_def del: print_local.simps)
  from parse_local_needs_brackets[OF this] show ?thesis by simp
qed

end
