(* ===== verification/Stats.thy ===== *)
theory Stats
  imports Hash_Map Std_Text "HOL-Library.List_Lexorder" "HOL-Library.Char_ord"
    "HOL-Library.Product_Lexorder"
begin

text \<open>
  Listener statistics, \<open>crates/yggstack/src/stats.rs\<close>.  An \<open>Arc<ListenerStats>\<close> is an address
  into a heap of counters: connection tasks keep counting on an entry after the registry has
  dropped it, and a key registered again is a new entry.  Each atomic update is one step, so an
  interleaving of tasks is a sequence of steps.  \<open>serde_json::to_string\<close> is a parameter of
  \<open>to_json\<close>.  The locale \<open>gauge\<close> is the contract connection guards rely on: a counter that goes
  up and down and is read as the number of guards alive.
\<close>

section \<open>Model\<close>

definition SOCKS_STATS_KEY :: string where
  "SOCKS_STATS_KEY = ''socks''"

definition HTTP_STATS_KEY :: string where
  "HTTP_STATS_KEY = ''http''"

record ListenerStats =
  st_key :: string
  st_kind :: string
  st_listen :: string
  st_target :: string
  active :: i64
  total :: u64
  rx_bytes :: u64
  tx_bytes :: u64

definition conn_opened :: "ListenerStats \<Rightarrow> ListenerStats" where
  "conn_opened s = s\<lparr>active := active s + 1, total := total s + 1\<rparr>"

definition conn_closed :: "ListenerStats \<Rightarrow> ListenerStats" where
  "conn_closed s = (if 0 < sint (active s) then s\<lparr>active := active s - 1\<rparr> else s)"

definition stats_kind_order :: "string \<Rightarrow> nat" where
  "stats_kind_order kind =
     (if kind = ''socks'' then 0
      else if kind = ''http'' then 1
      else if kind = ''local-tcp'' then 2
      else if kind = ''local-udp'' then 3
      else if kind = ''remote-tcp'' then 4
      else if kind = ''remote-udp'' then 5
      else 6)"

type_synonym stats_ref = nat

text \<open>The registry and the heap its entries live in.\<close>

record ListenerStatsRegistry =
  inner :: "(string, stats_ref) hash_map"
  heap :: "ListenerStats list"

definition new_registry :: ListenerStatsRegistry where
  "new_registry = \<lparr>inner = hm_new, heap = []\<rparr>"

definition zero_stats :: "string \<Rightarrow> string \<Rightarrow> string \<Rightarrow> string \<Rightarrow> ListenerStats" where
  "zero_stats key kind listen target =
     \<lparr>st_key = key, st_kind = kind, st_listen = listen, st_target = target,
      active = 0, total = 0, rx_bytes = 0, tx_bytes = 0\<rparr>"

definition entry ::
  "string \<Rightarrow> string \<Rightarrow> string \<Rightarrow> string \<Rightarrow> ListenerStatsRegistry \<Rightarrow>
     stats_ref \<times> ListenerStatsRegistry" where
  "entry key kind listen target r =
     (case hm_get (inner r) key of
        Some a \<Rightarrow> (a, r)
      | None \<Rightarrow>
          (length (heap r),
           r\<lparr>inner := hm_insert key (length (heap r)) (inner r),
             heap := heap r @ [zero_stats key kind listen target]\<rparr>))"

definition registry_remove :: "string \<Rightarrow> ListenerStatsRegistry \<Rightarrow> ListenerStatsRegistry" where
  "registry_remove key r = r\<lparr>inner := hm_remove key (inner r)\<rparr>"

definition registry_clear :: "ListenerStatsRegistry \<Rightarrow> ListenerStatsRegistry" where
  "registry_clear r = r\<lparr>inner := hm_new\<rparr>"

definition json_or_empty :: "'e + string \<Rightarrow> string" where
  "json_or_empty r = (case r of Inr s \<Rightarrow> s | Inl _ \<Rightarrow> [CHR 0x22, CHR 0x22])"

definition dquoted :: "string \<Rightarrow> string" where
  "dquoted s = CHR 0x22 # s @ [CHR 0x22]"

definition json_item :: "(string \<Rightarrow> 'e + string) \<Rightarrow> ListenerStats \<Rightarrow> string" where
  "json_item to_string s =
     ''{'' @ dquoted ''Key'' @ '':'' @ json_or_empty (to_string (st_key s)) @
     '','' @ dquoted ''Kind'' @ '':'' @ dquoted (st_kind s) @
     '','' @ dquoted ''Listen'' @ '':'' @ json_or_empty (to_string (st_listen s)) @
     '','' @ dquoted ''Target'' @ '':'' @ json_or_empty (to_string (st_target s)) @
     '','' @ dquoted ''ActiveConns'' @ '':'' @ show_nat (nat (max (sint (active s)) 0)) @
     '','' @ dquoted ''TotalConns'' @ '':'' @ show_nat (unat (total s)) @
     '','' @ dquoted ''RXBytes'' @ '':'' @ show_nat (unat (rx_bytes s)) @
     '','' @ dquoted ''TXBytes'' @ '':'' @ show_nat (unat (tx_bytes s)) @ ''}''"

definition sort_fields :: "ListenerStats \<Rightarrow> nat \<times> string \<times> string" where
  "sort_fields s = (stats_kind_order (st_kind s), st_listen s, st_target s)"

text \<open>\<open>sort_by\<close> is a stable sort by kind order, then listen address, then target, each string
  compared byte by byte.\<close>

definition listed :: "ListenerStatsRegistry \<Rightarrow> ListenerStats list" where
  "listed r = map (\<lambda>a. heap r ! a) (hm_values (inner r))"

definition to_json :: "(string \<Rightarrow> 'e + string) \<Rightarrow> ListenerStatsRegistry \<Rightarrow> string" where
  "to_json to_string r =
     ''['' @ join '','' (map (json_item to_string) (sort_key sort_fields (listed r))) @ '']''"

definition upd_stats ::
  "stats_ref \<Rightarrow> (ListenerStats \<Rightarrow> ListenerStats) \<Rightarrow> ListenerStatsRegistry \<Rightarrow> ListenerStatsRegistry" where
  "upd_stats a f r = r\<lparr>heap := (heap r)[a := f (heap r ! a)]\<rparr>"

text \<open>\<open>ConnGuard\<close>: \<open>new\<close> counts the connection, \<open>drop\<close> takes the reference out and uncounts it.\<close>

record ConnGuard =
  guard_stats :: "stats_ref option"

definition guard_new :: "stats_ref \<Rightarrow> ListenerStatsRegistry \<Rightarrow> ConnGuard \<times> ListenerStatsRegistry" where
  "guard_new a r = (\<lparr>guard_stats = Some a\<rparr>, upd_stats a conn_opened r)"

definition guard_drop :: "ConnGuard \<Rightarrow> ListenerStatsRegistry \<Rightarrow> ConnGuard \<times> ListenerStatsRegistry" where
  "guard_drop g r =
     (case guard_stats g of
        Some a \<Rightarrow> (g\<lparr>guard_stats := None\<rparr>, upd_stats a conn_closed r)
      | None \<Rightarrow> (g, r))"

datatype Dir = Rx | Tx

definition count_bytes :: "Dir \<Rightarrow> nat \<Rightarrow> ListenerStats \<Rightarrow> ListenerStats" where
  "count_bytes dir n s =
     (case dir of
        Rx \<Rightarrow> s\<lparr>rx_bytes := rx_bytes s + of_nat n\<rparr>
      | Tx \<Rightarrow> s\<lparr>tx_bytes := tx_bytes s + of_nat n\<rparr>)"

text \<open>
  \<open>counting_copy\<close> against an environment: each step gives what \<open>read\<close> returned (an error, or the
  bytes read, none at end of stream) and how \<open>write_all\<close> of those bytes went (complete, or an
  error after a prefix).  When the list runs out the copy is still waiting, and \<open>None\<close> is its
  result so far.
\<close>

datatype write_result = Wrote | Write_Failed nat string

type_synonym copy_step = "(string + bytes) \<times> write_result"

fun counting_copy ::
  "copy_step list \<Rightarrow> Dir \<Rightarrow> stats_ref \<Rightarrow> u64 \<Rightarrow> ListenerStatsRegistry \<Rightarrow>
     bytes \<times> ListenerStatsRegistry \<times> (string + u64) option" where
  "counting_copy [] dir a tot r = ([], r, None)"
| "counting_copy ((rd, wr) # steps) dir a tot r =
     (case rd of
        Inl e \<Rightarrow> ([], r, Some (Inl e))
      | Inr chunk \<Rightarrow>
          if chunk = [] then ([], r, Some (Inr tot))
          else
            (case wr of
               Write_Failed k e \<Rightarrow> (take k chunk, r, Some (Inl e))
             | Wrote \<Rightarrow>
                 let r1 = upd_stats a (count_bytes dir (length chunk)) r;
                     (out, r2, res) = counting_copy steps dir a (tot + of_nat (length chunk)) r1
                 in (chunk @ out, r2, res)))"

section \<open>Gauges\<close>

locale gauge =
  fixes level :: "'s \<Rightarrow> nat" and up down :: "'s \<Rightarrow> 's" and valid :: "'s \<Rightarrow> bool" and cap :: nat
  assumes up_level: "valid s \<Longrightarrow> Suc (level s) < cap \<Longrightarrow> valid (up s) \<and> level (up s) = Suc (level s)"
    and down_level: "valid s \<Longrightarrow> valid (down s) \<and> level (down s) = level s - 1"
begin

lemma up_down: "valid s \<Longrightarrow> Suc (level s) < cap \<Longrightarrow> level (down (up s)) = level s"
  using up_level down_level by fastforce

text \<open>Ups and downs in any order that never goes below zero leave the difference.\<close>

lemma level_after:
  assumes "valid s" and "level s + length (filter (\<lambda>b. b) bs) < cap"
    and "\<forall>k\<le>length bs. length (filter Not (take k bs)) \<le> level s + length (filter (\<lambda>b. b) (take k bs))"
  shows "valid (foldl (\<lambda>s b. if b then up s else down s) s bs) \<and>
    level (foldl (\<lambda>s b. if b then up s else down s) s bs) + length (filter Not bs) =
      level s + length (filter (\<lambda>b. b) bs)"
  using assms
proof (induction bs rule: rev_induct)
  case (snoc b bs)
  have pre: "\<forall>k\<le>length bs. length (filter Not (take k bs)) \<le> level s + length (filter (\<lambda>b. b) (take k bs))"
  proof (intro allI impI)
    fix k assume "k \<le> length bs"
    with snoc.prems(3)[rule_format, of k] show
      "length (filter Not (take k bs)) \<le> level s + length (filter (\<lambda>b. b) (take k bs))" by simp
  qed
  let ?t = "foldl (\<lambda>s b. if b then up s else down s) s bs"
  have ih: "valid ?t" "level ?t + length (filter Not bs) = level s + length (filter (\<lambda>b. b) bs)"
    using snoc.IH[OF snoc.prems(1) _ pre] snoc.prems(2) by auto
  show ?case
  proof (cases b)
    case True
    with ih snoc.prems(2) up_level[of ?t] show ?thesis by auto
  next
    case False
    with snoc.prems(3)[rule_format, of "length (bs @ [b])"]
    have "Suc (length (filter Not bs)) \<le> level s + length (filter (\<lambda>b. b) bs)" by simp
    with False ih down_level[of ?t] show ?thesis by auto
  qed
qed simp

end

lemma sint_in_range:
  fixes w :: i64 and k :: int
  assumes "- (2 ^ 63) \<le> sint w + k" and "sint w + k < 2 ^ 63"
  shows "sint (w + word_of_int k) = sint w + k"
proof -
  have "w + word_of_int k = word_of_int (sint w + k)" by simp
  then have "sint (w + word_of_int k) = signed_take_bit (LENGTH(64) - 1) (sint w + k)"
    by (simp only: sint_sbintrunc')
  with assms show ?thesis by (simp add: signed_take_bit_int_eq_self)
qed

lemma sint_bounds: "- (2 ^ 63) \<le> sint (w :: i64)" "sint (w :: i64) < 2 ^ 63"
  using sint_greater_eq[of w] sint_less[of w] by simp_all

definition gauge_level :: "ListenerStats \<Rightarrow> nat" where
  "gauge_level s = nat (sint (active s))"

definition gauge_valid :: "ListenerStats \<Rightarrow> bool" where
  "gauge_valid s \<longleftrightarrow> 0 \<le> sint (active s)"

interpretation conns: gauge gauge_level conn_opened conn_closed gauge_valid "2 ^ 63"
proof unfold_locales
  fix s
  assume v: "gauge_valid s"
  show "gauge_valid (conn_closed s) \<and> gauge_level (conn_closed s) = gauge_level s - 1"
    using v sint_in_range[of "active s" "-1"] sint_bounds[of "active s"]
    by (auto simp: gauge_valid_def gauge_level_def conn_closed_def)
  assume "Suc (gauge_level s) < 2 ^ 63"
  with v have "sint (active s) + 1 < 2 ^ 63" by (simp add: gauge_valid_def gauge_level_def)
  with v sint_in_range[of "active s" 1]
  show "gauge_valid (conn_opened s) \<and> gauge_level (conn_opened s) = Suc (gauge_level s)"
    by (auto simp: gauge_valid_def gauge_level_def conn_opened_def)
qed

section \<open>Connection guards\<close>

text \<open>
  The tasks of a running node: they register and drop entries, open and close connections, and
  count bytes, in any order.  The state holds the guards alive, the registry, and the entries
  connections were opened on (a history that no step reads).  A guard is dropped once, as
  ownership has it.  The bound on guards alive is the address space: a guard occupies memory.
\<close>

type_synonym guard_state = "ConnGuard list \<times> ListenerStatsRegistry \<times> stats_ref list"

inductive guard_step :: "guard_state \<Rightarrow> guard_state \<Rightarrow> bool" where
  Open: "a < length (heap r) \<Longrightarrow> Suc (length gs) < 2 ^ 63 \<Longrightarrow> guard_new a r = (g, r') \<Longrightarrow>
    guard_step (gs, r, h) (gs @ [g], r', a # h)"
| Drop: "guard_drop g r = (g', r') \<Longrightarrow>
    guard_step (xs @ g # ys, r, h) (xs @ ys, r', h)"
| Entry: "entry key kind listen target r = (a, r') \<Longrightarrow> guard_step (gs, r, h) (gs, r', h)"
| Remove: "guard_step (gs, r, h) (gs, registry_remove key r, h)"
| Clear: "guard_step (gs, r, h) (gs, registry_clear r, h)"
| Count: "guard_step (gs, r, h) (gs, upd_stats a (count_bytes dir n) r, h)"

inductive_cases guard_stepE: "guard_step s s'"

definition live :: "stats_ref \<Rightarrow> ConnGuard list \<Rightarrow> nat" where
  "live a gs = length (filter (\<lambda>g. guard_stats g = Some a) gs)"

definition guards_ok :: "guard_state \<Rightarrow> bool" where
  "guards_ok s \<longleftrightarrow> (case s of (gs, r, h) \<Rightarrow>
     (\<forall>a<length (heap r). gauge_valid (heap r ! a) \<and> gauge_level (heap r ! a) = live a gs \<and>
        total (heap r ! a) = of_nat (count_list h a)) \<and>
     (\<forall>a. length (heap r) \<le> a \<longrightarrow> live a gs = 0 \<and> count_list h a = 0))"

lemma live_simps [simp]:
  "live a [] = 0"
  "live a (xs @ ys) = live a xs + live a ys"
  "live a (g # gs) = (if guard_stats g = Some a then 1 else 0) + live a gs"
  by (simp_all add: live_def)

lemma live_le: "live a gs \<le> length gs"
  by (simp add: live_def)

lemma upd_stats_nth:
  "a < length (heap r) \<Longrightarrow>
   heap (upd_stats b f r) ! a = (if a = b then f (heap r ! a) else heap r ! a)"
  by (simp add: upd_stats_def nth_list_update)

lemma upd_stats_length [simp]: "length (heap (upd_stats b f r)) = length (heap r)"
  "inner (upd_stats b f r) = inner r"
  by (simp_all add: upd_stats_def)

lemma gauge_other_fields [simp]:
  "total (conn_opened s) = total s + 1" "total (conn_closed s) = total s"
  "active (count_bytes d n s) = active s" "total (count_bytes d n s) = total s"
  by (simp_all add: conn_opened_def conn_closed_def count_bytes_def split: Dir.split)

lemma guards_ok_open:
  assumes "guards_ok (gs, r, h)" and "a < length (heap r)" and "Suc (length gs) < 2 ^ 63"
  shows "guards_ok (gs @ [\<lparr>guard_stats = Some a\<rparr>], upd_stats a conn_opened r, a # h)"
  using assms conns.up_level[of "heap r ! a"] live_le[of a gs]
  by (auto simp: guards_ok_def upd_stats_nth)

lemma guards_ok_drop:
  assumes ok: "guards_ok (xs @ g # ys, r, h)" and d: "guard_drop g r = (g', r')"
  shows "guards_ok (xs @ ys, r', h)"
proof (cases "guard_stats g")
  case None
  with d ok show ?thesis by (auto simp: guard_drop_def guards_ok_def)
next
  case (Some a)
  with d have "r' = upd_stats a conn_closed r" by (auto simp: guard_drop_def)
  moreover have "live a (xs @ g # ys) \<noteq> 0" using Some by simp
  then have "a < length (heap r)"
    using ok unfolding guards_ok_def prod.case by (metis not_le)
  ultimately show ?thesis
    using ok Some conns.down_level[of "heap r ! a"] by (auto simp: guards_ok_def upd_stats_nth)
qed

lemma guards_ok_entry:
  assumes "guards_ok (gs, r, h)" and "entry key kind listen target r = (a, r')"
  shows "guards_ok (gs, r', h)"
  using assms
  by (auto simp: entry_def guards_ok_def nth_append zero_stats_def gauge_valid_def gauge_level_def
      not_less split: option.splits)

lemma guards_ok_step: "guard_step s s' \<Longrightarrow> guards_ok s \<Longrightarrow> guards_ok s'"
proof (induction rule: guard_step.induct)
  case (Open a r gs g r' h)
  then show ?case using guards_ok_open by (auto simp: guard_new_def)
next
  case (Drop g r g' r' xs ys h)
  then show ?case using guards_ok_drop by blast
next
  case (Entry key kind listen target r a r' gs h)
  then show ?case using guards_ok_entry by blast
next
  case (Count gs r h a dir n)
  then show ?case by (auto simp: guards_ok_def upd_stats_nth gauge_valid_def gauge_level_def)
qed (simp_all add: guards_ok_def registry_remove_def registry_clear_def)

lemma guards_ok_reachable: "guard_step\<^sup>*\<^sup>* s s' \<Longrightarrow> guards_ok s \<Longrightarrow> guards_ok s'"
  by (induction rule: rtranclp_induct) (auto dest: guards_ok_step)

lemma guards_ok_new: "guards_ok ([], new_registry, [])"
  by (simp add: guards_ok_def new_registry_def)

section \<open>Copying and listing\<close>

lemma upd_stats_upd_stats:
  "upd_stats a f (upd_stats a g r) = upd_stats a (f \<circ> g) r"
  by (cases "a < length (heap r)") (simp_all add: upd_stats_def list_update_beyond)

lemma upd_stats_cong:
  "(\<And>s. f s = g s) \<Longrightarrow> upd_stats a f r = upd_stats a g r"
  by (simp add: upd_stats_def)

lemma count_bytes_add: "count_bytes d m (count_bytes d n s) = count_bytes d (n + m) s"
  by (cases d) (simp_all add: count_bytes_def)

lemma count_bytes_0: "count_bytes d 0 s = s"
  by (cases d) (simp_all add: count_bytes_def)

text \<open>The chunks the copy has passed on when it stops: those before the first step that ends it.\<close>

fun passed :: "copy_step list \<Rightarrow> bytes" where
  "passed ((Inr chunk, Wrote) # steps) = (if chunk = [] then [] else chunk @ passed steps)"
| "passed _ = []"

fun partial_write :: "copy_step list \<Rightarrow> bytes" where
  "partial_write ((Inr chunk, Wrote) # steps) = (if chunk = [] then [] else partial_write steps)"
| "partial_write ((Inr chunk, Write_Failed k e) # steps) = take k chunk"
| "partial_write _ = []"

lemma upd_stats_id: "upd_stats a (count_bytes d 0) r = r"
  by (simp add: upd_stats_def count_bytes_0)

lemma counting_copy_counts:
  "counting_copy steps dir a tot r = (out, r', res) \<Longrightarrow>
   out = passed steps @ partial_write steps \<and>
   r' = upd_stats a (count_bytes dir (length (passed steps))) r \<and>
   (\<forall>n. res = Some (Inr n) \<longrightarrow> n = tot + of_nat (length (passed steps)) \<and> partial_write steps = [])"
proof (induction steps arbitrary: tot r out r' res)
  case Nil
  then show ?case by (simp add: upd_stats_id)
next
  case (Cons st steps)
  obtain rd wr where st: "st = (rd, wr)" by fastforce
  show ?case
  proof (cases rd)
    case (Inl e)
    with Cons.prems st show ?thesis by (auto simp: upd_stats_id)
  next
    case (Inr chunk)
    show ?thesis
    proof (cases "chunk = [] \<or> wr \<noteq> Wrote")
      case True
      with Cons.prems st Inr show ?thesis
        by (cases wr) (auto simp: upd_stats_id split: if_splits)
    next
      case False
      let ?r = "upd_stats a (count_bytes dir (length chunk)) r"
      obtain out' r1 res' where rec: "counting_copy steps dir a (tot + of_nat (length chunk)) ?r = (out', r1, res')"
        using prod_cases3 by blast
      from False Cons.prems st Inr rec have o: "out = chunk @ out'" "r' = r1" "res = res'" by auto
      have u: "upd_stats a (count_bytes dir (length (passed steps))) ?r =
          upd_stats a (count_bytes dir (length chunk + length (passed steps))) r"
        by (subst upd_stats_upd_stats) (rule upd_stats_cong, simp add: count_bytes_add)
      have p: "passed (st # steps) = chunk @ passed steps"
        "partial_write (st # steps) = partial_write steps" using False st Inr by auto
      show ?thesis unfolding p o
        using Cons.IH[OF rec] u by (simp add: add.assoc)
    qed
  qed
qed

lemma sort_key_perm_eq:
  assumes "mset xs = mset ys" and "distinct (map f xs)"
  shows "sort_key f xs = sort_key f ys"
  using assms by (intro sort_key_inj_key_eq) (simp_all add: distinct_map)

lemma listed_perm:
  "mset (hm_values (inner r)) = mset (hm_values (inner r')) \<Longrightarrow> heap r = heap r' \<Longrightarrow>
   mset (listed r) = mset (listed r')"
  by (simp add: listed_def)

section \<open>Properties\<close>

text \<open>C9. However connection tasks interleave with registrations, removals, clears and
  byte counting, every entry's \<open>active\<close> gauge equals the number of connection guards alive on
  it, the gauge never goes negative (the clamp in \<open>conn_closed\<close> is never needed), and \<open>total\<close>
  is the number of connections ever opened on that entry, modulo \<open>2 ^ 64\<close>.\<close>

theorem active_counts_live_guards:
  assumes "guard_step\<^sup>*\<^sup>* ([], new_registry, []) (gs, r, h)" and "a < length (heap r)"
  shows "sint (active (heap r ! a)) = int (live a gs) \<and>
    total (heap r ! a) = of_nat (count_list h a)"
  using guards_ok_reachable[OF assms(1) guards_ok_new] assms(2)
  by (auto simp: guards_ok_def gauge_level_def gauge_valid_def)

theorem active_counts_live_guards_witness:
  "\<exists>gs r h. guard_step\<^sup>*\<^sup>* ([], new_registry, []) (gs, r, h) \<and> 0 < length (heap r) \<and>
     sint (active (heap r ! 0)) = 1 \<and> inner r = hm_new"
proof -
  obtain r1 where r1: "entry ''k'' ''socks'' ''l'' ''t'' new_registry = (0, r1)" and l: "length (heap r1) = 1"
    by (simp add: entry_def new_registry_def)
  let ?g = "\<lparr>guard_stats = Some 0\<rparr>"
  let ?r2 = "upd_stats 0 conn_opened r1"
  have "guard_step ([], new_registry, []) ([], r1, [])" using r1 by (rule guard_step.Entry)
  moreover have "guard_step ([], r1, []) ([] @ [?g], ?r2, [0])"
    by (rule guard_step.Open) (simp_all add: l guard_new_def)
  moreover have "guard_step ([?g], ?r2, [0]) ([?g], registry_clear ?r2, [0])" by (rule guard_step.Clear)
  ultimately have reach: "guard_step\<^sup>*\<^sup>* ([], new_registry, []) ([?g], registry_clear ?r2, [0])"
    by (simp add: rtranclp.rtrancl_into_rtrancl)
  have pos: "0 < length (heap (registry_clear ?r2))" by (simp add: registry_clear_def l)
  from active_counts_live_guards[OF reach pos]
  have "sint (active (heap (registry_clear ?r2) ! 0)) = 1" by simp
  moreover have "inner (registry_clear ?r2) = hm_new" by (simp add: registry_clear_def)
  ultimately show ?thesis using reach pos by blast
qed

text \<open>\<open>counting_copy\<close> passes on exactly the bytes it read, in order, up to the end of
  the stream or the first failure; the direction's counter grows by exactly the bytes of the
  completed writes (a failed write is not counted, though a prefix of it may have gone out),
  no other entry and no other counter changes, and on success the result is that same count.\<close>

theorem counting_copy_exact:
  "\<exists>res. counting_copy steps dir a 0 r =
     (passed steps @ partial_write steps, upd_stats a (count_bytes dir (length (passed steps))) r, res) \<and>
     (case res of Some (Inr n) \<Rightarrow> n = of_nat (length (passed steps)) \<and> partial_write steps = []
      | _ \<Rightarrow> True)"
proof -
  obtain out r' res where e: "counting_copy steps dir a 0 r = (out, r', res)" using prod_cases3 by blast
  from counting_copy_counts[OF e] e show ?thesis
    by (auto split: option.split sum.split)
qed

text \<open>The rendered list is ordered by kind, then listen address, then target, holds
  every registered entry exactly once, and does not depend on the iteration order of the hash
  map when no two entries share all three fields.\<close>

theorem json_order_independent:
  "sorted (map sort_fields (sort_key sort_fields (listed r))) \<and>
   mset (sort_key sort_fields (listed r)) = mset (listed r) \<and>
   (mset (hm_values (inner r)) = mset (hm_values (inner r')) \<longrightarrow> heap r = heap r' \<longrightarrow>
      distinct (map sort_fields (listed r)) \<longrightarrow> to_json ts r = to_json ts r')"
proof -
  have "to_json ts r = to_json ts r'" if "mset (listed r) = mset (listed r')"
      "distinct (map sort_fields (listed r))"
    using sort_key_perm_eq[OF that] by (simp only: to_json_def)
  then show ?thesis using listed_perm[of r r'] by simp
qed

definition demo_registry :: "bool \<Rightarrow> ListenerStatsRegistry" where
  "demo_registry swap =
     \<lparr>inner = (if swap then [(''b'', 1), (''a'', 0)] else [(''a'', 0), (''b'', 1)]),
      heap = [zero_stats ''a'' ''local-tcp'' ''l'' ''t'', zero_stats ''b'' ''socks'' ''l'' []]\<rparr>"

theorem json_order_independent_witness:
  "inner (demo_registry False) \<noteq> inner (demo_registry True) \<and>
   to_json (Inr :: string \<Rightarrow> unit + string) (demo_registry False) =
     to_json (Inr :: string \<Rightarrow> unit + string) (demo_registry True)"
proof -
  have "mset (hm_values (inner (demo_registry False))) = mset (hm_values (inner (demo_registry True)))"
    by (simp add: demo_registry_def hm_values_def)
  moreover have "heap (demo_registry False) = heap (demo_registry True)"
    by (simp add: demo_registry_def)
  moreover have "distinct (map sort_fields (listed (demo_registry False)))"
    by (simp add: demo_registry_def hm_values_def listed_def sort_fields_def zero_stats_def
        stats_kind_order_def)
  moreover have "inner (demo_registry False) \<noteq> inner (demo_registry True)"
    by (simp add: demo_registry_def)
  ultimately show ?thesis
    using json_order_independent[of "demo_registry False" "demo_registry True" "Inr :: string \<Rightarrow> unit + string"] by blast
qed

text \<open>Registering a key twice yields the same entry and keeps its counters; after the
  entry is removed or the registry cleared, the key gets a fresh entry with all counters zero,
  and the old entry keeps its counters for the tasks that still hold it.\<close>

theorem entry_shares_until_removed:
  assumes "entry k kind l t r = (a, r1)" and "hm_get (inner r) k = None"
  shows "entry k kind' l' t' r1 = (a, r1) \<and> heap r1 ! a = zero_stats k kind l t \<and>
    (\<forall>r2 \<in> {registry_remove k r1, registry_clear r1}.
       case entry k kind' l' t' r2 of (b, r3) \<Rightarrow>
         b \<noteq> a \<and> heap r3 ! b = zero_stats k kind' l' t' \<and> heap r3 ! a = heap r1 ! a)"
  using assms by (auto simp: entry_def registry_remove_def registry_clear_def nth_append)

theorem entry_shares_until_removed_witness:
  "\<exists>a r1. entry ''k'' ''socks'' ''l'' ''t'' new_registry = (a, r1) \<and>
     entry ''k'' ''http'' [] [] r1 = (a, r1)"
proof -
  obtain a r1 where e: "entry ''k'' ''socks'' ''l'' ''t'' new_registry = (a, r1)" by fastforce
  have "hm_get (inner new_registry) ''k'' = None" by (simp add: new_registry_def)
  from entry_shares_until_removed[OF e this, of "''http''" "[]" "[]"] e show ?thesis by blast
qed

end
