(* ===== verification/Dns_Wire.thy ===== *)
theory Dns_Wire
  imports Std_Net
begin

text \<open>
  The DNS wire format of \<open>crates/yggstack/src/resolver.rs\<close>: \<open>build_dns_query\<close>, \<open>skip_dns_name\<close>
  and \<open>parse_dns_aaaa_response\<close>.  Reading a byte past the end of a slice panics in Rust; here it
  is the value \<open>Inl Index_Out_Of_Bounds\<close>, so that absence of panics is a theorem.  An encoder of
  DNS responses, written from the format and not from the parser, states what the parser must
  return.
\<close>

section \<open>Model\<close>

datatype panic = Index_Out_Of_Bounds

type_synonym 'a checked = "panic + 'a"

definition byte_at :: "bytes \<Rightarrow> nat \<Rightarrow> u8 checked" where
  "byte_at buf i = (if i < length buf then Inr (buf ! i) else Inl Index_Out_Of_Bounds)"

definition u16_at :: "bytes \<Rightarrow> nat \<Rightarrow> u16 checked" where
  "u16_at buf i =
     and_then (byte_at buf i) (\<lambda>a. and_then (byte_at buf (i + 1)) (\<lambda>b.
       Inr (u16_from_be_bytes a b)))"

definition u32_at :: "bytes \<Rightarrow> nat \<Rightarrow> u32 checked" where
  "u32_at buf i =
     and_then (byte_at buf i) (\<lambda>a. and_then (byte_at buf (i + 1)) (\<lambda>b.
     and_then (byte_at buf (i + 2)) (\<lambda>c. and_then (byte_at buf (i + 3)) (\<lambda>d.
       Inr (u32_from_be_bytes a b c d)))))"

definition dns_label :: "string \<Rightarrow> bytes" where
  "dns_label l = of_nat (length l) # str_bytes l"

definition build_dns_query :: "string \<Rightarrow> u16 \<Rightarrow> bytes" where
  "build_dns_query name qtype =
     [0x00, 0x01] @ [0x01, 0x00] @ [0x00, 0x01] @ [0x00, 0x00] @ [0x00, 0x00] @ [0x00, 0x00] @
     concat (map dns_label (str_split (CHR ''.'') (trim_end_matches (\<lambda>c. c = CHR ''.'') name))) @
     [0x00] @ u16_to_be_bytes qtype @ [0x00, 0x01]"

function skip_dns_name :: "bytes \<Rightarrow> nat \<Rightarrow> nat option checked" where
  "skip_dns_name buf pos =
     (if length buf \<le> pos then Inr None
      else
        (case byte_at buf pos of
           Inl e \<Rightarrow> Inl e
         | Inr len \<Rightarrow>
             if len = 0 then Inr (Some (pos + 1))
             else if len AND 0xC0 = 0xC0 then Inr (Some (pos + 2))
             else skip_dns_name buf (pos + (1 + unat len))))"
  by pat_completeness auto
termination
  by (relation "measure (\<lambda>(buf, pos). length buf - pos)") auto

declare skip_dns_name.simps [simp del]

fun parse_answers :: "nat \<Rightarrow> bytes \<Rightarrow> nat \<Rightarrow> ipv6 option checked" where
  "parse_answers 0 buf pos = Inr None"
| "parse_answers (Suc n) buf pos =
     and_then (skip_dns_name buf pos) (\<lambda>skipped.
       case skipped of
         None \<Rightarrow> Inr None
       | Some pos \<Rightarrow>
           if length buf < pos + 10 then Inr None
           else
             and_then (u16_at buf pos) (\<lambda>rtype.
             and_then (u16_at buf (pos + 2)) (\<lambda>rclass.
             and_then (u32_at buf (pos + 4)) (\<lambda>ttl.
             and_then (u16_at buf (pos + 8)) (\<lambda>rdlength.
               let pos = pos + 10 in
               if rtype = 28 \<and> rdlength = 16 \<and> pos + 16 \<le> length buf
               then Inr (Some (v6_of_octets (slice pos (pos + 16) buf)))
               else parse_answers n buf (pos + unat rdlength))))))"

definition parse_dns_aaaa_response :: "bytes \<Rightarrow> ipv6 option checked" where
  "parse_dns_aaaa_response buf =
     (if length buf < 12 then Inr None
      else
        and_then (u16_at buf 6) (\<lambda>ancount.
          if ancount = 0 then Inr None
          else
            and_then (skip_dns_name buf 12) (\<lambda>skipped.
              case skipped of
                None \<Rightarrow> Inr None
              | Some pos \<Rightarrow> parse_answers (unat ancount) buf (pos + 4))))"

section \<open>No panic\<close>

lemma byte_at_ok: "i < length buf \<Longrightarrow> byte_at buf i = Inr (buf ! i)"
  by (simp add: byte_at_def)

lemma u16_at_ok:
  "i + 1 < length buf \<Longrightarrow> u16_at buf i = Inr (u16_from_be_bytes (buf ! i) (buf ! (i + 1)))"
  by (simp add: u16_at_def byte_at_def)

lemma u32_at_ok: "i + 3 < length buf \<Longrightarrow> \<exists>t. u32_at buf i = Inr t"
  by (simp add: u32_at_def byte_at_def)

lemma skip_dns_name_ok: "\<exists>r. skip_dns_name buf pos = Inr r \<and> (\<forall>p. r = Some p \<longrightarrow> pos < p \<and> p \<le> length buf + 1)"
proof (induction buf pos rule: skip_dns_name.induct)
  case (1 buf pos)
  show ?case
  proof (cases "length buf \<le> pos")
    case True
    then show ?thesis by (simp add: skip_dns_name.simps)
  next
    case False
    with "1.IH"[OF False, of "buf ! pos"] show ?thesis
      by (subst skip_dns_name.simps) (auto simp: byte_at_def)
  qed
qed

lemma parse_answers_ok: "\<exists>r. parse_answers n buf pos = Inr r"
proof (induction n arbitrary: pos)
  case (Suc n)
  obtain r where r: "skip_dns_name buf pos = Inr r" using skip_dns_name_ok by blast
  show ?case
  proof (cases r)
    case None
    with r show ?thesis by simp
  next
    case (Some p)
    show ?thesis
    proof (cases "length buf < p + 10")
      case False
      then obtain t where "u32_at buf (p + 4) = Inr t" using u32_at_ok[of "p + 4" buf] by auto
      with False Some r Suc.IH show ?thesis by (simp add: u16_at_ok Let_def)
    qed (use r Some in simp)
  qed
qed simp

section \<open>Encoding of messages\<close>

text \<open>A name on the wire is a sequence of labels of 1 to 63 bytes, ended by the root label or by a
  compression pointer.\<close>

datatype name_end = Root | Pointer u8 u8

record wire_name =
  labels :: "bytes list"
  name_end :: name_end

definition wf_label :: "bytes \<Rightarrow> bool" where
  "wf_label l \<longleftrightarrow> l \<noteq> [] \<and> length l < 64"

fun end_bytes :: "name_end \<Rightarrow> bytes" where
  "end_bytes Root = [0]"
| "end_bytes (Pointer a b) = [a OR 0xC0, b]"

definition name_bytes :: "wire_name \<Rightarrow> bytes" where
  "name_bytes w = concat (map (\<lambda>l. of_nat (length l) # l) (labels w)) @ end_bytes (name_end w)"

record resource_record =
  owner :: wire_name
  rtype :: u16
  rclass :: u16
  ttl :: u32
  rdata :: bytes

definition rr_bytes :: "resource_record \<Rightarrow> bytes" where
  "rr_bytes rr = name_bytes (owner rr) @ u16_to_be_bytes (rtype rr) @ u16_to_be_bytes (rclass rr) @
     split_be 4 (ttl rr) @ u16_to_be_bytes (of_nat (length (rdata rr))) @ rdata rr"

definition wf_name :: "wire_name \<Rightarrow> bool" where
  "wf_name w \<longleftrightarrow> list_all wf_label (labels w)"

definition wf_rr :: "resource_record \<Rightarrow> bool" where
  "wf_rr rr \<longleftrightarrow> wf_name (owner rr) \<and> length (rdata rr) < 65536"

text \<open>A response: identifier, flags, counts, one question, the answers and whatever follows.\<close>

definition response_bytes ::
  "u16 \<Rightarrow> u16 \<Rightarrow> wire_name \<Rightarrow> u16 \<Rightarrow> resource_record list \<Rightarrow> bytes \<Rightarrow> bytes" where
  "response_bytes ident flags q counts rrs rest =
     u16_to_be_bytes ident @ u16_to_be_bytes flags @ [0, 1] @
     u16_to_be_bytes (of_nat (length rrs)) @ u16_to_be_bytes counts @ u16_to_be_bytes counts @
     name_bytes q @ [0, 28, 0, 1] @ concat (map rr_bytes rrs) @ rest"

definition is_aaaa :: "resource_record \<Rightarrow> bool" where
  "is_aaaa rr \<longleftrightarrow> rtype rr = 28 \<and> length (rdata rr) = 16"

definition first_aaaa :: "resource_record list \<Rightarrow> ipv6 option" where
  "first_aaaa rrs = map_option (\<lambda>rr. v6_of_octets (rdata rr)) (find is_aaaa rrs)"

section \<open>Reading back an encoded message\<close>

lemma byte_of_length:
  assumes "length l < 64"
  shows "unat (of_nat (length l) :: u8) = length l" and "(of_nat (length l) :: u8) AND 0xC0 \<noteq> 0xC0"
    and "l \<noteq> [] \<Longrightarrow> (of_nat (length l) :: u8) \<noteq> 0"
proof -
  show u: "unat (of_nat (length l) :: u8) = length l" using assms by (simp add: unat_of_nat_lt)
  then show "l \<noteq> [] \<Longrightarrow> (of_nat (length l) :: u8) \<noteq> 0" by auto
  have "\<not> bit (of_nat (length l) :: u8) 7"
  proof -
    have "\<not> bit (unat (of_nat (length l) :: u8)) 7" using assms u by (simp add: bit_iff_odd)
    then show ?thesis by (simp add: bit_unsigned_iff)
  qed
  moreover have "bit (0xC0 :: u8) 7" by simp
  ultimately show "(of_nat (length l) :: u8) AND 0xC0 \<noteq> 0xC0" by (metis bit_and_iff)
qed

lemma skip_label:
  assumes "wf_label l"
  shows "skip_dns_name (pre @ (of_nat (length l) # l) @ rest) (length pre) =
    skip_dns_name (pre @ (of_nat (length l) # l) @ rest) (length (pre @ of_nat (length l) # l))"
  using assms byte_of_length[of l]
  by (subst skip_dns_name.simps) (simp add: byte_at_def wf_label_def)

lemma skip_labels:
  "list_all wf_label ls \<Longrightarrow>
   skip_dns_name (pre @ concat (map (\<lambda>l. of_nat (length l) # l) ls) @ rest) (length pre) =
   skip_dns_name (pre @ concat (map (\<lambda>l. of_nat (length l) # l) ls) @ rest)
     (length (pre @ concat (map (\<lambda>l. of_nat (length l) # l) ls)))"
proof (induction ls arbitrary: pre)
  case (Cons l ls)
  from Cons.prems Cons.IH[of "pre @ of_nat (length l) # l"] skip_label[of l pre] show ?case
    by simp
qed simp

lemma pointer_byte: "(a OR 0xC0 :: u8) AND 0xC0 = 0xC0" "(a OR 0xC0 :: u8) \<noteq> 0"
proof -
  show "(a OR 0xC0 :: u8) AND 0xC0 = 0xC0" by (simp add: bit.conj_disj_distrib2)
  then show "(a OR 0xC0 :: u8) \<noteq> 0" by force
qed

lemma skip_name_bytes:
  assumes "wf_name w"
  shows "skip_dns_name (pre @ name_bytes w @ rest) (length pre) = Inr (Some (length (pre @ name_bytes w)))"
proof -
  let ?ls = "concat (map (\<lambda>l. of_nat (length l) # l) (labels w))"
  have "skip_dns_name (pre @ ?ls @ (end_bytes (name_end w) @ rest)) (length (pre @ ?ls)) =
      Inr (Some (length (pre @ ?ls @ end_bytes (name_end w))))"
    by (subst skip_dns_name.simps, cases "name_end w") (simp_all add: byte_at_def nth_append pointer_byte)
  with skip_labels[of "labels w" pre "end_bytes (name_end w) @ rest"] assms show ?thesis
    by (simp add: name_bytes_def wf_name_def)
qed

lemma u16_at_bytes: "u16_at (pre @ u16_to_be_bytes w @ rest) (length pre) = Inr w"
  by (simp add: u16_at_def byte_at_def u16_to_be_bytes_expand nth_append)



lemma sixteen: "unat (16 :: u16) = 16"
  by simp

lemma parse_answers_rrs:
  "list_all wf_rr rrs \<Longrightarrow>
   parse_answers (length rrs) (pre @ concat (map rr_bytes rrs) @ rest) (length pre) = Inr (first_aaaa rrs)"
proof (induction rrs arbitrary: pre)
  case Nil
  then show ?case by (simp add: first_aaaa_def)
next
  case (Cons rr rrs)
  let ?rest = "concat (map rr_bytes rrs) @ rest"
  let ?n = "name_bytes (owner rr)"
  let ?buf = "pre @ concat (map rr_bytes (rr # rrs)) @ rest"
  let ?len = "of_nat (length (rdata rr)) :: u16"
  have buf: "?buf = (pre @ ?n) @ u16_to_be_bytes (rtype rr) @ u16_to_be_bytes (rclass rr) @
      split_be 4 (ttl rr) @ u16_to_be_bytes ?len @ rdata rr @ ?rest"
    by (simp add: rr_bytes_def)
  let ?p = "length (pre @ ?n)"
  have sk: "skip_dns_name ?buf (length pre) = Inr (Some ?p)"
    using skip_name_bytes[of "owner rr" pre] Cons.prems unfolding buf by (simp add: wf_rr_def)
  have len: "?p + 10 \<le> length ?buf" unfolding buf by simp
  have t: "u16_at ?buf ?p = Inr (rtype rr)"
    unfolding buf by (rule u16_at_bytes)
  have c: "u16_at ?buf (?p + 2) = Inr (rclass rr)"
    unfolding buf using u16_at_bytes[of "pre @ ?n @ u16_to_be_bytes (rtype rr)" "rclass rr"] by (simp add: add.assoc)
  have d: "u16_at ?buf (?p + 8) = Inr ?len"
    unfolding buf using u16_at_bytes[of "pre @ ?n @ u16_to_be_bytes (rtype rr) @
      u16_to_be_bytes (rclass rr) @ split_be 4 (ttl rr)" ?len] by (simp add: add.assoc)
  obtain ttl' where l: "u32_at ?buf (?p + 4) = Inr ttl'" using u32_at_ok[of "?p + 4" ?buf] len by auto
  have wl: "unat ?len = length (rdata rr)" using Cons.prems by (simp add: unat_of_nat_lt wf_rr_def)
  then have w16: "?len = 16 \<longleftrightarrow> length (rdata rr) = 16" using Cons.prems
    by (metis of_nat_numeral unat_of_nat_lt word_unat_eq_iff sixteen)
  have step: "parse_answers (length (rr # rrs)) ?buf (length pre) =
      (if rtype rr = 28 \<and> ?len = 16 \<and> ?p + 10 + 16 \<le> length ?buf
       then Inr (Some (v6_of_octets (slice (?p + 10) (?p + 10 + 16) ?buf)))
       else parse_answers (length rrs) ?buf (?p + 10 + unat ?len))"
    using sk len t c d l by (simp add: Let_def)
  show ?case
  proof (cases "is_aaaa rr")
    case True
    then have "rtype rr = 28" "length (rdata rr) = 16" by (auto simp: is_aaaa_def)
    moreover have "slice (?p + 10) (?p + 10 + 16) ?buf = rdata rr"
      unfolding buf using \<open>length (rdata rr) = 16\<close> by (simp add: slice_def)
    moreover have "?p + 10 + 16 \<le> length ?buf" unfolding buf using \<open>length (rdata rr) = 16\<close> by simp
    ultimately show ?thesis unfolding step using w16 True by (simp add: first_aaaa_def)
  next
    case False
    then have n: "(rtype rr = 28 \<and> ?len = 16 \<and> ?p + 10 + 16 \<le> length ?buf) = False"
      using w16 by (auto simp: is_aaaa_def)
    have p: "?p + 10 + unat ?len = length (pre @ rr_bytes rr)"
      by (simp add: rr_bytes_def wl)
    show ?thesis
      unfolding step n p if_False using Cons.IH[of "pre @ rr_bytes rr"] Cons.prems False
      by (simp add: first_aaaa_def)
  qed
qed

lemma parse_response:
  assumes "wf_name q" and "list_all wf_rr rrs" and "length rrs < 65536"
  shows "parse_dns_aaaa_response (response_bytes ident flags q counts rrs rest) = Inr (first_aaaa rrs)"
proof -
  let ?hd = "u16_to_be_bytes ident @ u16_to_be_bytes flags @ [0, 1]"
  let ?n = "of_nat (length rrs) :: u16"
  let ?h2 = "u16_to_be_bytes counts @ u16_to_be_bytes counts"
  let ?pre = "?hd @ u16_to_be_bytes ?n @ ?h2"
  let ?rest = "[0, 28, 0, 1] @ concat (map rr_bytes rrs) @ rest"
  have msg: "response_bytes ident flags q counts rrs rest = ?pre @ name_bytes q @ ?rest"
    by (simp add: response_bytes_def)
  have l12: "length ?pre = 12" by simp
  have n: "u16_at (?pre @ name_bytes q @ ?rest) 6 = Inr ?n"
    using u16_at_bytes[of ?hd ?n "?h2 @ name_bytes q @ ?rest"] by simp
  have un: "unat ?n = length rrs" using assms(3) by (simp add: unat_of_nat_lt)
  have sk: "skip_dns_name (?pre @ name_bytes q @ ?rest) 12 = Inr (Some (length (?pre @ name_bytes q)))"
    using skip_name_bytes[OF assms(1), of ?pre ?rest] by (simp only: l12)
  have a: "parse_answers (length rrs) (?pre @ name_bytes q @ ?rest) (length (?pre @ name_bytes q) + 4) =
      Inr (first_aaaa rrs)"
    using parse_answers_rrs[OF assms(2), of "?pre @ name_bytes q @ [0, 28, 0, 1]" rest] by (simp add: numeral_eq_Suc)
  have "?n = 0 \<Longrightarrow> first_aaaa rrs = None"
    using un by (cases rrs) (auto simp: first_aaaa_def)
  moreover have "12 \<le> length (?pre @ name_bytes q @ ?rest)" by simp
  ultimately show ?thesis
    unfolding msg parse_dns_aaaa_response_def using n sk a un
    by (simp del: append_assoc length_append)
qed

text \<open>The query as an encoded name.\<close>

definition plain_label :: "string \<Rightarrow> bool" where
  "plain_label l \<longleftrightarrow> l \<noteq> [] \<and> length l < 64 \<and> CHR ''.'' \<notin> set l"

lemma join_last_not:
  "ls \<noteq> [] \<Longrightarrow> \<forall>l\<in>set ls. l \<noteq> [] \<and> c \<notin> set l \<Longrightarrow> join sep ls \<noteq> [] \<and> last (join sep ls) \<noteq> c"
proof (induction ls)
  case (Cons l ls)
  show ?case
  proof (cases "ls = []")
    case True
    with Cons.prems last_in_set[of l] show ?thesis by auto
  next
    case False
    with Cons show ?thesis by (simp add: join_Cons)
  qed
qed simp

lemma split_labels:
  assumes "ls \<noteq> []" and "list_all plain_label ls" and "set dots \<subseteq> {CHR ''.''}"
  shows "str_split (CHR ''.'') (trim_end_matches (\<lambda>c. c = CHR ''.'') (join ''.'' ls @ dots)) = ls"
proof -
  have "join ''.'' ls \<noteq> [] \<and> last (join ''.'' ls) \<noteq> CHR ''.''"
    using assms by (intro join_last_not) (auto simp: list_all_iff plain_label_def)
  moreover have "trim_end_matches (\<lambda>c. c = CHR ''.'') (s @ dots) = trim_end_matches (\<lambda>c. c = CHR ''.'') s" for s
    using assms(3)
    by (induction dots arbitrary: s rule: rev_induct)
      (simp_all add: trim_end_matches_snoc flip: append_assoc)
  ultimately have "trim_end_matches (\<lambda>c. c = CHR ''.'') (join ''.'' ls @ dots) = join ''.'' ls"
    by (simp add: trim_end_matches_id)
  with assms show ?thesis by (simp add: str_split_join list_all_iff plain_label_def)
qed

lemma build_query_layout:
  assumes "ls \<noteq> []" and "list_all plain_label ls" and "set dots \<subseteq> {CHR ''.''}"
  shows "build_dns_query (join ''.'' ls @ dots) qtype =
    [0, 1, 1, 0, 0, 1, 0, 0, 0, 0, 0, 0] @ name_bytes \<lparr>labels = map str_bytes ls, name_end = Root\<rparr> @
    u16_to_be_bytes qtype @ [0, 1]"
proof -
  have "dns_label = (\<lambda>l. of_nat (length l) # l) \<circ> str_bytes"
    by (auto simp: dns_label_def str_bytes_def)
  then show ?thesis unfolding build_dns_query_def split_labels[OF assms] by (simp add: name_bytes_def)
qed

section \<open>Properties\<close>

text \<open>C6. A response with one question and any well-formed answers (names in labels or
  compressed, records of any type and size, anything after the answers) is parsed to the
  address of the first AAAA record, and to no address when there is none, whatever its
  identifier and flags.\<close>

theorem response_parse_correct:
  assumes "wf_name q" and "list_all wf_rr rrs" and "length rrs < 65536"
  shows "parse_dns_aaaa_response (response_bytes ident flags q counts rrs rest) = Inr (first_aaaa rrs)"
  using assms by (rule parse_response)

definition demo_rrs :: "resource_record list" where
  "demo_rrs = [\<lparr>owner = \<lparr>labels = [], name_end = Pointer 0 12\<rparr>, rtype = 5, rclass = 1, ttl = 60,
       rdata = [1, 97, 0]\<rparr>,
     \<lparr>owner = \<lparr>labels = [[97]], name_end = Root\<rparr>, rtype = 28, rclass = 1, ttl = 60,
       rdata = 2 # replicate 14 0 @ [1]\<rparr>]"

theorem response_parse_correct_witness:
  "parse_dns_aaaa_response (response_bytes 1 0x8180 \<lparr>labels = [[97, 98]], name_end = Root\<rparr> 0 demo_rrs []) =
     Inr (Some (v6_of_octets (2 # replicate 14 0 @ [1])))"
proof -
  have "first_aaaa demo_rrs = Some (v6_of_octets (2 # replicate 14 0 @ [1]))"
    by (simp add: first_aaaa_def demo_rrs_def is_aaaa_def)
  moreover have "wf_name \<lparr>labels = [[97, 98]], name_end = Root\<rparr>" "list_all wf_rr demo_rrs"
    "length demo_rrs < 65536"
    by (simp_all add: demo_rrs_def wf_name_def wf_label_def wf_rr_def)
  ultimately show ?thesis using response_parse_correct by simp
qed


text \<open>For a host name of ordinary labels (1 to 63 bytes, no dots), with or without
  trailing dots, the query is a standard one: header with one question, exactly the labels of
  the name, type and class, and its name section ends right before them.\<close>

theorem query_well_formed:
  assumes "ls \<noteq> []" and "list_all plain_label ls" and "set dots \<subseteq> {CHR ''.''}"
  shows "build_dns_query (join ''.'' ls @ dots) qtype =
      [0, 1, 1, 0, 0, 1, 0, 0, 0, 0, 0, 0] @ name_bytes \<lparr>labels = map str_bytes ls, name_end = Root\<rparr> @
      u16_to_be_bytes qtype @ [0, 1] \<and>
    skip_dns_name (build_dns_query (join ''.'' ls @ dots) qtype) 12 =
      Inr (Some (length (build_dns_query (join ''.'' ls @ dots) qtype) - 4))"
proof -
  let ?w = "\<lparr>labels = map str_bytes ls, name_end = Root\<rparr>"
  have "wf_name ?w"
    using assms(2) by (auto simp: wf_name_def wf_label_def list_all_iff plain_label_def str_bytes_def)
  then show ?thesis
    unfolding build_query_layout[OF assms]
    using skip_name_bytes[of ?w "[0, 1, 1, 0, 0, 1, 0, 0, 0, 0, 0, 0]" "u16_to_be_bytes qtype @ [0, 1]"]
    by (simp add: numeral_eq_Suc)
qed

theorem query_well_formed_witness:
  "skip_dns_name (build_dns_query ''ab.c.'' 28) 12 =
     Inr (Some (length (build_dns_query ''ab.c.'' 28) - 4))"
proof -
  have "list_all plain_label [''ab'', ''c'']" by (simp add: plain_label_def)
  from query_well_formed[OF _ this, of "''.''" 28, THEN conjunct2] show ?thesis by simp
qed

text \<open>A name with an empty label is not rejected: the empty label is written as a zero
  byte, which ends the name on the wire, so for \<open>a..b\<close> the question's type is read from the
  bytes of the label \<open>b\<close> and the query asks for the name \<open>a\<close> with type \<open>0x0162\<close>.\<close>

theorem empty_label_truncates_name:
  "skip_dns_name (build_dns_query ''a..b'' 28) 12 = Inr (Some 15) \<and>
   slice 15 17 (build_dns_query ''a..b'' 28) = [1, 0x62] \<and>
   length (build_dns_query ''a..b'' 28) - 4 = 18"
proof -
  have q: "build_dns_query ''a..b'' 28 = [0, 1, 1, 0, 0, 1, 0, 0, 0, 0, 0, 0, 1, 0x61, 0, 1, 0x62, 0, 0, 28, 0, 1]"
    by (simp add: build_dns_query_def trim_end_matches_def dns_label_def str_bytes_def u16_to_be_bytes_expand)
  have "skip_dns_name (build_dns_query ''a..b'' 28) 14 = Inr (Some 15)"
    unfolding q by (simp add: skip_dns_name.simps byte_at_def)
  then have "skip_dns_name (build_dns_query ''a..b'' 28) 12 = Inr (Some 15)"
    unfolding q by (subst skip_dns_name.simps) (simp add: byte_at_def)
  then show ?thesis unfolding q by (simp add: slice_def)
qed

end
