(* ===== verification/Resolver.thy ===== *)
theory Resolver
  imports Dns_Wire
begin

text \<open>
  Name resolution, \<open>crates/yggstack/src/resolver.rs\<close>: address literals, \<open>.pk.ygg\<close> names and DNS
  through one or several nameservers with a sticky failover cursor.  The network is a record of
  operations on an environment of any type, threaded through the calls in the order the code
  makes them; \<open>tokio::time::timeout\<close>, \<open>hex::decode\<close> and \<open>addr_for_key\<close> are parameters.
\<close>

section \<open>Model\<close>

definition NAME_MAPPING_SUFFIX :: string where
  "NAME_MAPPING_SUFFIX = ''.pk.ygg''"

definition ATTEMPT_TIMEOUT :: duration where
  "ATTEMPT_TIMEOUT = from_secs 10"

definition RETRY_PREFERRED_AFTER :: duration where
  "RETRY_PREFERRED_AFTER = from_secs 60"

datatype DnsAnswer = Ip ipv6 | NoRecord

text \<open>What the resolver uses of the netstack.  An open socket or stream is a handle; dropping it
  is an operation of its own.  \<open>udp_recv_within\<close> is \<open>recv_from\<close> under a deadline, \<open>None\<close> when the
  deadline passes.\<close>

record 'e net_ops =
  now :: "'e \<Rightarrow> instant"
  udp_open :: "'e \<Rightarrow> (string + nat) \<times> 'e"
  udp_send_to :: "nat \<Rightarrow> bytes \<Rightarrow> socket_addr \<Rightarrow> 'e \<Rightarrow> (string + unit) \<times> 'e"
  udp_recv_within :: "duration \<Rightarrow> nat \<Rightarrow> nat \<Rightarrow> 'e \<Rightarrow> (string + bytes) option \<times> 'e"
  udp_drop :: "nat \<Rightarrow> 'e \<Rightarrow> 'e"
  tcp_dial :: "socket_addr \<Rightarrow> 'e \<Rightarrow> (string + nat) \<times> 'e"
  tcp_write_all :: "nat \<Rightarrow> bytes \<Rightarrow> 'e \<Rightarrow> (string + unit) \<times> 'e"
  tcp_read_exact :: "nat \<Rightarrow> nat \<Rightarrow> 'e \<Rightarrow> (string + bytes) \<times> 'e"
  tcp_drop :: "nat \<Rightarrow> 'e \<Rightarrow> 'e"

definition dns_lookup_udp ::
  "'e net_ops \<Rightarrow> bytes \<Rightarrow> socket_addr \<Rightarrow> nat \<Rightarrow> 'e \<Rightarrow> (string + bytes) \<times> 'e" where
  "dns_lookup_udp ops query ns_addr timeout_secs e0 =
     (case udp_open ops e0 of
        (Inl err, e1) \<Rightarrow> (Inl (''UDP open: '' @ err), e1)
      | (Inr udp, e1) \<Rightarrow>
          (case udp_send_to ops udp query ns_addr e1 of
             (Inl err, e2) \<Rightarrow> (Inl (''DNS UDP send: '' @ err), udp_drop ops udp e2)
           | (Inr _, e2) \<Rightarrow>
               (case udp_recv_within ops (from_secs timeout_secs) udp 4096 e2 of
                  (None, e3) \<Rightarrow> (Inl ''DNS UDP timeout'', udp_drop ops udp e3)
                | (Some (Inl err), e3) \<Rightarrow> (Inl (''DNS UDP recv: '' @ err), udp_drop ops udp e3)
                | (Some (Inr resp), e3) \<Rightarrow> (Inr resp, udp_drop ops udp e3))))"

definition tcp_frame :: "bytes \<Rightarrow> bytes" where
  "tcp_frame query = u16_to_be_bytes (of_nat (length query)) @ query"

definition dns_lookup_tcp ::
  "'e net_ops \<Rightarrow> bytes \<Rightarrow> socket_addr \<Rightarrow> 'e \<Rightarrow> (string + bytes) \<times> 'e" where
  "dns_lookup_tcp ops query ns_addr e0 =
     (case tcp_dial ops ns_addr e0 of
        (Inl err, e1) \<Rightarrow> (Inl (''DNS connect: '' @ err), e1)
      | (Inr s, e1) \<Rightarrow>
          (case tcp_write_all ops s (tcp_frame query) e1 of
             (Inl err, e2) \<Rightarrow> (Inl (''DNS write: '' @ err), tcp_drop ops s e2)
           | (Inr _, e2) \<Rightarrow>
               (case tcp_read_exact ops s 2 e2 of
                  (Inl err, e3) \<Rightarrow> (Inl (''DNS read len: '' @ err), tcp_drop ops s e3)
                | (Inr len_buf, e3) \<Rightarrow>
                    (case tcp_read_exact ops s (unat (u16_from_be_bytes (len_buf ! 0) (len_buf ! 1))) e3 of
                       (Inl err, e4) \<Rightarrow> (Inl (''DNS read body: '' @ err), tcp_drop ops s e4)
                     | (Inr resp, e4) \<Rightarrow> (Inr resp, tcp_drop ops s e4)))))"

text \<open>\<open>parse_dns_aaaa_response\<close> has no panicking run, so its value is its result.\<close>

definition parsed_aaaa :: "bytes \<Rightarrow> ipv6 option" where
  "parsed_aaaa resp = (case parse_dns_aaaa_response resp of Inr r \<Rightarrow> r | Inl _ \<Rightarrow> None)"

definition answer_of :: "bytes \<Rightarrow> DnsAnswer" where
  "answer_of resp = (case parsed_aaaa resp of Some ip \<Rightarrow> Ip ip | None \<Rightarrow> NoRecord)"

definition nameserver_addr :: "string \<Rightarrow> string + socket_addr" where
  "nameserver_addr nameserver =
     (case parse_socket nameserver of
        Some a \<Rightarrow> Inr a
      | None \<Rightarrow>
          ok_or (parse_socket (''['' @ nameserver @ '']:53''))
            (''invalid nameserver address '' @ quoted nameserver))"

definition dns_lookup_ipv6 ::
  "'e net_ops \<Rightarrow> string \<Rightarrow> string \<Rightarrow> 'e \<Rightarrow> (string + DnsAnswer) \<times> 'e" where
  "dns_lookup_ipv6 ops name nameserver e0 =
     (case nameserver_addr nameserver of
        Inl err \<Rightarrow> (Inl err, e0)
      | Inr ns_addr \<Rightarrow>
          (let query = build_dns_query name 28;
               (udp_result, e2) =
                 (case dns_lookup_udp ops query ns_addr 10 e0 of
                    (Inr resp, e1) \<Rightarrow> (Inr resp, e1)
                  | (Inl _, e1) \<Rightarrow> dns_lookup_udp ops query ns_addr 10 e1);
               (resp, e3) =
                 (case udp_result of
                    Inr resp \<Rightarrow>
                      if 3 \<le> length resp \<and> resp ! 2 AND 0x02 \<noteq> 0
                      then dns_lookup_tcp ops query ns_addr e2 else (Inr resp, e2)
                  | Inl _ \<Rightarrow> dns_lookup_tcp ops query ns_addr e2)
           in (case resp of Inl err \<Rightarrow> (Inl err, e3) | Inr bytes \<Rightarrow> (Inr (answer_of bytes), e3))))"

definition parse_nameservers :: "string \<Rightarrow> string list" where
  "parse_nameservers s = filter (\<lambda>x. x \<noteq> []) (map trim (str_split (CHR '','') s))"

record FailoverState =
  current :: nat
  preferred_down :: "instant option"
  retry_preferred_after :: duration

definition with_retry_after :: "duration \<Rightarrow> FailoverState" where
  "with_retry_after d = \<lparr>current = 0, preferred_down = None, retry_preferred_after = d\<rparr>"

definition new_failover :: FailoverState where
  "new_failover = with_retry_after RETRY_PREFERRED_AFTER"

definition start_index :: "instant \<Rightarrow> FailoverState \<Rightarrow> nat \<times> FailoverState" where
  "start_index t f =
     (if current f \<noteq> 0 \<and>
         (case preferred_down f of Some since \<Rightarrow> retry_preferred_after f \<le> duration_since t since
                                 | None \<Rightarrow> False)
      then (0, f\<lparr>current := 0\<rparr>) else (current f, f))"

definition note_success :: "nat \<Rightarrow> FailoverState \<Rightarrow> FailoverState" where
  "note_success idx f =
     (let f1 = f\<lparr>current := idx\<rparr> in if idx = 0 then f1\<lparr>preferred_down := None\<rparr> else f1)"

definition note_failure :: "instant \<Rightarrow> nat \<Rightarrow> nat \<Rightarrow> FailoverState \<Rightarrow> FailoverState" where
  "note_failure t idx len f =
     (let f1 = (if idx = 0 \<and> preferred_down f = None then f\<lparr>preferred_down := Some t\<rparr> else f)
      in if current f1 = idx then f1\<lparr>current := (idx + 1) mod len\<rparr> else f1)"

text \<open>An attempt is a lookup under the attempt's deadline: \<open>None\<close> when the deadline passed.\<close>

type_synonym 'e attempt = "string \<Rightarrow> string \<Rightarrow> 'e \<Rightarrow> (string + DnsAnswer) option \<times> 'e"

definition no_record_msg :: "string \<Rightarrow> string" where
  "no_record_msg name = ''no AAAA record found for '' @ quoted name"

definition all_failed_msg :: "nat \<Rightarrow> string \<Rightarrow> string \<Rightarrow> string" where
  "all_failed_msg n name err =
     ''all '' @ show_nat n @ '' nameservers failed to lookup '' @ quoted name @ '': '' @ err"

fun failover_walk ::
  "('e \<Rightarrow> instant) \<Rightarrow> 'e attempt \<Rightarrow> string \<Rightarrow> string list \<Rightarrow> duration \<Rightarrow> nat \<Rightarrow>
     nat list \<Rightarrow> string \<Rightarrow> FailoverState \<Rightarrow> 'e \<Rightarrow> (string + ipv6) \<times> FailoverState \<times> 'e" where
  "failover_walk clk att name servers tmo start [] last_err f e =
     (Inl (all_failed_msg (length servers) name last_err), f, e)"
| "failover_walk clk att name servers tmo start (i # is) last_err f e =
     (let idx = (start + i) mod length servers in
      case att name (servers ! idx) e of
        (Some (Inr (Ip ip)), e1) \<Rightarrow> (Inr ip, note_success idx f, e1)
      | (Some (Inr NoRecord), e1) \<Rightarrow> (Inl (no_record_msg name), note_success idx f, e1)
      | (Some (Inl err), e1) \<Rightarrow>
          failover_walk clk att name servers tmo start is err
            (note_failure (clk e1) idx (length servers) f) e1
      | (None, e1) \<Rightarrow>
          failover_walk clk att name servers tmo start is (''timeout after '' @ debug_duration tmo)
            (note_failure (clk e1) idx (length servers) f) e1)"

definition resolve_with_failover ::
  "('e \<Rightarrow> instant) \<Rightarrow> 'e attempt \<Rightarrow> string \<Rightarrow> string list \<Rightarrow> duration \<Rightarrow>
     FailoverState \<Rightarrow> 'e \<Rightarrow> (string + ipv6) \<times> FailoverState \<times> 'e" where
  "resolve_with_failover clk att name servers tmo f e =
     (let (start, f1) = start_index (clk e) f
      in failover_walk clk att name servers tmo start [0..<length servers] [] f1 e)"

record NameResolver =
  nameservers :: "string list"
  failover :: "FailoverState option"

definition new_resolver :: "string \<Rightarrow> NameResolver" where
  "new_resolver nameserver =
     (let ns = parse_nameservers nameserver
      in \<lparr>nameservers = ns, failover = (if 1 < length ns then Some new_failover else None)\<rparr>)"

definition pk_label :: "string \<Rightarrow> string" where
  "pk_label name = last (str_split (CHR ''.'') (trim_end_str NAME_MAPPING_SUFFIX name))"

definition resolve ::
  "'e net_ops \<Rightarrow> (duration \<Rightarrow> ('e \<Rightarrow> (string + DnsAnswer) \<times> 'e) \<Rightarrow> 'e \<Rightarrow> (string + DnsAnswer) option \<times> 'e) \<Rightarrow>
   (string \<Rightarrow> string + bytes) \<Rightarrow> (bytes \<Rightarrow> bytes) \<Rightarrow>
   NameResolver \<Rightarrow> string \<Rightarrow> 'e \<Rightarrow> (string + ipv6) \<times> NameResolver \<times> 'e" where
  "resolve ops timeout hex_decode addr_for_key r name e =
     (case parse_ipv6 name of
        Some ip \<Rightarrow> (Inr ip, r, e)
      | None \<Rightarrow>
          if ends_with NAME_MAPPING_SUFFIX name then
            (and_then (map_err (\<lambda>err. ''hex decode: '' @ err) (hex_decode (pk_label name))) (\<lambda>bytes.
               if length bytes \<noteq> 32
               then Inl (''public key must be 32 bytes, got '' @ show_nat (length bytes))
               else Inr (v6_of_octets (addr_for_key bytes))), r, e)
          else if nameservers r = [] then
            (Inl (''no nameserver configured; cannot resolve '' @ quoted name), r, e)
          else if length (nameservers r) = 1 then
            (case dns_lookup_ipv6 ops name (nameservers r ! 0) e of
               (Inr (Ip ip), e1) \<Rightarrow> (Inr ip, r, e1)
             | (Inr NoRecord, e1) \<Rightarrow> (Inl (no_record_msg name), r, e1)
             | (Inl err, e1) \<Rightarrow> (Inl err, r, e1))
          else
            (case resolve_with_failover (now ops)
                (\<lambda>nm ns. timeout ATTEMPT_TIMEOUT (dns_lookup_ipv6 ops nm ns)) name
                (nameservers r) ATTEMPT_TIMEOUT (the (failover r)) e of
               (res, f, e1) \<Rightarrow> (res, r\<lparr>failover := Some f\<rparr>, e1)))"

section \<open>The walk over the servers\<close>

text \<open>The run of attempts \<open>start, start + 1, \<dots>\<close> (modulo the number of servers): the environment
  before attempt \<open>k\<close>, its outcome, and the failover state after \<open>k\<close> failures.\<close>

primrec env_after :: "'e attempt \<Rightarrow> string \<Rightarrow> string list \<Rightarrow> nat \<Rightarrow> 'e \<Rightarrow> nat \<Rightarrow> 'e" where
  "env_after att name servers start e 0 = e"
| "env_after att name servers start e (Suc k) =
     snd (att name (servers ! ((start + k) mod length servers)) (env_after att name servers start e k))"

definition outcome ::
  "'e attempt \<Rightarrow> string \<Rightarrow> string list \<Rightarrow> nat \<Rightarrow> 'e \<Rightarrow> nat \<Rightarrow> (string + DnsAnswer) option" where
  "outcome att name servers start e k =
     fst (att name (servers ! ((start + k) mod length servers)) (env_after att name servers start e k))"

fun failure_of :: "duration \<Rightarrow> (string + DnsAnswer) option \<Rightarrow> string option" where
  "failure_of tmo None = Some (''timeout after '' @ debug_duration tmo)"
| "failure_of tmo (Some (Inl err)) = Some err"
| "failure_of tmo (Some (Inr a)) = None"

primrec fo_after ::
  "('e \<Rightarrow> instant) \<Rightarrow> 'e attempt \<Rightarrow> string \<Rightarrow> string list \<Rightarrow> nat \<Rightarrow> 'e \<Rightarrow> FailoverState \<Rightarrow> nat \<Rightarrow> FailoverState" where
  "fo_after clk att name servers start e f 0 = f"
| "fo_after clk att name servers start e f (Suc k) =
     note_failure (clk (env_after att name servers start e (Suc k)))
       ((start + k) mod length servers) (length servers) (fo_after clk att name servers start e f k)"

definition err_after :: "'e attempt \<Rightarrow> string \<Rightarrow> string list \<Rightarrow> duration \<Rightarrow> nat \<Rightarrow> 'e \<Rightarrow> nat \<Rightarrow> string" where
  "err_after att name servers tmo start e k =
     (if k = 0 then [] else the (failure_of tmo (outcome att name servers start e (k - 1))))"

lemma failover_walk_step:
  "failure_of tmo (outcome att name servers start e k) = Some err \<Longrightarrow>
   failover_walk clk att name servers tmo start (k # is) last_err f (env_after att name servers start e k) =
   failover_walk clk att name servers tmo start is err
     (note_failure (clk (env_after att name servers start e (Suc k))) ((start + k) mod length servers)
        (length servers) f) (env_after att name servers start e (Suc k))"
  by (auto simp: outcome_def Let_def split: prod.splits option.splits sum.splits)

lemma failover_walk_skip:
  "m \<le> length servers \<Longrightarrow> \<forall>i<m. failure_of tmo (outcome att name servers start e i) \<noteq> None \<Longrightarrow>
   failover_walk clk att name servers tmo start [0..<length servers] [] f e =
   failover_walk clk att name servers tmo start [m..<length servers]
     (err_after att name servers tmo start e m) (fo_after clk att name servers start e f m)
     (env_after att name servers start e m)"
proof (induction m)
  case 0
  then show ?case by (simp add: err_after_def)
next
  case (Suc m)
  then obtain err where err: "failure_of tmo (outcome att name servers start e m) = Some err" by auto
  have "[m..<length servers] = m # [Suc m..<length servers]" using Suc.prems by (simp add: upt_conv_Cons)
  with Suc failover_walk_step[OF err] show ?case by (simp add: err_after_def err)
qed

lemma note_failure_current: "current f = idx \<Longrightarrow> current (note_failure t idx n f) = (idx + 1) mod n"
  by (simp add: note_failure_def Let_def)

lemma fo_after_current:
  "current f = start \<Longrightarrow> start < length servers \<Longrightarrow>
   current (fo_after clk att name servers start e f k) = (start + k) mod length servers"
proof (induction k)
  case (Suc k)
  then show ?case
    by (simp add: note_failure_current mod_Suc_eq)
qed simp

lemma note_failure_down:
  "preferred_down f = Some since \<Longrightarrow> preferred_down (note_failure t idx n f) = Some since"
  by (simp add: note_failure_def Let_def)

lemma fo_after_down:
  "preferred_down f = Some since \<Longrightarrow> preferred_down (fo_after clk att name servers start e f k) = Some since"
  by (induction k) (simp_all add: note_failure_down)

lemma fo_after_retry:
  "retry_preferred_after (fo_after clk att name servers start e f k) = retry_preferred_after f"
  by (induction k) (simp_all add: note_failure_def Let_def)

lemma start_index_current: "start_index t f = (s, f1) \<Longrightarrow> current f1 = s"
  by (auto simp: start_index_def split: if_splits)

lemma start_index_less: "start_index t f = (s, f1) \<Longrightarrow> current f < n \<Longrightarrow> s < n"
  by (auto simp: start_index_def split: if_splits)

lemma note_success_simps [simp]:
  "current (note_success idx f) = idx"
  "preferred_down (note_success idx f) = (if idx = 0 then None else preferred_down f)"
  "retry_preferred_after (note_success idx f) = retry_preferred_after f"
  by (simp_all add: note_success_def Let_def)

text \<open>The attempt that ends the walk.\<close>

lemma resolve_answer:
  assumes s: "start_index (clk e) f = (start, f1)" and m: "m < length servers"
    and fails: "\<forall>i<m. failure_of tmo (outcome att name servers start e i) \<noteq> None"
    and ans: "outcome att name servers start e m = Some (Inr a)"
  shows "resolve_with_failover clk att name servers tmo f e =
    ((case a of Ip ip \<Rightarrow> Inr ip | NoRecord \<Rightarrow> Inl (no_record_msg name)),
     note_success ((start + m) mod length servers) (fo_after clk att name servers start e f1 m),
     env_after att name servers start e (Suc m))"
proof -
  have "[m..<length servers] = m # [Suc m..<length servers]" using m by (simp add: upt_conv_Cons)
  moreover obtain e1 where "att name (servers ! ((start + m) mod length servers))
      (env_after att name servers start e m) = (Some (Inr a), e1)"
    using ans by (metis outcome_def prod.collapse)
  ultimately show ?thesis
    using s failover_walk_skip[of m servers tmo att name start e clk f1] fails m
    by (cases a) (simp_all add: resolve_with_failover_def)
qed

lemma resolve_all_fail:
  assumes s: "start_index (clk e) f = (start, f1)"
    and fails: "\<forall>i<length servers. failure_of tmo (outcome att name servers start e i) \<noteq> None"
  shows "resolve_with_failover clk att name servers tmo f e =
    (Inl (all_failed_msg (length servers) name (err_after att name servers tmo start e (length servers))),
     fo_after clk att name servers start e f1 (length servers),
     env_after att name servers start e (length servers))"
  using s failover_walk_skip[of "length servers" servers tmo att name start e clk f1] fails
  by (simp add: resolve_with_failover_def)

lemma first_answer:
  fixes n :: nat
  shows "(\<forall>i<n. failure_of tmo (g i) \<noteq> None) \<or>
   (\<exists>m<n. \<exists>a. g m = Some (Inr a) \<and> (\<forall>i<m. failure_of tmo (g i) \<noteq> None))"
proof (cases "\<forall>i<n. failure_of tmo (g i) \<noteq> None")
  case False
  then obtain m where "m < n" "failure_of tmo (g m) = None" by auto
  then obtain m where m: "m < n" "failure_of tmo (g m) = None"
    and least: "\<forall>i<m. failure_of tmo (g i) \<noteq> None"
    using exists_least_iff[of "\<lambda>i. i < n \<and> failure_of tmo (g i) = None"] by (metis order.strict_trans)
  then have "\<exists>a. g m = Some (Inr a)" by (cases "g m"; cases "the (g m)") auto
  with m least show ?thesis by blast
qed simp

lemma fo_after_new_down:
  "0 < m \<Longrightarrow> 0 < length servers \<Longrightarrow>
   preferred_down (fo_after clk att name servers 0 e new_failover m) =
     Some (clk (env_after att name servers 0 e 1))"
proof (induction m)
  case (Suc m)
  show ?case
  proof (cases m)
    case 0
    then show ?thesis by (simp add: note_failure_def new_failover_def with_retry_after_def Let_def)
  next
    case (Suc k)
    with Suc.IH Suc.prems show ?thesis by (simp add: note_failure_down)
  qed
qed simp

lemma start_new [simp]: "start_index t new_failover = (0, new_failover)"
  by (simp add: start_index_def new_failover_def with_retry_after_def)

lemma failover_keeps_range:
  assumes "current f < length servers"
  shows "current (fst (snd (resolve_with_failover clk att name servers tmo f e))) < length servers"
proof -
  obtain start f1 where s: "start_index (clk e) f = (start, f1)" by fastforce
  note c = start_index_current[OF s] start_index_less[OF s assms]
  from assms have pos: "0 < length servers" by linarith
  from first_answer[of "length servers" tmo "outcome att name servers start e"] show ?thesis
  proof (elim disjE exE conjE)
    assume "\<forall>i<length servers. failure_of tmo (outcome att name servers start e i) \<noteq> None"
    with resolve_all_fail[where clk = clk and e = e, OF s] c
      fo_after_current[of f1 start servers clk att name e "length servers"]
    show ?thesis by simp
  next
    fix m a assume "m < length servers" "outcome att name servers start e m = Some (Inr a)"
      "\<forall>i<m. failure_of tmo (outcome att name servers start e i) \<noteq> None"
    with resolve_answer[where clk = clk and e = e, OF s] show ?thesis
      by (simp add: mod_less_divisor[OF pos])
  qed
qed

definition wf_resolver :: "NameResolver \<Rightarrow> bool" where
  "wf_resolver r \<longleftrightarrow>
     (1 < length (nameservers r) \<longrightarrow> (\<exists>f. failover r = Some f \<and> current f < length (nameservers r)))"

section \<open>Nameserver lists and key names\<close>



lemma trim_start_subset: "set (trim_start s) \<subseteq> set s"
proof (induction s rule: trim_start.induct)
  case (1 s)
  then show ?case using set_drop_subset[of "ws_len s" s] by (simp add: trim_start.simps[of s]) blast
qed

lemma drop_ws_rev_subset: "set (drop_ws_rev s) \<subseteq> set s"
proof (induction s rule: drop_ws_rev.induct)
  case (1 s)
  then show ?case using set_drop_subset[of "ws_len_rev s" s] by (simp add: drop_ws_rev.simps[of s]) blast
qed

lemma trim_subset: "set (trim s) \<subseteq> set s"
  using trim_start_subset[of s] drop_ws_rev_subset[of "rev (trim_start s)"]
  by (auto simp: trim_def trim_end_def)

lemma parse_nameservers_join:
  "\<forall>n\<in>set ns. n \<noteq> [] \<and> CHR '','' \<notin> set n \<and> trim n = n \<Longrightarrow> parse_nameservers (join '','' ns) = ns"
proof (cases "ns = []")
  case True
  then show ?thesis by (simp add: parse_nameservers_def trim_def trim_start.simps trim_end_def drop_ws_rev.simps)
next
  case False
  assume a: "\<forall>n\<in>set ns. n \<noteq> [] \<and> CHR '','' \<notin> set n \<and> trim n = n"
  with False have "str_split (CHR '','') (join '','' ns) = ns" by (simp add: str_split_join)
  moreover have "map trim ns = ns" using a by (simp add: map_idI)
  ultimately show ?thesis using a by (simp add: parse_nameservers_def filter_id_conv)
qed

lemma pk_not_literal: "parse_ipv6 (s @ NAME_MAPPING_SUFFIX) = None"
proof (cases "parse_ipv6 (s @ NAME_MAPPING_SUFFIX)")
  case (Some a)
  then have "addr_char (CHR ''k'')" using parse_ipv6_chars[OF Some] by (simp add: NAME_MAPPING_SUFFIX_def)
  then show ?thesis by (simp add: addr_char_def is_radix_digit_def digit_val_def)
qed simp

lemma hex_no_suffix:
  assumes "list_all (is_radix_digit 16) h" and "h \<noteq> []"
  shows "\<not> ends_with NAME_MAPPING_SUFFIX (sub @ h)"
proof
  assume "ends_with NAME_MAPPING_SUFFIX (sub @ h)"
  then obtain p where "sub @ h = p @ ''.pk.yg'' @ ''g''" by (auto simp: ends_with_iff NAME_MAPPING_SUFFIX_def)
  then have "last (sub @ h) = CHR ''g''" by simp
  with assms have "is_radix_digit 16 (CHR ''g'')" by (metis last_appendR last_in_set list_all_iff)
  then show False by (simp add: is_radix_digit_def digit_val_def)
qed

lemma pk_label_hex:
  assumes "list_all (is_radix_digit 16) h" and "h \<noteq> []" and "sub = [] \<or> (\<exists>q. sub = q @ ''.'')"
  shows "pk_label (sub @ h @ NAME_MAPPING_SUFFIX) = h"
proof -
  have "trim_end_str NAME_MAPPING_SUFFIX ((sub @ h) @ NAME_MAPPING_SUFFIX) = sub @ h"
    using hex_no_suffix[OF assms(1,2), of sub]
    by (subst trim_end_str_append) (simp_all add: NAME_MAPPING_SUFFIX_def trim_end_str_stop)
  moreover have nodot: "CHR ''.'' \<notin> set h"
    using assms(1) by (rule list_all_radix_not_in) simp
  moreover have "\<exists>p ps. str_split (CHR ''.'') (q @ CHR ''.'' # h) = p # ps @ [h]" for q
  proof (induction q)
    case Nil
    then show ?case using nodot by (simp add: str_split_single)
  next
    case (Cons x q)
    then obtain p ps where "str_split (CHR ''.'') (q @ CHR ''.'' # h) = p # ps @ [h]" by blast
    then show ?case by (auto intro: exI[of _ "_ # _"])
  qed
  then have "last (str_split (CHR ''.'') (q @ CHR ''.'' # h)) = h" for q
    by (metis append_Cons last_snoc)
  ultimately show ?thesis using assms(3) by (auto simp: pk_label_def str_split_single)
qed

section \<open>Properties\<close>

text \<open>C3. The failover walk asks the servers one after the other from the cursor,
  wrapping around, each at most once.  The first one that answers decides: its address, or the
  no-record error when it has none; the cursor then stays on that server.  When every server
  fails, the result is the all-failed error with the last failure, and the cursor is back
  where the walk began.\<close>

theorem failover_tries_in_order:
  assumes s: "start_index (clk e) f = (start, f1)" and range: "current f < length servers"
  shows "(\<forall>m a. m < length servers \<and> outcome att name servers start e m = Some (Inr a) \<and>
        (\<forall>i<m. failure_of tmo (outcome att name servers start e i) \<noteq> None) \<longrightarrow>
        (\<exists>f'. resolve_with_failover clk att name servers tmo f e =
           ((case a of Ip ip \<Rightarrow> Inr ip | NoRecord \<Rightarrow> Inl (no_record_msg name)), f',
            env_after att name servers start e (Suc m)) \<and>
           current f' = (start + m) mod length servers)) \<and>
    ((\<forall>i<length servers. failure_of tmo (outcome att name servers start e i) \<noteq> None) \<longrightarrow>
        (\<exists>f' err. failure_of tmo (outcome att name servers start e (length servers - 1)) = Some err \<and>
           resolve_with_failover clk att name servers tmo f e =
             (Inl (all_failed_msg (length servers) name err), f',
              env_after att name servers start e (length servers)) \<and>
           current f' = start))"
proof -
  note c = start_index_current[OF s] start_index_less[OF s range]
  note ans = resolve_answer[where clk = clk and e = e, OF s]
  note allf = resolve_all_fail[where clk = clk and e = e, OF s]
  from range have pos: "length servers - 1 < length servers" by linarith
  show ?thesis
    using ans allf c fo_after_current[of f1 start servers clk att name e] pos
    by (auto simp: err_after_def)
qed

text \<open>Two servers, the first of which always fails.\<close>

definition demo_att :: "instant attempt" where
  "demo_att name ns t = (if ns = ''p'' then (Some (Inl ''down''), t + 1) else (Some (Inr (Ip 7)), t + 1))"

theorem failover_tries_in_order_witness:
  "\<exists>f'. resolve_with_failover id demo_att ''n'' [''p'', ''q''] ATTEMPT_TIMEOUT new_failover 0 = (Inr 7, f', 2) \<and>
     current f' = 1"
proof -
  have o: "outcome demo_att ''n'' [''p'', ''q''] 0 0 1 = Some (Inr (Ip 7))"
    "outcome demo_att ''n'' [''p'', ''q''] 0 0 0 = Some (Inl ''down'')"
    "env_after demo_att ''n'' [''p'', ''q''] 0 0 (Suc 1) = 2"
    by (simp_all add: outcome_def demo_att_def)
  have "current new_failover < length [''p'', ''q'']" by (simp add: new_failover_def with_retry_after_def)
  from failover_tries_in_order[of id "0 :: nat" new_failover 0 new_failover "[''p'', ''q'']" demo_att "''n''"
      ATTEMPT_TIMEOUT, OF _ this, THEN conjunct1, rule_format, of 1 "Ip 7"] o
  show ?thesis by (auto simp: less_Suc_eq)
qed

text \<open>From a new resolver, when the preferred server fails and a fallback answers,
  lookups during the next sixty seconds start at that fallback; the first one after that starts
  at the preferred server again.\<close>

theorem fallback_sticks_for_cooldown:
  assumes "0 < m" and "m < length servers" and "outcome att name servers 0 e m = Some (Inr a)"
    and "\<forall>i<m. failure_of tmo (outcome att name servers 0 e i) \<noteq> None"
    and "resolve_with_failover clk att name servers tmo new_failover e = (res, f', e')"
  shows "fst (start_index t f') =
    (if t - clk (env_after att name servers 0 e 1) < from_secs 60 then m else 0)"
proof -
  have pos: "0 < length servers" using assms(2) by linarith
  have "f' = note_success m (fo_after clk att name servers 0 e new_failover m)"
    using resolve_answer[of clk e new_failover 0 new_failover m servers tmo att name a] assms by simp
  with assms(1) fo_after_new_down[OF assms(1) pos, of clk att name e] show ?thesis
    by (simp add: start_index_def fo_after_retry new_failover_def with_retry_after_def
        RETRY_PREFERRED_AFTER_def duration_since_def)
qed

theorem fallback_sticks_for_cooldown_witness:
  "fst (start_index 5 (fst (snd (resolve_with_failover id demo_att ''n'' [''p'', ''q''] ATTEMPT_TIMEOUT
      new_failover 0)))) = 1"
proof -
  have o: "outcome demo_att ''n'' [''p'', ''q''] 0 0 1 = Some (Inr (Ip 7))"
    "outcome demo_att ''n'' [''p'', ''q''] 0 0 0 = Some (Inl ''down'')"
    by (simp_all add: outcome_def demo_att_def)
  obtain res f' e' where r: "resolve_with_failover id demo_att ''n'' [''p'', ''q''] ATTEMPT_TIMEOUT
      new_failover 0 = (res, f', e')" using prod_cases3 by blast
  from fallback_sticks_for_cooldown[of 1 "[''p'', ''q'']", OF _ _ o(1) _ r, of 5] o(2) r
  show ?thesis by (simp add: from_secs_def demo_att_def)
qed

text \<open>The time at which the preferred server went down is not renewed when a re-probe
  fails.  Once the cooldown has passed with the preferred server still down, every later lookup,
  however soon, starts at the preferred server again: the resolver no longer rests on the
  fallback that answers.\<close>

theorem dead_primary_probed_every_lookup:
  assumes "preferred_down f = Some since" and "retry_preferred_after f \<le> clk e - since"
    and "current f < length servers" and "current f \<noteq> 0"
    and "0 < m" and "m < length servers" and "outcome att name servers 0 e m = Some (Inr a)"
    and "\<forall>i<m. failure_of tmo (outcome att name servers 0 e i) \<noteq> None"
    and "resolve_with_failover clk att name servers tmo f e = (res, f', e')"
    and "clk e \<le> t"
  shows "current f' = m \<and> fst (start_index t f') = 0"
proof -
  have s: "start_index (clk e) f = (0, f\<lparr>current := 0\<rparr>)"
    using assms(1,2,4) by (simp add: start_index_def duration_since_def)
  have "f' = note_success m (fo_after clk att name servers 0 e (f\<lparr>current := 0\<rparr>) m)"
    using resolve_answer[of clk e f 0 "f\<lparr>current := 0\<rparr>" m servers tmo att name a, OF s] assms by simp
  with assms fo_after_down[of "f\<lparr>current := 0\<rparr>" since clk att name servers 0 e m] show ?thesis
    by (simp add: start_index_def fo_after_retry duration_since_def)
qed

theorem dead_primary_probed_every_lookup_witness:
  "\<exists>f'. resolve_with_failover id demo_att ''n'' [''p'', ''q''] ATTEMPT_TIMEOUT
      \<lparr>current = 1, preferred_down = Some 0, retry_preferred_after = 60\<rparr> 61 = (Inr 7, f', 63) \<and>
    current f' = 1 \<and> fst (start_index 64 f') = 0"
proof -
  let ?f = "\<lparr>current = 1, preferred_down = Some 0, retry_preferred_after = 60\<rparr>"
  have o: "outcome demo_att ''n'' [''p'', ''q''] 0 61 1 = Some (Inr (Ip 7))"
    "outcome demo_att ''n'' [''p'', ''q''] 0 61 0 = Some (Inl ''down'')"
    by (simp_all add: outcome_def demo_att_def)
  obtain f' where r: "resolve_with_failover id demo_att ''n'' [''p'', ''q''] ATTEMPT_TIMEOUT ?f 61 =
      (Inr 7, f', 63)"
    by (simp add: resolve_with_failover_def start_index_def duration_since_def demo_att_def upt_rec)
  from dead_primary_probed_every_lookup[of ?f 0 id 61 "[''p'', ''q'']" 1, OF _ _ _ _ _ _ o(1) _ r, of 64] o(2) r
  show ?thesis by simp
qed

lemma parsed_response:
  assumes "wf_name q" and "list_all wf_rr rrs" and "length rrs < 65536"
  shows "parsed_aaaa (response_bytes ident flags q counts rrs rest) = first_aaaa rrs"
  using parse_response[OF assms] by (simp add: parsed_aaaa_def)

lemma truncation_flag:
  "response_bytes ident flags q counts rrs rest ! 2 AND 2 = (ucast (drop_bit 8 flags) :: u8) AND 2 \<and>
   3 \<le> length (response_bytes ident flags q counts rrs rest)"
  by (simp add: response_bytes_def u16_to_be_bytes_expand)

text \<open>C32. When a server answers the first UDP query with a well-formed response that is not
  truncated, the lookup ends there, with no second query and no TCP connection: the answer is
  the first AAAA record, or no record.  The response code is not looked at, so a server failure
  or refusal counts as an authoritative absence.\<close>

theorem udp_reply_decides_lookup:
  assumes "nameserver_addr ns = Inr addr"
    and "dns_lookup_udp ops (build_dns_query name 28) addr 10 e =
      (Inr (response_bytes ident flags q counts rrs rest), e1)"
    and "wf_name q" and "list_all wf_rr rrs" and "length rrs < 65536"
    and "(ucast (drop_bit 8 flags) :: u8) AND 2 = 0"
  shows "dns_lookup_ipv6 ops name ns e =
    (Inr (case first_aaaa rrs of Some ip \<Rightarrow> Ip ip | None \<Rightarrow> NoRecord), e1)"
  using assms truncation_flag[of ident flags q counts rrs rest]
  by (simp add: dns_lookup_ipv6_def answer_of_def parsed_response)

text \<open>A network whose every UDP exchange is answered with a fixed reply; the environment counts
  the datagrams sent.\<close>

definition demo_ops :: "bytes \<Rightarrow> nat net_ops" where
  "demo_ops reply = \<lparr>now = (\<lambda>e. 0), udp_open = (\<lambda>e. (Inr 0, e)),
     udp_send_to = (\<lambda>h q a e. (Inr (), Suc e)),
     udp_recv_within = (\<lambda>d h n e. (Some (Inr (take n reply)), e)), udp_drop = (\<lambda>h e. e),
     tcp_dial = (\<lambda>a e. (Inl ''refused'', e)), tcp_write_all = (\<lambda>h b e. (Inl ''closed'', e)),
     tcp_read_exact = (\<lambda>h n e. (Inl ''closed'', e)), tcp_drop = (\<lambda>h e. e)\<rparr>"

text \<open>A server failure (response code 2) from the first of the servers.\<close>

theorem udp_reply_decides_lookup_witness:
  "dns_lookup_ipv6 (demo_ops (response_bytes 1 0x8182 \<lparr>labels = [], name_end = Root\<rparr> 0 [] [])) ''x''
     (show_socket (SockV4 1 53)) 0 = (Inr NoRecord, 1)"
proof -
  let ?q = "\<lparr>labels = [], name_end = Root\<rparr>"
  let ?r = "response_bytes 1 0x8182 ?q 0 [] []"
  have a: "nameserver_addr (show_socket (SockV4 1 53)) = Inr (SockV4 1 53)"
    using parse_socket_show[of "SockV4 1 53"] by (simp only: nameserver_addr_def) simp
  have "take 4096 ?r = ?r"
    by (simp add: response_bytes_def name_bytes_def u16_to_be_bytes_expand)
  then have u: "dns_lookup_udp (demo_ops ?r) (build_dns_query ''x'' 28) (SockV4 1 53) 10 0 = (Inr ?r, 1)"
    by (simp add: dns_lookup_udp_def demo_ops_def)
  from udp_reply_decides_lookup[OF a u] show ?thesis
    by (simp add: wf_name_def first_aaaa_def)
qed

text \<open>An address literal resolves to itself, and a \<open>.pk.ygg\<close> name whose last label
  before the suffix is a hexadecimal public key resolves to the address of that key (or to the
  key-length error), in both cases without touching the network or the failover state, with or
  without nameservers and whatever subdomain precedes the key.\<close>

theorem resolve_without_network:
  "resolve ops timeout hex_decode addr_for_key r (show_ipv6 a) e = (Inr a, r, e) \<and>
   (list_all (is_radix_digit 16) h \<and> h \<noteq> [] \<and> (sub = [] \<or> (\<exists>p. sub = p @ ''.'')) \<and>
    hex_decode h = Inr key \<longrightarrow>
    resolve ops timeout hex_decode addr_for_key r (sub @ h @ NAME_MAPPING_SUFFIX) e =
      (if length key = 32 then Inr (v6_of_octets (addr_for_key key))
       else Inl (''public key must be 32 bytes, got '' @ show_nat (length key)), r, e))"
proof -
  have "parse_ipv6 (sub @ h @ NAME_MAPPING_SUFFIX) = None" using pk_not_literal[of "sub @ h"] by simp
  moreover have "ends_with NAME_MAPPING_SUFFIX (sub @ h @ NAME_MAPPING_SUFFIX)"
    unfolding ends_with_iff by (metis append_assoc)
  ultimately show ?thesis using pk_label_hex[of h sub] by (auto simp: resolve_def)
qed

theorem resolve_without_network_witness:
  "resolve (demo_ops []) (\<lambda>d f e. (None, e)) (\<lambda>s. Inr (replicate 32 0)) (\<lambda>k. replicate 16 2)
     (new_resolver []) ''www.0a.pk.ygg'' 0 = (Inr (v6_of_octets (replicate 16 2)), new_resolver [], 0)"
  using resolve_without_network[of "demo_ops []" "\<lambda>d f e. (None, e)" "\<lambda>s. Inr (replicate 32 0)"
      "\<lambda>k. replicate 16 2" "new_resolver []" 0 0 "''0a''" "''www.''" "replicate 32 0"]
  by (simp add: is_radix_digit_def digit_val_def NAME_MAPPING_SUFFIX_def)

text \<open>A resolver built from any nameserver list is well formed (with two or more servers
  it has a failover state whose cursor is a valid server index), and every lookup keeps it so:
  the \<open>unwrap\<close> of the failover state and the indexing of the server list cannot panic.  The
  server list is never changed by a lookup.\<close>

theorem resolver_invariant:
  "wf_resolver (new_resolver s) \<and>
   (wf_resolver r \<longrightarrow>
      (case resolve ops timeout hex_decode addr_for_key r name e of (res, r', e') \<Rightarrow>
         wf_resolver r' \<and> nameservers r' = nameservers r))"
proof -
  let ?att = "\<lambda>nm ns. timeout ATTEMPT_TIMEOUT (dns_lookup_ipv6 ops nm ns)"
  obtain res1 f1 e1 where r1: "resolve_with_failover (now ops) ?att name (nameservers r) ATTEMPT_TIMEOUT
      (the (failover r)) e = (res1, f1, e1)" using prod_cases3 by blast
  have "wf_resolver (new_resolver s)"
    by (auto simp: wf_resolver_def new_resolver_def Let_def new_failover_def with_retry_after_def)
  moreover have "wf_resolver (r\<lparr>failover := Some f1\<rparr>)" if "wf_resolver r"
  proof (cases "1 < length (nameservers r)")
    case True
    with that have "current (the (failover r)) < length (nameservers r)"
      by (auto simp: wf_resolver_def)
    from failover_keeps_range[OF this, of "now ops" ?att name ATTEMPT_TIMEOUT e] r1 show ?thesis
      by (simp add: wf_resolver_def)
  qed (simp add: wf_resolver_def)
  ultimately show ?thesis
    by (auto simp: resolve_def r1 split: option.splits prod.splits sum.splits DnsAnswer.splits)
qed

theorem resolver_invariant_witness:
  "wf_resolver (new_resolver ''a,b'') \<and>
   (case resolve (demo_ops []) (\<lambda>d f e. (None, e)) (\<lambda>s. Inl ''x'') id (new_resolver ''a,b'') ''n'' 0 of
      (res, r', e') \<Rightarrow> wf_resolver r' \<and> nameservers r' = nameservers (new_resolver ''a,b''))"
proof -
  note inv = resolver_invariant[of "''a,b''" "new_resolver ''a,b''" "demo_ops []" "\<lambda>d f e. (None, e)"
      "\<lambda>s. Inl ''x''" id "''n''" 0]
  show ?thesis by (rule conjI[OF conjunct1[OF inv] mp[OF conjunct2[OF inv] conjunct1[OF inv]]])
qed

text \<open>A comma-separated list of clean entries (not empty, no comma, no surrounding
  white space) is read back exactly, in order; whatever the input, no entry is empty or holds
  a comma.\<close>

theorem nameservers_roundtrip:
  "((\<forall>n\<in>set ns. n \<noteq> [] \<and> CHR '','' \<notin> set n \<and> trim n = n) \<longrightarrow> parse_nameservers (join '','' ns) = ns) \<and>
   (\<forall>n\<in>set (parse_nameservers s). n \<noteq> [] \<and> CHR '','' \<notin> set n)"
  using parse_nameservers_join[of ns] trim_subset str_split_no_sep[of _ "CHR '',''" s]
  by (fastforce simp: parse_nameservers_def)

theorem nameservers_roundtrip_witness: "parse_nameservers ''a,b'' = [''a'', ''b'']"
  using nameservers_roundtrip[of "[''a'', ''b'']" "[]"]
  by (simp add: trim_id ws_byte_def)

end
