(* ===== verification/Std_Io.thy ===== *)
theory Std_Io
  imports Std_Text
begin

text \<open>
  \<open>std::io::Error\<close> as a kind and a message, UTF-8 validation as \<open>str::from_utf8\<close> does it, and
  the CRLF line structure of the text protocols.
\<close>

datatype error_kind =
    InvalidData | InvalidInput | UnexpectedEof | ConnectionRefused | ConnectionReset | BrokenPipe | NotConnected
  | PermissionDenied | AddrInUse | AddrNotAvailable | TimedOut | Unsupported | Other | Os_Error nat

datatype io_error = Io error_kind string

definition io_other :: "string \<Rightarrow> io_error" where
  "io_other msg = Io Other msg"

section \<open>UTF-8\<close>

abbreviation byte_val :: "char \<Rightarrow> nat" where
  "byte_val c \<equiv> of_char c"

definition in_range :: "nat \<Rightarrow> nat \<Rightarrow> char \<Rightarrow> bool" where
  "in_range lo hi c \<longleftrightarrow> lo \<le> byte_val c \<and> byte_val c \<le> hi"

definition cont :: "char \<Rightarrow> bool" where
  "cont c \<longleftrightarrow> in_range 0x80 0xBF c"

definition utf8_two :: "char \<Rightarrow> char \<Rightarrow> bool" where
  "utf8_two a b \<longleftrightarrow> in_range 0xC2 0xDF a \<and> cont b"

definition utf8_three :: "char \<Rightarrow> char \<Rightarrow> char \<Rightarrow> bool" where
  "utf8_three a b c \<longleftrightarrow> cont c \<and>
     ((byte_val a = 0xE0 \<and> in_range 0xA0 0xBF b) \<or>
      (in_range 0xE1 0xEC a \<and> cont b) \<or>
      (byte_val a = 0xED \<and> in_range 0x80 0x9F b) \<or>
      (in_range 0xEE 0xEF a \<and> cont b))"

definition utf8_four :: "char \<Rightarrow> char \<Rightarrow> char \<Rightarrow> char \<Rightarrow> bool" where
  "utf8_four a b c d \<longleftrightarrow> cont c \<and> cont d \<and>
     ((byte_val a = 0xF0 \<and> in_range 0x90 0xBF b) \<or>
      (in_range 0xF1 0xF3 a \<and> cont b) \<or>
      (byte_val a = 0xF4 \<and> in_range 0x80 0x8F b))"

fun utf8_valid :: "string \<Rightarrow> bool" where
  "utf8_valid [] = True"
| "utf8_valid [a] = (byte_val a < 0x80)"
| "utf8_valid [a, b] =
     (if byte_val a < 0x80 then utf8_valid [b] else utf8_two a b)"
| "utf8_valid [a, b, c] =
     (if byte_val a < 0x80 then utf8_valid [b, c]
      else if utf8_two a b then utf8_valid [c] else utf8_three a b c)"
| "utf8_valid (a # b # c # d # s) =
     (if byte_val a < 0x80 then utf8_valid (b # c # d # s)
      else if utf8_two a b then utf8_valid (c # d # s)
      else if utf8_three a b c then utf8_valid (d # s)
      else utf8_four a b c d \<and> utf8_valid s)"

lemma utf8_valid_ascii: "list_all (\<lambda>c. byte_val c < 0x80) s \<Longrightarrow> utf8_valid s"
  by (induction s rule: utf8_valid.induct) simp_all

section \<open>Lines\<close>

abbreviation CR :: char where "CR \<equiv> CHR 0x0D"
abbreviation LF :: char where "LF \<equiv> CHR 0x0A"

definition crlf :: string where
  "crlf = [CR, LF]"

text \<open>\<open>str::split("\r\n")\<close>.\<close>

fun split_crlf :: "string \<Rightarrow> string list" where
  "split_crlf [] = [[]]"
| "split_crlf [x] = [[x]]"
| "split_crlf (x # y # s) =
     (if x = CR \<and> y = LF then [] # split_crlf s
      else (case split_crlf (y # s) of p # ps \<Rightarrow> (x # p) # ps | [] \<Rightarrow> [[x]]))"

fun has_crlf :: "string \<Rightarrow> bool" where
  "has_crlf (x # y # s) = ((x = CR \<and> y = LF) \<or> has_crlf (y # s))"
| "has_crlf _ = False"

lemma split_crlf_not_Nil [simp]: "split_crlf s \<noteq> []"
  by (induction s rule: split_crlf.induct) (auto split: list.splits)

lemma split_crlf_single: "\<not> has_crlf s \<Longrightarrow> split_crlf s = [s]"
  by (induction s rule: split_crlf.induct) auto

lemma split_crlf_append: "\<not> has_crlf l \<Longrightarrow> split_crlf (l @ crlf @ s) = l # split_crlf s"
proof (induction l rule: has_crlf.induct)
  case (1 x y l)
  then show ?case by auto
qed (auto simp: crlf_def)

lemma split_crlf_join:
  "ls \<noteq> [] \<Longrightarrow> \<forall>l\<in>set ls. \<not> has_crlf l \<Longrightarrow> split_crlf (join crlf ls) = ls"
proof (induction ls)
  case (Cons l ls)
  then show ?case
    by (cases "ls = []") (simp_all add: split_crlf_single split_crlf_append join_Cons)
qed simp

lemma split_crlf_no_crlf: "l \<in> set (split_crlf s) \<Longrightarrow> \<not> has_crlf l"
proof (induction s arbitrary: l rule: split_crlf.induct)
  case (3 x y s)
  show ?case
  proof (cases "x = CR \<and> y = LF")
    case True
    with 3 show ?thesis by auto
  next
    case False
    obtain p ps where pp: "split_crlf (y # s) = p # ps" by (cases "split_crlf (y # s)") auto
    have ih: "\<not> has_crlf p" using "3.IH"(2)[OF False] pp by simp
    have hd: "p = [] \<or> hd p = y"
      using pp by (cases s) (auto split: if_splits list.splits)
    show ?thesis
    proof (cases "l = x # p")
      case True
      with ih hd False show ?thesis by (cases p) auto
    next
      case ne: False
      with "3.prems" False pp "3.IH"(2)[OF False, of l] show ?thesis by auto
    qed
  qed
qed auto

lemma join_split_crlf: "join crlf (split_crlf s) = s"
proof (induction s rule: split_crlf.induct)
  case (3 x y s)
  show ?case
  proof (cases "x = CR \<and> y = LF")
    case True
    with 3 show ?thesis by (simp add: join_Cons crlf_def)
  next
    case False
    obtain p ps where pp: "split_crlf (y # s) = p # ps" by (cases "split_crlf (y # s)") auto
    with 3 False show ?thesis by (cases ps) auto
  qed
qed auto

lemma has_crlf_iff: "has_crlf s \<longleftrightarrow> (\<exists>p q. s = p @ crlf @ q)"
proof
  show "has_crlf s \<Longrightarrow> \<exists>p q. s = p @ crlf @ q"
  proof (induction s rule: has_crlf.induct)
    case (1 x y s)
    show ?case
    proof (cases "x = CR \<and> y = LF")
      case True
      then show ?thesis by (intro exI[of _ "[]"] exI[of _ s]) (simp add: crlf_def)
    next
      case False
      with 1 obtain p q where "y # s = p @ crlf @ q" by auto
      then show ?thesis by (intro exI[of _ "x # p"] exI[of _ q]) simp
    qed
  qed simp_all
next
  have "has_crlf (p @ crlf @ q)" for p q
    by (induction p rule: has_crlf.induct) (auto simp: crlf_def)
  then show "\<exists>p q. s = p @ crlf @ q \<Longrightarrow> has_crlf s" by blast
qed

lemma has_crlf_infix: "has_crlf b \<Longrightarrow> has_crlf (a @ b @ c)"
  unfolding has_crlf_iff by (metis append.assoc)

lemma no_crlf_take_drop: "\<not> has_crlf s \<Longrightarrow> \<not> has_crlf (take n s)" "\<not> has_crlf s \<Longrightarrow> \<not> has_crlf (drop n s)"
  using has_crlf_infix[of "take n s" "[]" "drop n s"] has_crlf_infix[of "drop n s" "take n s" "[]"] by auto

lemma ends_with_crlf_last:
  assumes "ls \<noteq> []" and "last ls \<noteq> []" and "\<not> has_crlf (last ls)"
  shows "\<not> ends_with crlf (join crlf ls)"
proof
  assume "ends_with crlf (join crlf ls)"
  then obtain p where p: "join crlf ls = p @ crlf" by (auto simp: ends_with_iff)
  from assms(1,2) have "\<exists>q. join crlf ls = q @ last ls \<and> (q = [] \<or> (\<exists>q'. q = q' @ crlf))"
  proof (induction ls)
    case (Cons l ls)
    show ?case
    proof (cases "ls = []")
      case False
      with Cons obtain q where "join crlf ls = q @ last ls" "q = [] \<or> (\<exists>q'. q = q' @ crlf)" by auto
      with False show ?thesis
        by (intro exI[of _ "l @ crlf @ q"]) (auto simp: join_Cons)
    qed simp
  qed simp
  then obtain q where q: "join crlf ls = q @ last ls" "q = [] \<or> (\<exists>q'. q = q' @ crlf)" by blast
  let ?l = "last ls"
  from p q have eq: "q @ ?l = p @ [CR] @ [LF]" by (simp add: crlf_def)
  then have lf: "last ?l = LF" using assms(2) by (metis append.assoc last_appendR last_snoc)
  show False
  proof (cases "butlast ?l")
    case Nil
    with assms(2) lf have "?l = [LF]" by (metis append_Nil append_butlast_last_id)
    with eq have "q = p @ [CR]" by simp
    with q(2) show False by (auto simp: crlf_def)
  next
    case (Cons x xs)
    have "?l = butlast ?l @ [LF]" using assms(2) lf by (metis append_butlast_last_id)
    with eq have "q @ butlast ?l = p @ [CR]" by (metis append.assoc butlast_snoc)
    with Cons have "last (butlast ?l) = CR" by (metis last_appendR last_snoc list.distinct(1))
    with Cons \<open>?l = butlast ?l @ [LF]\<close> have "?l = butlast (butlast ?l) @ crlf @ []"
      by (metis append.assoc append_Cons append_Nil append_butlast_last_id crlf_def list.distinct(1))
    with assms(3) show False unfolding has_crlf_iff by blast
  qed
qed

end
