(* ===== verification/Http_Head.thy ===== *)
theory Http_Head
  imports Std_Io Std_Net
begin

text \<open>
  Request heads of the HTTP proxy, \<open>crates/yggstack/src/http_proxy.rs\<close> (its helper functions):
  reading a head from the client, parsing it, working out the origin server and rewriting the
  head for it.  Bytes are characters here; \<open>read_head\<close> runs against the list of results that
  \<open>read\<close> gives, and is still waiting (\<open>None\<close>) when the list runs out.
\<close>

section \<open>Model\<close>

definition MAX_HEAD_BYTES :: nat where
  "MAX_HEAD_BYTES = 16 * 1024"

record Request =
  req_method :: string
  req_target :: string
  req_version :: string
  req_headers :: "string list"

record ForwardTarget =
  fwd_host :: string
  fwd_port :: u16
  origin_form :: string
  fwd_authority :: string

fun find_head_end :: "string \<Rightarrow> nat option" where
  "find_head_end [] = None"
| "find_head_end (x # xs) =
     (if take 4 (x # xs) = crlf @ crlf then Some 0 else map_option Suc (find_head_end xs))"

fun read_head ::
  "string \<Rightarrow> (io_error + string) list \<Rightarrow>
     ((io_error + (string \<times> string)) \<times> (io_error + string) list) option" where
  "read_head buf reads =
     (case find_head_end buf of
        Some pos \<Rightarrow> Some (Inr (take (pos + 4) buf, drop (pos + 4) buf), reads)
      | None \<Rightarrow>
          if MAX_HEAD_BYTES < length buf then Some (Inl (Io InvalidData ''request head too large''), reads)
          else
            (case reads of
               [] \<Rightarrow> None
             | Inl e # rest \<Rightarrow> Some (Inl e, rest)
             | Inr chunk # rest \<Rightarrow>
                 if chunk = [] then Some (Inl (Io UnexpectedEof ''eof in request head''), rest)
                 else read_head (buf @ chunk) rest))"

declare read_head.simps [simp del]

definition parse_request_text :: "string \<Rightarrow> io_error + Request" where
  "parse_request_text text0 =
     (let text = trim_end_str crlf text0;
          lines = split_crlf text
      in case lines of
           [] \<Rightarrow> Inl (Io InvalidData ''empty request head'')
         | request_line # lines \<Rightarrow>
             (case filter (\<lambda>s. s \<noteq> []) (str_split (CHR '' '') request_line) of
                [] \<Rightarrow> Inl (Io InvalidData ''missing method'')
              | [method] \<Rightarrow> Inl (Io InvalidData ''missing request target'')
              | [method, target] \<Rightarrow> Inl (Io InvalidData ''missing HTTP version'')
              | [method, target, version] \<Rightarrow>
                  Inr \<lparr>req_method = method, req_target = target, req_version = version,
                       req_headers = lines\<rparr>
              | _ \<Rightarrow> Inl (Io InvalidData ''malformed request line'')))"

definition parse_request :: "string \<Rightarrow> io_error + Request" where
  "parse_request head =
     (if utf8_valid head then parse_request_text head
      else Inl (Io InvalidData ''non-UTF8 request head''))"

definition split_authority :: "string \<Rightarrow> u16 \<Rightarrow> (string \<times> u16) option" where
  "split_authority authority default_port =
     (case strip_prefix ''['' authority of
        Some rest \<Rightarrow>
          (case str_find (CHR '']'') rest of
             None \<Rightarrow> None
           | Some e \<Rightarrow>
               (case strip_prefix '':'' (drop (e + 1) rest) of
                  Some p \<Rightarrow> map_option (\<lambda>port. (take e rest, port)) (parse_u16 p)
                | None \<Rightarrow> Some (take e rest, default_port)))
      | None \<Rightarrow>
          (case str_rfind (CHR '':'') authority of
             Some i \<Rightarrow> map_option (\<lambda>port. (take i authority, port)) (parse_u16 (drop (i + 1) authority))
           | None \<Rightarrow> Some (authority, default_port)))"

fun find_header :: "string list \<Rightarrow> string \<Rightarrow> string option" where
  "find_header [] name = None"
| "find_header (h # hs) name =
     (case split_once (CHR '':'') h of
        None \<Rightarrow> find_header hs name
      | Some (k, v) \<Rightarrow>
          if eq_ignore_ascii_case (trim k) name then Some (trim v) else find_header hs name)"

definition forward_target :: "Request \<Rightarrow> io_error + ForwardTarget" where
  "forward_target req =
     (case strip_prefix ''http://'' (req_target req) of
        Some rest \<Rightarrow>
          (let (authority, path) =
                 (case str_find (CHR ''/'') rest of
                    Some i \<Rightarrow> (take i rest, drop i rest)
                  | None \<Rightarrow> (rest, ''/''))
           in and_then (ok_or (split_authority authority 80) (Io InvalidData ''bad absolute-URI authority''))
                (\<lambda>(host, port). Inr \<lparr>fwd_host = host, fwd_port = port, origin_form = path,
                                      fwd_authority = authority\<rparr>))
      | None \<Rightarrow>
          if strip_prefix ''/'' (req_target req) \<noteq> None then
            and_then (ok_or (find_header (req_headers req) ''Host'')
                (Io InvalidData ''origin-form request without Host'')) (\<lambda>host_header.
            and_then (ok_or (split_authority host_header 80) (Io InvalidData ''bad Host header''))
              (\<lambda>(host, port). Inr \<lparr>fwd_host = host, fwd_port = port, origin_form = req_target req,
                                    fwd_authority = host_header\<rparr>))
          else Inl (Io InvalidData (''unsupported request target '' @ quoted (req_target req))))"

definition header_name :: "string \<Rightarrow> string" where
  "header_name h = to_ascii_lowercase (trim (hd (str_split (CHR '':'') h)))"

definition hop_by_hop :: "string \<Rightarrow> bool" where
  "hop_by_hop lower \<longleftrightarrow>
     lower = ''proxy-connection'' \<or> lower = ''proxy-authorization'' \<or>
     lower = ''proxy-authentication'' \<or> lower = ''keep-alive''"

text \<open>The header loop: its state is the output so far and the two flags.\<close>

fun rewrite_headers :: "string list \<Rightarrow> string \<times> bool \<times> bool \<Rightarrow> string \<times> bool \<times> bool" where
  "rewrite_headers [] st = st"
| "rewrite_headers (h # hs) (out, have_connection, have_host) =
     (let lower = header_name h in
      if hop_by_hop lower then rewrite_headers hs (out, have_connection, have_host)
      else if lower = ''connection'' then
        rewrite_headers hs
          (if have_connection then out else out @ ''Connection: close'' @ crlf, True, have_host)
      else
        rewrite_headers hs
          (out @ h @ crlf, have_connection, if lower = ''host'' then True else have_host))"

definition rewrite_head :: "Request \<Rightarrow> ForwardTarget \<Rightarrow> string" where
  "rewrite_head req target =
     (let start = req_method req @ '' '' @ origin_form target @ '' '' @ req_version req @ crlf;
          (out, have_connection, have_host) = rewrite_headers (req_headers req) (start, False, False);
          out = (if have_connection then out else out @ ''Connection: close'' @ crlf);
          out = (if have_host then out else out @ ''Host: '' @ fwd_authority target @ crlf)
      in out @ crlf)"

definition simple_response :: "nat \<Rightarrow> string \<Rightarrow> string" where
  "simple_response code reason =
     ''HTTP/1.1 '' @ show_nat code @ '' '' @ reason @ crlf @ ''Content-Length: 0'' @ crlf @
     ''Connection: close'' @ crlf @ crlf"

section \<open>Heads and lines\<close>

lemma find_head_end_Some:
  "find_head_end s = Some i \<Longrightarrow>
   i + 4 \<le> length s \<and> take 4 (drop i s) = crlf @ crlf \<and> (\<forall>j<i. take 4 (drop j s) \<noteq> crlf @ crlf)"
proof (induction s arbitrary: i)
  case (Cons x xs)
  show ?case
  proof (cases "take 4 (x # xs) = crlf @ crlf")
    case True
    have "length (crlf @ crlf) = 4" by (simp add: crlf_def)
    then have "4 \<le> length (x # xs)" using True by (metis length_take min.cobounded1)
    with True Cons.prems show ?thesis by simp
  next
    case False
    with Cons.prems obtain k where "find_head_end xs = Some k" "i = Suc k" by auto
    with Cons.IH[of k] False show ?thesis by (auto simp: less_Suc_eq_0_disj)
  qed
qed simp

lemma find_head_end_None: "find_head_end s = None \<Longrightarrow> take 4 (drop j s) \<noteq> crlf @ crlf"
proof (induction s arbitrary: j)
  case Nil
  then show ?case by (simp add: crlf_def)
next
  case (Cons x xs)
  then show ?case by (cases j) (auto split: if_splits)
qed

lemma find_head_end_line:
  "\<not> has_crlf l \<Longrightarrow>
   find_head_end (l @ crlf @ rest) =
     (if take 2 rest = crlf then Some (length l)
      else map_option (\<lambda>k. k + (length l + 2)) (find_head_end rest))"
proof (induction l)
  case Nil
  show ?case by (simp add: crlf_def option.map_comp comp_def)
next
  case (Cons x l)
  have nl: "\<not> has_crlf l" using Cons.prems by (cases l) auto
  have "take 4 ((x # l) @ crlf @ rest) \<noteq> crlf @ crlf"
    using Cons.prems by (cases l) (auto simp: crlf_def)
  with Cons.IH[OF nl] show ?case by (auto simp: option.map_comp comp_def)
qed

lemma take2_line: "\<not> has_crlf m \<Longrightarrow> take 2 (m @ crlf @ s) = crlf \<longleftrightarrow> m = []"
  by (induction m rule: has_crlf.induct) (auto simp: crlf_def)

lemma find_head_end_lines:
  "\<forall>m\<in>set (l # ls). \<not> has_crlf m \<Longrightarrow>
   find_head_end (join crlf (l # ls) @ crlf @ crlf @ rest) = Some i \<Longrightarrow>
   i \<le> length (join crlf (l # ls)) \<and> (i = length (join crlf (l # ls)) \<longleftrightarrow> (\<forall>m\<in>set ls. m \<noteq> []))"
proof (induction ls arbitrary: l i)
  case Nil
  then show ?case using find_head_end_line[of l "crlf @ rest"] by (simp add: crlf_def)
next
  case (Cons m ms)
  let ?t = "join crlf (m # ms) @ crlf @ crlf @ rest"
  have t2: "take 2 ?t = crlf \<longleftrightarrow> m = []"
  proof -
    have "\<exists>s. ?t = m @ crlf @ s" by (cases ms) auto
    with Cons.prems(1) take2_line[of m] show ?thesis by (metis list.set_intros(1,2))
  qed
  have eq: "join crlf (l # m # ms) @ crlf @ crlf @ rest = l @ crlf @ ?t" by simp
  have len: "length (join crlf (l # m # ms)) = length l + 2 + length (join crlf (m # ms))"
    by (simp add: crlf_def)
  show ?case
  proof (cases "m = []")
    case True
    with t2 Cons.prems eq have "i = length l" using find_head_end_line[of l ?t] by simp
    with True len show ?thesis by simp
  next
    case False
    with t2 Cons.prems eq obtain k where "find_head_end ?t = Some k" "i = k + (length l + 2)"
      using find_head_end_line[of l ?t] by auto
    with Cons.IH[of m k] Cons.prems(1) len False show ?thesis by auto
  qed
qed

lemma find_head_end_exists: "find_head_end (s @ crlf @ crlf @ rest) \<noteq> None"
proof
  assume "find_head_end (s @ crlf @ crlf @ rest) = None"
  from find_head_end_None[OF this, of "length s"] show False by (simp add: crlf_def)
qed

lemma find_head_end_wf:
  assumes "\<forall>m\<in>set (l # ls). \<not> has_crlf m" and "\<forall>m\<in>set ls. m \<noteq> []"
  shows "find_head_end (join crlf (l # ls) @ crlf @ crlf) = Some (length (join crlf (l # ls)))"
  using find_head_end_exists[of "join crlf (l # ls)" "[]"] find_head_end_lines[OF assms(1), of "[]"] assms(2)
  by auto

section \<open>Reading\<close>

definition head_ok :: "string \<Rightarrow> bool" where
  "head_ok head \<longleftrightarrow> 4 \<le> length head \<and> find_head_end head = Some (length head - 4)"

lemma find_head_end_take:
  "find_head_end s = Some i \<Longrightarrow> find_head_end (take (i + 4) s) = Some i"
proof (induction s arbitrary: i)
  case (Cons x xs)
  show ?case
  proof (cases "take 4 (x # xs) = crlf @ crlf")
    case True
    moreover have "find_head_end (crlf @ crlf) = Some 0" by (simp add: crlf_def)
    ultimately show ?thesis using Cons.prems by simp
  next
    case False
    with Cons.prems obtain k where k: "find_head_end xs = Some k" "i = Suc k" by auto
    then have "take 4 (x # take (k + 4) xs) = take 4 (x # xs)" by (simp add: numeral_eq_Suc)
    moreover have "take (i + 4) (x # xs) = x # take (k + 4) xs" by (simp only: k(2) add_Suc take_Suc_Cons)
    ultimately show ?thesis using False Cons.IH[OF k(1)] k(2) by simp
  qed
qed simp

fun chunks :: "(io_error + string) list \<Rightarrow> string" where
  "chunks [] = []"
| "chunks (Inl e # rs) = chunks rs"
| "chunks (Inr c # rs) = c @ chunks rs"

lemma read_head_ok:
  "read_head buf reads = Some (Inr (head, extra), rest) \<Longrightarrow>
   length buf \<le> MAX_HEAD_BYTES + 4096 \<Longrightarrow> \<forall>c. Inr c \<in> set reads \<longrightarrow> length c \<le> 4096 \<Longrightarrow>
   head_ok head \<and> length (head @ extra) \<le> MAX_HEAD_BYTES + 4096 \<and>
   (\<exists>used. reads = used @ rest \<and> head @ extra = buf @ chunks used)"
proof (induction buf reads rule: read_head.induct)
  case (1 buf reads)
  show ?case
  proof (cases "find_head_end buf")
    case (Some pos)
    with "1.prems" have h: "head = take (pos + 4) buf" "extra = drop (pos + 4) buf" "rest = reads"
      by (auto simp: read_head.simps[of buf])
    from find_head_end_Some[OF Some] have "pos + 4 \<le> length buf" by blast
    with h find_head_end_take[OF Some] "1.prems" show ?thesis by (auto simp: head_ok_def)
  next
    case None
    with "1.prems"(1) obtain c rs where r: "reads = Inr c # rs" "c \<noteq> []" "\<not> MAX_HEAD_BYTES < length buf"
      and rec: "read_head (buf @ c) rs = Some (Inr (head, extra), rest)"
      by (auto simp: read_head.simps[of buf reads] split: if_splits list.splits sum.splits)
    from "1.prems"(3) r have "length (buf @ c) \<le> MAX_HEAD_BYTES + 4096"
      "\<forall>c. Inr c \<in> set rs \<longrightarrow> length c \<le> 4096" by auto
    from "1.IH"[OF None r(3,1) refl r(2) rec this] obtain used where
      u: "head_ok head" "length (head @ extra) \<le> MAX_HEAD_BYTES + 4096" and
      s: "rs = used @ rest" "head @ extra = (buf @ c) @ chunks used" by blast
    have "reads = (Inr c # used) @ rest" "head @ extra = buf @ chunks (Inr c # used)"
      using s r by simp_all
    with u show ?thesis by blast
  qed
qed

text \<open>Reading does not go on for ever: every chunk is at least one byte, so after
  \<open>MAX_HEAD_BYTES + 1\<close> results there is an outcome.\<close>

lemma read_head_terminates:
  "MAX_HEAD_BYTES < length buf + length reads \<Longrightarrow> read_head buf reads \<noteq> None"
proof (induction buf reads rule: read_head.induct)
  case (1 buf reads)
  show ?case
  proof (cases "find_head_end buf \<noteq> None \<or> MAX_HEAD_BYTES < length buf")
    case True
    then show ?thesis by (auto simp: read_head.simps[of buf] split: option.splits)
  next
    case False
    then have f: "find_head_end buf = None" "\<not> MAX_HEAD_BYTES < length buf" by auto
    then obtain r rs where r: "reads = r # rs" using "1.prems" by (cases reads) auto
    show ?thesis
    proof (cases r)
      case (Inl e)
      with f r show ?thesis by (simp add: read_head.simps[of buf])
    next
      case (Inr c)
      show ?thesis
      proof (cases "c = []")
        case True
        with f r Inr show ?thesis by (simp add: read_head.simps[of buf])
      next
        case ne: False
        then have "0 < length c" by simp
        then have "MAX_HEAD_BYTES < length (buf @ c) + length rs" using "1.prems" r
          by (simp only: length_append list.size)
        from "1.IH"[OF f(1,2) r[unfolded Inr] refl ne this] f r Inr ne show ?thesis
          by (simp add: read_head.simps[of buf])
      qed
    qed
  qed
qed

section \<open>The rewritten head\<close>

text \<open>The header lines of the rewritten head, as a list.\<close>

fun kept_lines :: "bool \<Rightarrow> string list \<Rightarrow> string list" where
  "kept_lines seen [] = []"
| "kept_lines seen (h # hs) =
     (if hop_by_hop (header_name h) then kept_lines seen hs
      else if header_name h = ''connection'' then
        (if seen then [] else [''Connection: close'']) @ kept_lines True hs
      else h # kept_lines seen hs)"

definition out_headers :: "string list \<Rightarrow> string \<Rightarrow> string list" where
  "out_headers hs authority =
     kept_lines False hs @
     (if ''connection'' \<in> header_name ` set hs then [] else [''Connection: close'']) @
     (if ''host'' \<in> header_name ` set hs then [] else [''Host: '' @ authority])"

lemma rewrite_headers_lines:
  "rewrite_headers hs (out, c, ho) =
     (out @ concat (map (\<lambda>l. l @ crlf) (kept_lines c hs)),
      c \<or> ''connection'' \<in> header_name ` set hs, ho \<or> ''host'' \<in> header_name ` set hs)"
proof (induction hs arbitrary: out c ho)
  case (Cons h hs)
  then show ?case by (auto simp: hop_by_hop_def Let_def)
qed simp

lemma concat_lines: "concat (map (\<lambda>l. l @ sep) ls) = (if ls = [] then [] else join sep ls @ sep)"
  by (induction ls) (auto simp: join_Cons)

definition request_line :: "Request \<Rightarrow> ForwardTarget \<Rightarrow> string" where
  "request_line req target = req_method req @ '' '' @ origin_form target @ '' '' @ req_version req"

lemma rewrite_head_lines:
  "rewrite_head req target =
     join crlf (request_line req target # out_headers (req_headers req) (fwd_authority target)) @ crlf @ crlf"
proof -
  have "concat (map (\<lambda>l. l @ crlf)
      (request_line req target # out_headers (req_headers req) (fwd_authority target))) @ crlf =
    rewrite_head req target"
    by (simp add: rewrite_head_def rewrite_headers_lines out_headers_def request_line_def)
  then show ?thesis unfolding concat_lines by simp
qed

lemma header_name_connection [simp]: "header_name ''Connection: close'' = ''connection''"
  by (simp add: header_name_def trim_id ws_byte_def ws2_def ws3_def to_ascii_lowercase_def ascii_lower_def Let_def char_of_def bit_0)

lemma header_name_host [simp]: "header_name (''Host: '' @ a) = ''host''"
proof -
  have "str_split (CHR '':'') (''Host'' @ CHR '':'' # ('' '' @ a)) = ''Host'' # str_split (CHR '':'') ('' '' @ a)"
    by (rule str_split_append) simp
  then show ?thesis
    by (simp add: header_name_def trim_id ws_byte_def ws2_def ws3_def to_ascii_lowercase_def ascii_lower_def Let_def char_of_def bit_0)
qed

lemma kept_lines_names:
  "l \<in> set (kept_lines c hs) \<Longrightarrow> \<not> hop_by_hop (header_name l) \<and> (l = ''Connection: close'' \<or> l \<in> set hs)"
  by (induction hs arbitrary: c) (auto simp: hop_by_hop_def split: if_splits)

lemma kept_lines_connection:
  "filter (\<lambda>l. header_name l = ''connection'') (kept_lines c hs) =
     (if c \<or> ''connection'' \<notin> header_name ` set hs then [] else [''Connection: close''])"
proof (induction hs arbitrary: c)
  case (Cons h hs)
  then show ?case by (auto simp: hop_by_hop_def)
qed simp

lemma kept_lines_others:
  "filter (\<lambda>l. header_name l \<noteq> ''connection'') (kept_lines c hs) =
   filter (\<lambda>l. header_name l \<noteq> ''connection'' \<and> \<not> hop_by_hop (header_name l)) hs"
  by (induction hs arbitrary: c) auto

lemma join_infix: "p \<in> set ps \<Longrightarrow> \<exists>a b. join sep ps = a @ p @ b"
proof (induction ps)
  case (Cons q ps)
  show ?case
  proof (cases "p \<in> set ps")
    case True
    with Cons obtain a b where "join sep ps = a @ p @ b" by blast
    moreover have "ps \<noteq> []" using True by auto
    ultimately have "join sep (q # ps) = (q @ sep @ a) @ p @ b" by (simp add: join_Cons)
    then show ?thesis by blast
  next
    case False
    with Cons.prems show ?thesis
      by (cases ps) (auto intro: exI[of _ "[]"])
  qed
qed simp

lemma split_piece:
  "p \<in> set (str_split c s) \<Longrightarrow> c \<notin> set p \<and> (\<exists>a b. s = a @ p @ b)"
  using str_split_no_sep[of p c s] join_infix[of p "str_split c s" "[c]"] by (simp add: join_str_split)

lemma parse_request_text_parts:
  assumes "parse_request_text t = Inr req"
  shows "\<exists>rl. split_crlf (trim_end_str crlf t) = rl # req_headers req \<and>
    (\<forall>p \<in> {req_method req, req_target req, req_version req}.
       p \<noteq> [] \<and> CHR '' '' \<notin> set p \<and> \<not> has_crlf p) \<and> (\<forall>h\<in>set (req_headers req). \<not> has_crlf h)"
proof -
  obtain rl ls where l: "split_crlf (trim_end_str crlf t) = rl # ls"
    by (cases "split_crlf (trim_end_str crlf t)") auto
  let ?ps = "filter (\<lambda>s. s \<noteq> []) (str_split (CHR '' '') rl)"
  from assms l have p: "?ps = [req_method req, req_target req, req_version req]" "req_headers req = ls"
    by (auto simp: parse_request_text_def Let_def split: list.splits)
  have "\<not> has_crlf rl" using split_crlf_no_crlf[of rl "trim_end_str crlf t"] l by simp
  then have piece: "q \<noteq> [] \<and> CHR '' '' \<notin> set q \<and> \<not> has_crlf q" if "q \<in> set ?ps" for q
    using that split_piece[of q "CHR '' ''" rl] has_crlf_infix[of q] by auto
  have "\<forall>h\<in>set ls. \<not> has_crlf h" using split_crlf_no_crlf l by (metis list.set_intros(2))
  with piece l p show ?thesis unfolding p(1) by simp
qed

lemma head_ok_headers:
  assumes "head_ok head" and "split_crlf (trim_end_str crlf head) = rl # hs"
  shows "\<forall>h\<in>set hs. h \<noteq> []"
proof -
  let ?i = "length head - 4"
  have f: "find_head_end head = Some ?i" "4 \<le> length head" using assms(1) by (auto simp: head_ok_def)
  then have "head = take ?i head @ crlf @ crlf"
    using find_head_end_Some[OF f(1)] by (metis append_take_drop_id diff_diff_cancel length_drop order_refl take_all)
  then obtain p where p: "head = p @ crlf @ crlf" by blast
  have ne: "crlf \<noteq> []" by (simp add: crlf_def)
  have "trim_end_str crlf ((p @ crlf) @ crlf) = trim_end_str crlf p" by (simp only: trim_end_str_append[OF ne])
  with p have t: "trim_end_str crlf head = trim_end_str crlf p" by simp
  obtain m where m: "p = trim_end_str crlf p @ concat (replicate m crlf)" using trim_end_str_prefix by blast
  have comm: "concat (replicate m crlf) @ crlf @ crlf = crlf @ crlf @ concat (replicate m crlf)"
    by (induction m) simp_all
  have join: "trim_end_str crlf p = join crlf (rl # hs)"
    using join_split_crlf[of "trim_end_str crlf p"] assms(2) t by simp
  have h: "head = join crlf (rl # hs) @ crlf @ crlf @ concat (replicate m crlf)"
    using p m comm join by (metis append.assoc)
  have nc: "\<forall>l\<in>set (rl # hs). \<not> has_crlf l" using split_crlf_no_crlf assms(2) by metis
  have "length (concat (replicate m crlf)) = 2 * m" by (induction m) (simp_all add: crlf_def)
  then have len: "?i = length (join crlf (rl # hs)) + 2 * m" unfolding h by (simp add: crlf_def)
  from find_head_end_lines[OF nc, of "concat (replicate m crlf)" ?i] f(1) h len show ?thesis by auto
qed

lemma no_crlf_append_char:
  "\<not> has_crlf a \<Longrightarrow> \<not> has_crlf b \<Longrightarrow> x \<noteq> CR \<Longrightarrow> x \<noteq> LF \<Longrightarrow> \<not> has_crlf (a @ x # b)"
  by (induction a rule: has_crlf.induct; cases b) auto

lemma trim_infix: "\<exists>a b. s = a @ trim s @ b"
proof -
  have ts: "\<exists>a. s = a @ trim_start s" for s
  proof (induction s rule: trim_start.induct)
    case (1 s)
    show ?case
    proof (cases "ws_len s = 0")
      case False
      with 1 obtain a where "drop (ws_len s) s = a @ trim_start (drop (ws_len s) s)" by blast
      with False show ?thesis
        by (metis append.assoc append_take_drop_id trim_start.simps)
    qed (simp add: trim_start.simps)
  qed
  have tr: "\<exists>a. s = a @ drop_ws_rev s" for s
  proof (induction s rule: drop_ws_rev.induct)
    case (1 s)
    show ?case
    proof (cases "ws_len_rev s = 0")
      case False
      with 1 obtain a where "drop (ws_len_rev s) s = a @ drop_ws_rev (drop (ws_len_rev s) s)" by blast
      with False show ?thesis
        by (metis append.assoc append_take_drop_id drop_ws_rev.simps)
    qed (simp add: drop_ws_rev.simps)
  qed
  obtain a where a: "s = a @ trim_start s" using ts by blast
  obtain b where "rev (trim_start s) = b @ drop_ws_rev (rev (trim_start s))" using tr by blast
  then have "trim_start s = trim s @ rev b" unfolding trim_def trim_end_def by (metis rev_append rev_rev_ident)
  with a show ?thesis by metis
qed

lemma find_header_infix: "find_header hs n = Some v \<Longrightarrow> \<exists>h\<in>set hs. \<exists>a b. h = a @ v @ b"
proof (induction hs)
  case (Cons h hs)
  show ?case
  proof (cases "find_header hs n = Some v")
    case True
    with Cons.IH show ?thesis by auto
  next
    case False
    with Cons.prems obtain k w where kw: "split_once (CHR '':'') h = Some (k, w)" "v = trim w"
      by (auto split: option.splits if_splits)
    then obtain i where "w = drop (Suc i) h" by (auto simp: split_once_def)
    then have "h = take (Suc i) h @ w" by simp
    moreover obtain a b where "w = a @ v @ b" using trim_infix[of w] kw(2) by blast
    ultimately have "h = (take (Suc i) h @ a) @ v @ b" by simp
    then show ?thesis by (metis list.set_intros(1))
  qed
qed simp

lemma forward_target_parts:
  assumes p: "parse_request_text t = Inr req" and f: "forward_target req = Inr tgt"
  shows "origin_form tgt \<noteq> [] \<and> CHR '' '' \<notin> set (origin_form tgt) \<and> \<not> has_crlf (origin_form tgt) \<and>
    \<not> has_crlf (fwd_authority tgt)"
proof -
  from parse_request_text_parts[OF p] have t: "req_target req \<noteq> []" "CHR '' '' \<notin> set (req_target req)"
    "\<not> has_crlf (req_target req)" and hs: "\<forall>h\<in>set (req_headers req). \<not> has_crlf h" by auto
  show ?thesis
  proof (cases "strip_prefix ''http://'' (req_target req)")
    case (Some rest)
    then have r: "req_target req = ''http://'' @ rest" by (simp add: strip_prefix_Some)
    with t(3) have nr: "\<not> has_crlf rest" using has_crlf_infix[of rest "''http://''" "[]"] by auto
    from r t(2) have ns: "CHR '' '' \<notin> set rest" by simp
    show ?thesis
    proof (cases "str_find (CHR ''/'') rest")
      case None
      with f Some nr show ?thesis by (auto simp: forward_target_def)
    next
      case (Some i)
      from str_find_Some[OF this] have "i < length rest" by blast
      with Some f nr ns \<open>strip_prefix ''http://'' (req_target req) = Some rest\<close> no_crlf_take_drop[OF nr]
      show ?thesis by (auto simp: forward_target_def dest: in_set_dropD)
    qed
  next
    case None
    with f obtain hh where "find_header (req_headers req) ''Host'' = Some hh" "fwd_authority tgt = hh"
      "origin_form tgt = req_target req"
      by (auto simp: forward_target_def split: if_splits)
    with find_header_infix hs t show ?thesis by (metis has_crlf_infix)
  qed
qed

lemma kept_lines_set: "l \<in> set (out_headers hs a) \<Longrightarrow> l \<in> set hs \<or> l = ''Connection: close'' \<or> l = ''Host: '' @ a"
  using kept_lines_names[of l False hs] by (auto simp: out_headers_def split: if_splits)

section \<open>Properties\<close>

text \<open>C4. For every head the proxy reads and accepts for forwarding, the head it sends to
  the origin server is one well-formed head: its only blank line is at the end, and parsing it
  gives the client's method and version, the origin form as target, and exactly the computed
  header lines.  Nothing in the request can add a header line or end the head early.\<close>

theorem rewritten_head_parses_back:
  assumes ok: "head_ok head" and p: "parse_request head = Inr req" and f: "forward_target req = Inr tgt"
  shows "head_ok (rewrite_head req tgt) \<and>
    parse_request_text (rewrite_head req tgt) =
      Inr (req\<lparr>req_target := origin_form tgt,
               req_headers := out_headers (req_headers req) (fwd_authority tgt)\<rparr>)"
proof -
  from p have pt: "parse_request_text head = Inr req" by (simp add: parse_request_def split: if_splits)
  from parse_request_text_parts[OF pt] obtain rl0 where
    rl0: "split_crlf (trim_end_str crlf head) = rl0 # req_headers req" and
    parts: "\<forall>p \<in> {req_method req, req_target req, req_version req}. p \<noteq> [] \<and> CHR '' '' \<notin> set p \<and> \<not> has_crlf p"
    and hs: "\<forall>h\<in>set (req_headers req). \<not> has_crlf h" by blast
  note ft = forward_target_parts[OF pt f]
  note ne = head_ok_headers[OF ok rl0]
  let ?rl = "request_line req tgt" and ?ls = "out_headers (req_headers req) (fwd_authority tgt)"
  have nrl: "\<not> has_crlf ?rl"
    using no_crlf_append_char[of "origin_form tgt" "req_version req" "CHR '' ''"]
      no_crlf_append_char[of "req_method req" "origin_form tgt @ CHR '' '' # req_version req" "CHR '' ''"]
      parts ft by (simp add: request_line_def)
  have nls: "\<forall>m\<in>set (?rl # ?ls). \<not> has_crlf m" "\<forall>m\<in>set ?ls. m \<noteq> []"
  proof -
    have "\<not> has_crlf (''Host:'' @ CHR '' '' # fwd_authority tgt)" using ft by (intro no_crlf_append_char) auto
    then have "m \<noteq> [] \<and> \<not> has_crlf m" if "m \<in> set ?ls" for m
      using kept_lines_set[OF that] hs ne by (elim disjE) (auto simp del: has_crlf.simps, simp_all)
    then show "\<forall>m\<in>set (?rl # ?ls). \<not> has_crlf m" "\<forall>m\<in>set ?ls. m \<noteq> []"
      using nrl by auto
  qed
  have lst: "last (?rl # ?ls) \<noteq> []" using nls(2) parts last_in_set[of ?ls]
    by (auto simp: request_line_def)
  have nend: "\<not> ends_with crlf (join crlf (?rl # ?ls))"
    using ends_with_crlf_last[OF _ lst] nls(1) last_in_set[of "?rl # ?ls"] by blast
  have ncr: "crlf \<noteq> []" by (simp add: crlf_def)
  have "trim_end_str crlf ((join crlf (?rl # ?ls) @ crlf) @ crlf) = join crlf (?rl # ?ls)"
    by (simp only: trim_end_str_append[OF ncr] trim_end_str_stop[OF nend])
  then have "trim_end_str crlf (rewrite_head req tgt) = join crlf (?rl # ?ls)"
    by (simp only: rewrite_head_lines append.assoc)
  moreover have "str_split (CHR '' '') ?rl = [req_method req, origin_form tgt, req_version req]"
    using parts ft by (simp add: request_line_def str_split_append str_split_single)
  moreover have "split_crlf (join crlf (?rl # ?ls)) = ?rl # ?ls"
    using nls(1) by (intro split_crlf_join) simp_all
  ultimately have "parse_request_text (rewrite_head req tgt) =
      Inr (req\<lparr>req_target := origin_form tgt, req_headers := ?ls\<rparr>)"
    using parts ft by (simp add: parse_request_text_def)
  moreover have "head_ok (rewrite_head req tgt)"
    using find_head_end_wf[OF nls] by (simp add: rewrite_head_lines head_ok_def crlf_def del: join.simps)
  ultimately show ?thesis by blast
qed

definition demo_head :: string where
  "demo_head = ''GET http://h/p HTTP/1.1'' @ crlf @ ''Proxy-Connection: keep-alive'' @ crlf @
     ''Accept: x'' @ crlf @ crlf"

lemma demo_head_parse:
  "parse_request demo_head = Inr \<lparr>req_method = ''GET'', req_target = ''http://h/p'',
     req_version = ''HTTP/1.1'', req_headers = [''Proxy-Connection: keep-alive'', ''Accept: x'']\<rparr>"
proof -
  have "trim_end_str crlf demo_head = ''GET http://h/p HTTP/1.1'' @ crlf @ ''Proxy-Connection: keep-alive'' @ crlf @ ''Accept: x''"
    by (simp add: demo_head_def crlf_def trim_end_str.simps ends_with_def)
  moreover have "utf8_valid demo_head" by (rule utf8_valid_ascii) (simp add: demo_head_def crlf_def)
  ultimately show ?thesis by (simp add: parse_request_def parse_request_text_def crlf_def)
qed

theorem rewritten_head_parses_back_witness:
  "\<exists>req tgt. parse_request demo_head = Inr req \<and> forward_target req = Inr tgt \<and>
     origin_form tgt = ''/p'' \<and> head_ok (rewrite_head req tgt)"
proof -
  let ?req = "\<lparr>req_method = ''GET'', req_target = ''http://h/p'', req_version = ''HTTP/1.1'',
     req_headers = [''Proxy-Connection: keep-alive'', ''Accept: x'']\<rparr>"
  let ?tgt = "\<lparr>fwd_host = ''h'', fwd_port = 80, origin_form = ''/p'', fwd_authority = ''h''\<rparr>"
  have f: "forward_target ?req = Inr ?tgt" by (simp add: forward_target_def split_authority_def)
  have ok: "head_ok demo_head" by (simp add: head_ok_def demo_head_def crlf_def)
  from rewritten_head_parses_back[OF ok demo_head_parse f] demo_head_parse f show ?thesis by fastforce
qed

text \<open>The header lines sent to the origin: exactly one \<open>Connection\<close> header and it says
  \<open>close\<close>; none of the proxy's hop-by-hop headers; at least one \<open>Host\<close>; and every other header of
  the client, unchanged and in the same order, with a \<open>Host\<close> line for the target's authority
  added at the end only when the client sent none.\<close>

theorem forwarded_headers:
  "filter (\<lambda>l. header_name l = ''connection'') (out_headers hs a) = [''Connection: close''] \<and>
   list_all (\<lambda>l. \<not> hop_by_hop (header_name l)) (out_headers hs a) \<and>
   ''host'' \<in> header_name ` set (out_headers hs a) \<and>
   filter (\<lambda>l. header_name l \<noteq> ''connection'') (out_headers hs a) =
     filter (\<lambda>l. header_name l \<noteq> ''connection'' \<and> \<not> hop_by_hop (header_name l)) hs @
     (if ''host'' \<in> header_name ` set hs then [] else [''Host: '' @ a])"
proof -
  have host: "''host'' \<in> header_name ` set (kept_lines c hs)" if "''host'' \<in> header_name ` set hs" for c
  proof -
    from that obtain h where h: "h \<in> set hs" "header_name h = ''host''" by auto
    then have "h \<in> set (filter (\<lambda>l. header_name l \<noteq> ''connection'' \<and> \<not> hop_by_hop (header_name l)) hs)"
      by (simp add: hop_by_hop_def)
    then have "h \<in> set (filter (\<lambda>l. header_name l \<noteq> ''connection'') (kept_lines c hs))"
      by (simp only: kept_lines_others)
    then have "h \<in> set (kept_lines c hs)" by simp
    with h(2) show ?thesis by (intro image_eqI[of _ _ h]) simp_all
  qed
  have nh: "\<not> hop_by_hop ''connection''" "\<not> hop_by_hop ''host''" by (simp_all add: hop_by_hop_def)
  have "filter (\<lambda>l. header_name l = ''connection'') (out_headers hs a) = [''Connection: close'']"
    by (simp add: out_headers_def kept_lines_connection header_name_host[simplified])
  moreover have "list_all (\<lambda>l. \<not> hop_by_hop (header_name l)) (out_headers hs a)"
    using kept_lines_names[of _ False hs] nh
    by (auto simp: out_headers_def list_all_iff header_name_host[simplified])
  moreover have "''host'' \<in> header_name ` set (out_headers hs a)"
    using host[of False] by (auto simp: out_headers_def header_name_host[simplified])
  moreover have "filter (\<lambda>l. header_name l \<noteq> ''connection'') (out_headers hs a) =
     filter (\<lambda>l. header_name l \<noteq> ''connection'' \<and> \<not> hop_by_hop (header_name l)) hs @
     (if ''host'' \<in> header_name ` set hs then [] else [''Host: '' @ a])"
    by (simp add: out_headers_def kept_lines_others header_name_host[simplified])
  ultimately show ?thesis by blast
qed

text \<open>C29. Reading a head loses and invents no byte: head and rest together are exactly the
  chunks consumed; the head ends with its first blank line; the buffer never exceeds 16 KiB
  plus one chunk; and once \<open>MAX_HEAD_BYTES + 1\<close> reads have returned there is an outcome, whatever
  the client sends.\<close>

theorem read_head_conserves:
  assumes "\<forall>c. Inr c \<in> set reads \<longrightarrow> length c \<le> 4096"
  shows "(\<forall>head extra rest. read_head [] reads = Some (Inr (head, extra), rest) \<longrightarrow>
      head_ok head \<and> length (head @ extra) \<le> MAX_HEAD_BYTES + 4096 \<and>
      (\<exists>used. reads = used @ rest \<and> head @ extra = chunks used)) \<and>
    (MAX_HEAD_BYTES < length reads \<longrightarrow> read_head [] reads \<noteq> None)"
  using read_head_ok[of "[]" reads] read_head_terminates[of "[]" reads] assms by auto

theorem read_head_conserves_witness:
  "\<exists>head extra rest. read_head [] [Inr demo_head, Inr ''body''] = Some (Inr (head, extra), rest) \<and>
     head_ok head \<and> head @ extra = demo_head"
proof -
  have e: "find_head_end demo_head = Some (length demo_head - 4)" "demo_head \<noteq> []" "4 \<le> length demo_head"
    by (simp_all add: demo_head_def crlf_def)
  then have r: "read_head [] [Inr demo_head, Inr ''body''] = Some (Inr (demo_head, []), [Inr ''body''])"
    by (simp add: read_head.simps[of "[]"] read_head.simps[of demo_head] MAX_HEAD_BYTES_def)
  have "\<forall>c. Inr c \<in> set [Inr demo_head, Inr ''body'' :: io_error + string] \<longrightarrow> length c \<le> 4096"
    by (auto simp: demo_head_def crlf_def)
  from read_head_conserves[OF this] r show ?thesis by auto
qed

end
