(* ===== verification/Relay.thy ===== *)
theory Relay
  imports Stats Std_Io
begin

text \<open>
  What the proxies and forwarders share: the relay of one connection (\<open>tokio::select!\<close> over a
  stop signal and the two \<open>counting_copy\<close> directions) and the accept loop of a listener.  A relay
  runs on the list of things that happen, in order: an iteration of either copy, or the stop
  signal.  The first copy to end, in either direction and for whatever reason, or the stop
  signal ends the relay; the other direction is dropped where it stands.
\<close>

section \<open>Model\<close>

datatype relay_event = Up copy_step | Down copy_step | Stop_Signal

fun relay ::
  "relay_event list \<Rightarrow> stats_ref \<Rightarrow> ListenerStatsRegistry \<Rightarrow>
     bytes \<times> bytes \<times> ListenerStatsRegistry \<times> bool" where
  "relay [] a r = ([], [], r, False)"
| "relay (Stop_Signal # es) a r = ([], [], r, True)"
| "relay (Up st # es) a r =
     (case counting_copy [st] Tx a 0 r of
        (out, r1, None) \<Rightarrow> (case relay es a r1 of (up, down, r2, fin) \<Rightarrow> (out @ up, down, r2, fin))
      | (out, r1, Some _) \<Rightarrow> (out, [], r1, True))"
| "relay (Down st # es) a r =
     (case counting_copy [st] Rx a 0 r of
        (out, r1, None) \<Rightarrow> (case relay es a r1 of (up, down, r2, fin) \<Rightarrow> (up, out @ down, r2, fin))
      | (out, r1, Some _) \<Rightarrow> ([], out, r1, True))"

text \<open>A relay under a connection guard: the guard is dropped when the relay ends.\<close>

definition guarded_relay ::
  "relay_event list \<Rightarrow> stats_ref \<Rightarrow> ListenerStatsRegistry \<Rightarrow>
     bytes \<times> bytes \<times> ListenerStatsRegistry \<times> bool" where
  "guarded_relay es a r =
     (let (g, r1) = guard_new a r;
          (up, down, r2, fin) = relay es a r1
      in (up, down, if fin then snd (guard_drop g r2) else r2, fin))"

text \<open>The accept loop: connections are handed to tasks of their own until the stop signal.\<close>

datatype 'c accept_event = Accepted 'c | Accept_Failed io_error | Accept_Stop

fun accept_loop ::
  "string \<Rightarrow> 'c accept_event list \<Rightarrow> ListenerStatsRegistry \<Rightarrow> 'c list \<times> ListenerStatsRegistry \<times> bool" where
  "accept_loop key [] r = ([], r, False)"
| "accept_loop key (Accept_Stop # es) r = ([], registry_remove key r, True)"
| "accept_loop key (Accepted c # es) r =
     (case accept_loop key es r of (cs, r1, fin) \<Rightarrow> (c # cs, r1, fin))"
| "accept_loop key (Accept_Failed e # es) r = accept_loop key es r"

section \<open>Lemmas\<close>

fun up_steps :: "relay_event list \<Rightarrow> copy_step list" where
  "up_steps [] = []"
| "up_steps (Up s # es) = s # up_steps es"
| "up_steps (e # es) = up_steps es"

fun down_steps :: "relay_event list \<Rightarrow> copy_step list" where
  "down_steps [] = []"
| "down_steps (Down s # es) = s # down_steps es"
| "down_steps (e # es) = down_steps es"

text \<open>The events up to and including the one that ends the relay.\<close>

definition ends_copy :: "copy_step \<Rightarrow> bool" where
  "ends_copy st \<longleftrightarrow> (case st of (Inr chunk, Wrote) \<Rightarrow> chunk = [] | _ \<Rightarrow> True)"

fun ends_relay :: "relay_event \<Rightarrow> bool" where
  "ends_relay (Up st) = ends_copy st"
| "ends_relay (Down st) = ends_copy st"
| "ends_relay Stop_Signal = True"

fun handled :: "relay_event list \<Rightarrow> relay_event list" where
  "handled [] = []"
| "handled (e # es) = (if ends_relay e then [e] else e # handled es)"

lemma copy_one:
  "counting_copy [st] d a 0 r =
     (passed [st] @ partial_write [st], upd_stats a (count_bytes d (length (passed [st]))) r,
      snd (snd (counting_copy [st] d a 0 r))) \<and>
   (snd (snd (counting_copy [st] d a 0 r)) = None \<longleftrightarrow> \<not> ends_copy st)"
proof -
  obtain out r' res where e: "counting_copy [st] d a 0 r = (out, r', res)" using prod_cases3 by blast
  have "res = None \<longleftrightarrow> \<not> ends_copy st"
    using e by (cases st) (auto simp: ends_copy_def split: sum.splits write_result.splits if_splits)
  with counting_copy_counts[OF e] e show ?thesis by simp
qed

lemma ends_copy_cases:
  "ends_copy st \<or> (\<exists>chunk. st = (Inr chunk, Wrote) \<and> chunk \<noteq> [])"
  by (cases st; cases "fst st"; cases "snd st") (auto simp: ends_copy_def)

lemma count_bytes_comm:
  "count_bytes d m (count_bytes d' n s) = count_bytes d' n (count_bytes d m s)"
  by (cases d; cases d') (simp_all add: count_bytes_def)

lemma upd_count_comm:
  "upd_stats a (count_bytes d m) (upd_stats a (count_bytes d' n) r) =
   upd_stats a (count_bytes d' n) (upd_stats a (count_bytes d m) r)"
  unfolding upd_stats_upd_stats by (rule upd_stats_cong) (simp add: count_bytes_comm)

lemma upd_count_add:
  "upd_stats a (count_bytes d m) (upd_stats a (count_bytes d n) r) = upd_stats a (count_bytes d (n + m)) r"
  unfolding upd_stats_upd_stats by (rule upd_stats_cong) (simp add: count_bytes_add)

lemma relay_exact:
  "relay es a r =
     (passed (up_steps (handled es)) @ partial_write (up_steps (handled es)),
      passed (down_steps (handled es)) @ partial_write (down_steps (handled es)),
      upd_stats a (count_bytes Tx (length (passed (up_steps (handled es)))))
        (upd_stats a (count_bytes Rx (length (passed (down_steps (handled es))))) r),
      list_ex ends_relay es)"
proof (induction es arbitrary: r)
  case Nil
  then show ?case by (simp add: upd_stats_id)
next
  case (Cons e es)
  have last: ?case if st: "e = Up st \<or> e = Down st" and fin: "ends_copy st" for st
  proof -
    define d where "d = (if e = Up st then Tx else Rx)"
    obtain out r1 res where c: "counting_copy [st] d a 0 r = (out, r1, res)" using prod_cases3 by blast
    from copy_one[of st d a r] c fin obtain x where "out = passed [st] @ partial_write [st]"
      "r1 = upd_stats a (count_bytes d (length (passed [st]))) r" "res = Some x" by auto
    with c st fin show ?thesis
      by (auto simp: upd_stats_id d_def simp del: counting_copy.simps passed.simps partial_write.simps)
        (simp_all add: upd_stats_id)
  qed
  show ?case
  proof (cases e)
    case (Up st)
    from ends_copy_cases[of st] show ?thesis
    proof (elim disjE exE conjE)
      fix chunk assume "st = (Inr chunk, Wrote)" "chunk \<noteq> []"
      with Up Cons.IH show ?thesis
        by (simp add: ends_copy_def upd_count_comm[of a Rx _ Tx] upd_count_add)
    qed (use last Up in blast)
  next
    case (Down st)
    from ends_copy_cases[of st] show ?thesis
    proof (elim disjE exE conjE)
      fix chunk assume "st = (Inr chunk, Wrote)" "chunk \<noteq> []"
      with Down Cons.IH show ?thesis by (simp add: ends_copy_def upd_count_add)
    qed (use last Down in blast)
  next
    case Stop_Signal
    then show ?thesis by (simp add: upd_stats_id)
  qed
qed

lemma opened_closed:
  assumes "gauge_valid s" and "Suc (gauge_level s) < 2 ^ 63"
  shows "active (conn_closed (conn_opened s)) = active s"
proof -
  from conns.up_level[OF assms] conns.down_level[of "conn_opened s"]
  have "gauge_valid (conn_closed (conn_opened s))" "gauge_level (conn_closed (conn_opened s)) = gauge_level s"
    by auto
  then have "sint (active (conn_closed (conn_opened s))) = sint (active s)"
    using assms(1) by (simp add: gauge_valid_def gauge_level_def)
  then show ?thesis by (rule signed_word_eqI)
qed

lemma conn_closed_count: "conn_closed (count_bytes d n s) = count_bytes d n (conn_closed s)"
  by (cases d) (simp_all add: conn_closed_def count_bytes_def)

lemma closed_opened_eq:
  assumes "gauge_valid s" and "Suc (gauge_level s) < 2 ^ 63"
  shows "conn_closed (conn_opened s) = s\<lparr>total := total s + 1\<rparr>"
proof -
  have "s\<lparr>active := active s\<rparr> = s" by simp
  with opened_closed[OF assms] show ?thesis
    by (cases s) (auto simp: conn_opened_def conn_closed_def split: if_splits)
qed

lemma upd_stats_local_cong:
  "f (heap r ! a) = g (heap r ! a) \<Longrightarrow> upd_stats a f r = upd_stats a g r"
  by (simp add: upd_stats_def)

lemma guarded_relay_finished:
  assumes "gauge_valid (heap r ! a)" and "Suc (gauge_level (heap r ! a)) < 2 ^ 63"
    and "guarded_relay es a r = (up, down, r', True)"
  shows "r' = upd_stats a (\<lambda>s. count_bytes Tx (length (passed (up_steps (handled es))))
      (count_bytes Rx (length (passed (down_steps (handled es)))) (s\<lparr>total := total s + 1\<rparr>))) r"
proof -
  let ?n = "length (passed (up_steps (handled es)))" and ?m = "length (passed (down_steps (handled es)))"
  from assms(3) have "r' = upd_stats a conn_closed (upd_stats a (count_bytes Tx ?n)
      (upd_stats a (count_bytes Rx ?m) (upd_stats a conn_opened r)))"
    by (auto simp: guarded_relay_def guard_new_def guard_drop_def relay_exact split: if_splits)
  also have "\<dots> = upd_stats a (conn_closed \<circ> (count_bytes Tx ?n \<circ> (count_bytes Rx ?m \<circ> conn_opened))) r"
    by (simp only: upd_stats_upd_stats)
  also have "\<dots> = upd_stats a (\<lambda>s. count_bytes Tx ?n (count_bytes Rx ?m (s\<lparr>total := total s + 1\<rparr>))) r"
    by (rule upd_stats_local_cong) (simp add: conn_closed_count closed_opened_eq[OF assms(1,2)])
  finally show ?thesis .
qed

text \<open>What the statistics look like after a connection: counters of the entry moved, the gauge as
  before.\<close>

definition settled :: "stats_ref \<Rightarrow> ListenerStatsRegistry \<Rightarrow> ListenerStatsRegistry \<Rightarrow> bool" where
  "settled a r r' \<longleftrightarrow> inner r' = inner r \<and> length (heap r') = length (heap r) \<and>
     active (heap r' ! a) = active (heap r ! a) \<and>
     (\<forall>b<length (heap r). b \<noteq> a \<longrightarrow> heap r' ! b = heap r ! b)"

definition gauge_room :: "stats_ref \<Rightarrow> ListenerStatsRegistry \<Rightarrow> bool" where
  "gauge_room a r \<longleftrightarrow> a < length (heap r) \<and> gauge_valid (heap r ! a) \<and>
     Suc (gauge_level (heap r ! a)) < 2 ^ 63"

lemma settled_refl [simp]: "settled a r r"
  by (simp add: settled_def)

lemma settled_trans: "settled a r1 r2 \<Longrightarrow> settled a r2 r3 \<Longrightarrow> settled a r1 r3"
  by (simp add: settled_def)

lemma settled_room: "settled a r r' \<Longrightarrow> gauge_room a r \<Longrightarrow> gauge_room a r'"
  by (simp add: settled_def gauge_room_def gauge_valid_def gauge_level_def)

lemma settled_count: "gauge_room a r \<Longrightarrow> settled a r (upd_stats a (count_bytes d n) r)"
  by (simp add: settled_def gauge_room_def upd_stats_nth)

lemma settled_upd:
  "a < length (heap r) \<Longrightarrow> settled a r rc \<Longrightarrow> settled a r (upd_stats a (count_bytes d n) rc)"
  by (simp add: settled_def upd_stats_nth)

text \<open>Closing what one guard opened, with any counting in between.\<close>

lemma settled_close:
  assumes "gauge_room a r" and "settled a (upd_stats a conn_opened r) rc"
  shows "settled a r (upd_stats a conn_closed rc)"
proof -
  let ?s = "heap r ! a"
  have a: "a < length (heap r)" and v: "gauge_valid ?s" "Suc (gauge_level ?s) < 2 ^ 63"
    using assms(1) by (auto simp: gauge_room_def)
  have "active (heap rc ! a) = active (conn_opened ?s)" "length (heap rc) = length (heap r)"
    using assms(2) a by (auto simp: settled_def upd_stats_nth)
  then have "active (heap (upd_stats a conn_closed rc) ! a) = active (conn_closed (conn_opened ?s))"
    using a by (simp add: upd_stats_nth conn_closed_def)
  with opened_closed[OF v] assms(2) a show ?thesis by (simp add: settled_def upd_stats_nth)
qed

lemma guarded_settled:
  assumes "gauge_room a r" and "guarded_relay es a r = (up, down, r', True)"
  shows "settled a r r'"
  using assms guarded_relay_finished[of r a es up down r']
  by (simp add: settled_def gauge_room_def upd_stats_nth count_bytes_def)

lemma demo_room: "gauge_room 0 (demo_registry False)"
  by (simp add: gauge_room_def demo_registry_def zero_stats_def gauge_valid_def gauge_level_def)

section \<open>Properties\<close>



text \<open>A finished connection leaves its listener's \<open>active\<close> gauge exactly where it was,
  adds one to \<open>total\<close> and the bytes carried to the two byte counters, and touches no other
  entry and not the registry.\<close>

theorem guarded_relay_balanced:
  assumes "a < length (heap r)" and "gauge_valid (heap r ! a)" and "Suc (gauge_level (heap r ! a)) < 2 ^ 63"
    and "guarded_relay es a r = (up, down, r', True)"
  shows "active (heap r' ! a) = active (heap r ! a) \<and> total (heap r' ! a) = total (heap r ! a) + 1 \<and>
    tx_bytes (heap r' ! a) = tx_bytes (heap r ! a) + of_nat (length (passed (up_steps (handled es)))) \<and>
    rx_bytes (heap r' ! a) = rx_bytes (heap r ! a) + of_nat (length (passed (down_steps (handled es)))) \<and>
    inner r' = inner r \<and> (\<forall>b<length (heap r). b \<noteq> a \<longrightarrow> heap r' ! b = heap r ! b)"
  using guarded_relay_finished[OF assms(2-4)] assms(1) by (simp add: upd_stats_nth count_bytes_def)

theorem guarded_relay_balanced_witness:
  "\<exists>up down r'. guarded_relay [Up (Inr [1, 2], Wrote), Stop_Signal] 0 (demo_registry False) = (up, down, r', True) \<and>
     active (heap r' ! 0) = 0 \<and> total (heap r' ! 0) = 1 \<and> tx_bytes (heap r' ! 0) = 2"
proof -
  let ?es = "[Up (Inr [1, 2], Wrote), Stop_Signal]"
  obtain up down r' where e: "guarded_relay ?es 0 (demo_registry False) = (up, down, r', True)"
    by (simp add: guarded_relay_def guard_new_def)
  have v: "0 < length (heap (demo_registry False))" "gauge_valid (heap (demo_registry False) ! 0)"
    "Suc (gauge_level (heap (demo_registry False) ! 0)) < 2 ^ 63"
    by (simp_all add: demo_registry_def zero_stats_def gauge_valid_def gauge_level_def)
  from guarded_relay_balanced[OF v e] e show ?thesis
    by (auto simp: demo_registry_def zero_stats_def ends_copy_def)
qed

end
