(* ===== verification/Http_Proxy.thy ===== *)
theory Http_Proxy
  imports Http_Head Relay
begin

text \<open>
  The HTTP proxy server, \<open>crates/yggstack/src/http_proxy.rs\<close> (\<open>serve_tcp\<close>, \<open>handle_client\<close>,
  \<open>handle_connect\<close>, \<open>handle_forward\<close>, \<open>resolve_remote\<close>).  A connection runs against a record of
  what its calls return: the client's bytes, the resolver, the dial, the writes, and the relay's
  events.  A handler yields its result (\<open>None\<close> while it is still waiting), the trace of what it
  did towards the client, the resolver and the origin, and the updated statistics.
\<close>

section \<open>Model\<close>

record conn_io =
  client_reads :: "(io_error + string) list"
  resolve_name :: "string \<Rightarrow> string + ipv6"
  dial_tcp :: "socket_addr \<Rightarrow> io_error + unit"
  client_write :: "string \<Rightarrow> io_error + unit"
  origin_write :: "string \<Rightarrow> io_error + unit"
  relay_events :: "relay_event list"

datatype conn_event =
    To_Client string
  | Resolve string
  | Dial socket_addr
  | To_Origin string
  | Relayed bytes bytes

type_synonym conn_result = "(io_error + unit) option \<times> conn_event list \<times> ListenerStatsRegistry"

definition add_events :: "conn_event list \<Rightarrow> conn_result \<Rightarrow> conn_result" where
  "add_events evs res = (case res of (x, es, r) \<Rightarrow> (x, evs @ es, r))"

text \<open>\<open>let _ = send_simple_response(..)\<close>: the outcome of the write is ignored.\<close>

definition send_simple_response :: "nat \<Rightarrow> string \<Rightarrow> conn_event list" where
  "send_simple_response code reason = [To_Client (simple_response code reason)]"

definition resolve_remote ::
  "conn_io \<Rightarrow> string \<Rightarrow> u16 \<Rightarrow> (string + socket_addr) \<times> conn_event list" where
  "resolve_remote io host port =
     (case parse_ipv6 host of
        Some ip \<Rightarrow> (Inr (SockV6 ip port 0 0), [])
      | None \<Rightarrow>
          (case parse_ipv4 host of
             Some ip \<Rightarrow> (Inr (sock_new (V4 ip) port), [])
           | None \<Rightarrow>
               (case resolve_name io host of
                  Inr ip6 \<Rightarrow> (Inr (SockV6 ip6 port 0 0), [Resolve host])
                | Inl e \<Rightarrow> (Inl e, [Resolve host]))))"

text \<open>The last stage of both handlers: relay under a guard until it ends.\<close>

definition relay_stage :: "conn_io \<Rightarrow> stats_ref \<Rightarrow> ListenerStatsRegistry \<Rightarrow> conn_result" where
  "relay_stage io a r =
     (case guarded_relay (relay_events io) a r of (up, down, r', fin) \<Rightarrow>
        (if fin then Some (Inr ()) else None, [Relayed up down], r'))"

text \<open>Writing buffered request bytes to the origin and counting them.\<close>

definition write_counted ::
  "conn_io \<Rightarrow> stats_ref \<Rightarrow> string \<Rightarrow> ListenerStatsRegistry \<Rightarrow>
     (ListenerStatsRegistry \<Rightarrow> conn_result) \<Rightarrow> conn_result" where
  "write_counted io a s r k =
     (case origin_write io s of
        Inl e \<Rightarrow> (Some (Inl e), [To_Origin s], r)
      | Inr _ \<Rightarrow> add_events [To_Origin s] (k (upd_stats a (count_bytes Tx (length s)) r)))"

definition write_extra ::
  "conn_io \<Rightarrow> stats_ref \<Rightarrow> string \<Rightarrow> ListenerStatsRegistry \<Rightarrow>
     (ListenerStatsRegistry \<Rightarrow> conn_result) \<Rightarrow> conn_result" where
  "write_extra io a extra r k = (if extra \<noteq> [] then write_counted io a extra r k else k r)"

definition established :: string where
  "established = ''HTTP/1.1 200 Connection Established'' @ crlf @ crlf"

definition http_handle_connect ::
  "conn_io \<Rightarrow> string \<Rightarrow> Request \<Rightarrow> stats_ref \<Rightarrow> ListenerStatsRegistry \<Rightarrow> conn_result" where
  "http_handle_connect io extra req a r =
     (case split_authority (req_target req) 443 of
        None \<Rightarrow> (Some (Inl (Io InvalidData ''bad CONNECT authority'')), [], r)
      | Some (host, port) \<Rightarrow>
          (case resolve_remote io host port of
             (Inl e, evs) \<Rightarrow>
               (Some (Inl (io_other e)), evs @ send_simple_response 502 ''Bad Gateway'', r)
           | (Inr remote, evs) \<Rightarrow>
               (case dial_tcp io remote of
                  Inl e \<Rightarrow> (Some (Inl e), evs @ [Dial remote] @ send_simple_response 502 ''Bad Gateway'', r)
                | Inr _ \<Rightarrow>
                    (case client_write io established of
                       Inl e \<Rightarrow> (Some (Inl e), evs @ [Dial remote, To_Client established], r)
                     | Inr _ \<Rightarrow>
                         add_events (evs @ [Dial remote, To_Client established])
                           (write_extra io a extra r (relay_stage io a))))))"

definition http_handle_forward ::
  "conn_io \<Rightarrow> string \<Rightarrow> Request \<Rightarrow> stats_ref \<Rightarrow> ListenerStatsRegistry \<Rightarrow> conn_result" where
  "http_handle_forward io extra req a r =
     (case forward_target req of
        Inl e \<Rightarrow> (Some (Inl e), send_simple_response 400 ''Bad Request'', r)
      | Inr target \<Rightarrow>
          (case resolve_remote io (fwd_host target) (fwd_port target) of
             (Inl e, evs) \<Rightarrow>
               (Some (Inl (io_other e)), evs @ send_simple_response 502 ''Bad Gateway'', r)
           | (Inr remote, evs) \<Rightarrow>
               (case dial_tcp io remote of
                  Inl e \<Rightarrow> (Some (Inl e), evs @ [Dial remote] @ send_simple_response 502 ''Bad Gateway'', r)
                | Inr _ \<Rightarrow>
                    add_events (evs @ [Dial remote])
                      (write_counted io a (rewrite_head req target) r
                        (\<lambda>r1. write_extra io a extra r1 (relay_stage io a))))))"

definition http_handle_client ::
  "conn_io \<Rightarrow> stats_ref \<Rightarrow> ListenerStatsRegistry \<Rightarrow> conn_result" where
  "http_handle_client io a r =
     (case read_head [] (client_reads io) of
        None \<Rightarrow> (None, [], r)
      | Some (Inl e, _) \<Rightarrow> (Some (Inl e), [], r)
      | Some (Inr (head, extra), _) \<Rightarrow>
          (case parse_request head of
             Inl e \<Rightarrow> (Some (Inl e), send_simple_response 400 ''Bad Request'', r)
           | Inr req \<Rightarrow>
               if req_method req = ''CONNECT'' then http_handle_connect io extra req a r
               else http_handle_forward io extra req a r))"

text \<open>\<open>serve_tcp\<close>: bind, register the listener, accept until stopped.  The result of \<open>bind\<close> carries
  the local address; the third component lists the connections handed to \<open>handle_client\<close>.\<close>

definition http_serve_tcp ::
  "io_error + (io_error + string) \<Rightarrow> 'c accept_event list \<Rightarrow> ListenerStatsRegistry \<Rightarrow>
     (io_error + unit) option \<times> 'c list \<times> ListenerStatsRegistry" where
  "http_serve_tcp bound events r =
     (case bound of
        Inl e \<Rightarrow> (Some (Inl e), [], r)
      | Inr (Inl e) \<Rightarrow> (Some (Inl e), [], r)
      | Inr (Inr local) \<Rightarrow>
          (let (a, r1) = entry HTTP_STATS_KEY ''http'' local [] r;
               (cs, r2, fin) = accept_loop HTTP_STATS_KEY events r1
           in (if fin then Some (Inr ()) else None, cs, r2)))"

section \<open>Lemmas\<close>

definition client_text :: "conn_event list \<Rightarrow> string list" where
  "client_text evs = [s. To_Client s \<leftarrow> evs]"

lemma client_text_simps [simp]:
  "client_text [] = []" "client_text (To_Client s # es) = s # client_text es"
  "client_text (Resolve h # es) = client_text es" "client_text (Dial d # es) = client_text es"
  "client_text (To_Origin s # es) = client_text es" "client_text (Relayed u v # es) = client_text es"
  "client_text (xs @ ys) = client_text xs @ client_text ys"
  by (simp_all add: client_text_def)

definition dials :: "conn_event list \<Rightarrow> socket_addr list" where
  "dials evs = [d. Dial d \<leftarrow> evs]"

lemma dials_simps [simp]:
  "dials [] = []" "dials (To_Client s # es) = dials es"
  "dials (Resolve h # es) = dials es" "dials (Dial d # es) = d # dials es"
  "dials (To_Origin s # es) = dials es" "dials (Relayed u v # es) = dials es"
  "dials (xs @ ys) = dials xs @ dials ys"
  by (simp_all add: dials_def)

lemma resolve_remote_events:
  "resolve_remote io h p = (x, evs) \<Longrightarrow> client_text evs = [] \<and> dials evs = []"
  by (auto simp: resolve_remote_def split: option.splits sum.splits)

lemma add_events_simps [simp]:
  "fst (add_events evs res) = fst res" "fst (snd (add_events evs res)) = evs @ fst (snd res)"
  "snd (snd (add_events evs res)) = snd (snd res)"
  by (cases res; simp add: add_events_def)+

lemma relay_stage_client: "client_text (fst (snd (relay_stage io a r))) = []"
  by (auto simp: relay_stage_def split: prod.splits)

lemma write_extra_client:
  "(\<And>r. client_text (fst (snd (k r))) = []) \<Longrightarrow> client_text (fst (snd (write_extra io a s r k))) = []"
  "(\<And>r. client_text (fst (snd (k r))) = []) \<Longrightarrow> client_text (fst (snd (write_counted io a s r k))) = []"
  by (auto simp: write_extra_def write_counted_def split: sum.splits)

lemma relay_stage_settled:
  "gauge_room a r \<Longrightarrow> relay_stage io a r = (Some x, evs, r') \<Longrightarrow> settled a r r'"
  by (auto simp: relay_stage_def split: prod.splits if_splits dest: guarded_settled)

lemma write_counted_settled:
  assumes k: "\<And>r x evs r'. gauge_room a r \<Longrightarrow> k r = (Some x, evs, r') \<Longrightarrow> settled a r r'"
    and room: "gauge_room a r" and run: "write_counted io a s r k = (Some x, evs, r')"
  shows "settled a r r'"
proof (cases "origin_write io s")
  case (Inl e)
  with run show ?thesis by (simp add: write_counted_def)
next
  case (Inr u)
  let ?r = "upd_stats a (count_bytes Tx (length s)) r"
  obtain evs' where "k ?r = (Some x, evs', r')"
    using run Inr by (cases "k ?r") (auto simp: write_counted_def add_events_def)
  moreover have s1: "settled a r ?r" by (rule settled_count[OF room])
  moreover have "gauge_room a ?r" by (rule settled_room[OF s1 room])
  ultimately have "settled a ?r r'" using k by blast
  with s1 show ?thesis by (rule settled_trans)
qed

lemma write_extra_settled:
  assumes "\<And>r x evs r'. gauge_room a r \<Longrightarrow> k r = (Some x, evs, r') \<Longrightarrow> settled a r r'"
    and "gauge_room a r" and "write_extra io a s r k = (Some x, evs, r')"
  shows "settled a r r'"
  using assms write_counted_settled[of a k r io s] by (auto simp: write_extra_def split: if_splits)

lemma add_events_eq: "add_events evs res = (x, es, r) \<longleftrightarrow> (\<exists>es'. res = (x, es', r) \<and> es = evs @ es')"
  by (cases res) (auto simp: add_events_def)

lemma connect_stage_settled:
  "gauge_room a r \<Longrightarrow> write_extra io a extra r (relay_stage io a) = (Some x, evs, r') \<Longrightarrow> settled a r r'"
  using relay_stage_settled by (rule write_extra_settled)

lemma forward_stage_settled:
  "gauge_room a r \<Longrightarrow>
   write_counted io a s r (\<lambda>r1. write_extra io a extra r1 (relay_stage io a)) = (Some x, evs, r') \<Longrightarrow>
   settled a r r'"
  using connect_stage_settled by (rule write_counted_settled)

lemma http_connect_settled:
  "gauge_room a r \<Longrightarrow> http_handle_connect io extra req a r = (Some x, evs, r') \<Longrightarrow> settled a r r'"
  using connect_stage_settled[of a r io extra]
  by (auto simp: http_handle_connect_def add_events_eq split: option.splits prod.splits sum.splits)

lemma http_forward_settled:
  "gauge_room a r \<Longrightarrow> http_handle_forward io extra req a r = (Some x, evs, r') \<Longrightarrow> settled a r r'"
  using forward_stage_settled[of a r io _ extra]
  by (auto simp: http_handle_forward_def add_events_eq split: option.splits prod.splits sum.splits)

section \<open>Properties\<close>

text \<open>However a proxied connection ends (bad request, resolver or dial failure, failed
  write, end of stream, stop signal), once it has ended its listener's \<open>active\<close> gauge is what it
  was before, the registry is unchanged and so is every other listener's entry.\<close>

theorem http_gauge_balanced:
  assumes "gauge_room a r" and "http_handle_client io a r = (Some res, evs, r')"
  shows "settled a r r'"
  using assms http_connect_settled[OF assms(1)] http_forward_settled[OF assms(1)]
  by (auto simp: http_handle_client_def split: option.splits prod.splits sum.splits if_splits)

definition demo_io :: conn_io where
  "demo_io = \<lparr>client_reads = [Inr demo_head], resolve_name = (\<lambda>h. Inr 7), dial_tcp = (\<lambda>d. Inr ()),
     client_write = (\<lambda>s. Inr ()), origin_write = (\<lambda>s. Inr ()),
     relay_events = [Down (Inr [1, 2, 3], Wrote), Down (Inr [], Wrote)]\<rparr>"

lemma demo_read: "read_head [] [Inr demo_head] = Some (Inr (demo_head, []), [])"
proof -
  have "find_head_end demo_head = Some (length demo_head - 4)" "demo_head \<noteq> []" "4 \<le> length demo_head"
    by (simp_all add: demo_head_def crlf_def)
  then show ?thesis by (simp add: read_head.simps[of "[]"] read_head.simps[of demo_head] MAX_HEAD_BYTES_def)
qed

lemma demo_run: "\<exists>evs r'. http_handle_client demo_io 0 (demo_registry False) = (Some (Inr ()), evs, r')"
proof -
  have h: "parse_ipv6 ''h'' = None" using parse_ipv6_chars[of "''h''"]
    by (cases "parse_ipv6 ''h''") (auto simp: addr_char_def is_radix_digit_def digit_val_def)
  have h4: "parse_ipv4 ''h'' = None"
    by (simp add: parse_ipv4_def parse_with_def read_ipv4_stops is_radix_digit_def digit_val_def)
  show ?thesis
    unfolding http_handle_client_def
    by (simp add: demo_io_def demo_read demo_head_parse http_handle_forward_def forward_target_def
        split_authority_def resolve_remote_def h h4 write_counted_def write_extra_def relay_stage_def
        guarded_relay_def guard_new_def add_events_eq del: counting_copy.simps)
       (simp add: add_events_def)
qed

theorem http_gauge_balanced_witness:
  "\<exists>evs r'. http_handle_client demo_io 0 (demo_registry False) = (Some (Inr ()), evs, r') \<and>
     settled 0 (demo_registry False) r'"
  using demo_run http_gauge_balanced[OF demo_room] by metis

definition origin_writes :: "conn_event list \<Rightarrow> string list" where
  "origin_writes evs = [s. To_Origin s \<leftarrow> evs]"

lemma origin_writes_simps [simp]:
  "origin_writes [] = []" "origin_writes (To_Client s # es) = origin_writes es"
  "origin_writes (Resolve h # es) = origin_writes es" "origin_writes (Dial d # es) = origin_writes es"
  "origin_writes (To_Origin s # es) = s # origin_writes es"
  "origin_writes (Relayed u v # es) = origin_writes es"
  "origin_writes (xs @ ys) = origin_writes xs @ origin_writes ys"
  by (simp_all add: origin_writes_def)

text \<open>What a handler may have said and done when it returns or is still running.\<close>

definition orderly :: "conn_io \<Rightarrow> conn_result \<Rightarrow> bool" where
  "orderly io res \<longleftrightarrow> (case res of (x, evs, r) \<Rightarrow>
     (client_text evs = [] \<or>
      client_text evs = [simple_response 400 ''Bad Request''] \<and> dials evs = [] \<and> (\<exists>e. x = Some (Inl e)) \<or>
      client_text evs = [simple_response 502 ''Bad Gateway''] \<and> origin_writes evs = [] \<and> (\<exists>e. x = Some (Inl e)) \<or>
      client_text evs = [established] \<and> dials evs \<noteq> []) \<and>
     (dials evs = [] \<or> (\<exists>d. dials evs = [d])) \<and>
     (origin_writes evs \<noteq> [] \<or> client_text evs = [established] \<longrightarrow> (\<exists>d. dials evs = [d] \<and> dial_tcp io d = Inr ())))"

lemma resolve_remote_origin: "resolve_remote io h p = (x, evs) \<Longrightarrow> origin_writes evs = []"
  by (auto simp: resolve_remote_def split: option.splits sum.splits)

lemma stage_dials:
  "dials (fst (snd (relay_stage io a r))) = []"
  "dials (fst (snd (write_extra io a s r (relay_stage io a)))) = []"
  "dials (fst (snd (write_counted io a t r (\<lambda>r1. write_extra io a s r1 (relay_stage io a))))) = []"
  by (auto simp: relay_stage_def write_extra_def write_counted_def split: prod.splits sum.splits)

lemma responses_differ [simp]:
  "simple_response 400 ''Bad Request'' \<noteq> established" "simple_response 502 ''Bad Gateway'' \<noteq> established"
proof -
  have "show_nat 400 = ''400''" "show_nat 502 = ''502''"
    by (simp_all add: show_radix.simps digit_char_def char_of_def bit_0)
  then show "simple_response 400 ''Bad Request'' \<noteq> established" "simple_response 502 ''Bad Gateway'' \<noteq> established"
    by (simp_all add: simple_response_def established_def)
qed

lemma orderly_early:
  "orderly io (None, [], r)" "orderly io (Some (Inl e), [], r)"
  "orderly io (Some (Inl e), send_simple_response 400 ''Bad Request'', r)"
  by (simp_all add: orderly_def send_simple_response_def)

lemma connect_orderly: "orderly io (http_handle_connect io extra req a r)"
proof (cases "split_authority (req_target req) 443")
  case None
  then show ?thesis by (simp add: http_handle_connect_def orderly_def)
next
  case (Some hp)
  obtain host port where hp: "hp = (host, port)" by fastforce
  obtain x evs where rr: "resolve_remote io host port = (x, evs)" by fastforce
  note ev = resolve_remote_events[OF rr] resolve_remote_origin[OF rr]
  let ?w = "write_extra io a extra r (relay_stage io a)"
  have "client_text (fst (snd ?w)) = []" "dials (fst (snd ?w)) = []"
    using write_extra_client(1)[of "relay_stage io a"] relay_stage_client stage_dials(2) by blast+
  with Some hp rr ev show ?thesis
    by (cases ?w)
      (auto simp: http_handle_connect_def orderly_def send_simple_response_def add_events_def split: sum.splits)
qed

lemma forward_orderly: "orderly io (http_handle_forward io extra req a r)"
proof (cases "forward_target req")
  case (Inl e)
  then show ?thesis by (simp add: http_handle_forward_def orderly_def send_simple_response_def)
next
  case (Inr t)
  obtain x evs where rr: "resolve_remote io (fwd_host t) (fwd_port t) = (x, evs)" by fastforce
  note ev = resolve_remote_events[OF rr] resolve_remote_origin[OF rr]
  let ?w = "write_counted io a (rewrite_head req t) r (\<lambda>r1. write_extra io a extra r1 (relay_stage io a))"
  have "client_text (fst (snd ?w)) = []" "dials (fst (snd ?w)) = []"
    by (intro write_extra_client relay_stage_client, rule stage_dials(3))
  with Inr rr ev show ?thesis
    by (cases ?w)
      (auto simp: http_handle_forward_def orderly_def send_simple_response_def add_events_def split: sum.splits)
qed

text \<open>C30. The proxy itself says at most one thing to a client: a 400 (then nothing was
  dialled), a 502 (then nothing was sent to an origin), both only on the way to an error, or the
  200 of a tunnel whose dial succeeded.  It dials at most once per connection, and sends bytes to
  an origin only over a dial that succeeded.\<close>

theorem http_replies_once: "orderly io (http_handle_client io a r)"
  by (auto simp: http_handle_client_def orderly_early connect_orderly forward_orderly
      split: option.splits prod.splits sum.splits)

text \<open>A CONNECT request whose authority does not parse ends in an error without any
  response to the client, while every malformed forward target is answered with a 400.\<close>

theorem bad_connect_gets_no_reply:
  assumes "read_head [] (client_reads io) = Some (Inr (head, extra), rest)" and "parse_request head = Inr req"
  shows "(req_method req = ''CONNECT'' \<and> split_authority (req_target req) 443 = None \<longrightarrow>
      http_handle_client io a r = (Some (Inl (Io InvalidData ''bad CONNECT authority'')), [], r)) \<and>
    (req_method req \<noteq> ''CONNECT'' \<and> forward_target req = Inl e \<longrightarrow>
      http_handle_client io a r = (Some (Inl e), [To_Client (simple_response 400 ''Bad Request'')], r))"
  using assms
  by (auto simp: http_handle_client_def http_handle_connect_def http_handle_forward_def send_simple_response_def)

definition bad_connect_head :: string where
  "bad_connect_head = ''CONNECT h:x HTTP/1.1'' @ crlf @ crlf"

theorem bad_connect_gets_no_reply_witness:
  "http_handle_client (demo_io\<lparr>client_reads := [Inr bad_connect_head]\<rparr>) 0 (demo_registry False) =
     (Some (Inl (Io InvalidData ''bad CONNECT authority'')), [], demo_registry False)"
proof -
  let ?io = "demo_io\<lparr>client_reads := [Inr bad_connect_head]\<rparr>"
  let ?req = "\<lparr>req_method = ''CONNECT'', req_target = ''h:x'', req_version = ''HTTP/1.1'', req_headers = []\<rparr>"
  have e: "find_head_end bad_connect_head = Some (length bad_connect_head - 4)" "bad_connect_head \<noteq> []"
      "4 \<le> length bad_connect_head"
    by (simp_all add: bad_connect_head_def crlf_def)
  then have rd: "read_head [] (client_reads ?io) = Some (Inr (bad_connect_head, []), [])"
    by (simp add: read_head.simps[of "[]"] read_head.simps[of bad_connect_head] MAX_HEAD_BYTES_def)
  have t: "trim_end_str crlf bad_connect_head = ''CONNECT h:x HTTP/1.1''"
    by (simp add: bad_connect_head_def crlf_def trim_end_str.simps ends_with_def)
  have "utf8_valid bad_connect_head" by (rule utf8_valid_ascii) (simp add: bad_connect_head_def crlf_def)
  with t have p: "parse_request bad_connect_head = Inr ?req"
    by (simp add: parse_request_def parse_request_text_def)
  have "split_authority ''h:x'' 443 = None"
    by (simp add: split_authority_def parse_u16_def parse_unsigned_def is_radix_digit_def digit_val_def)
  with bad_connect_gets_no_reply[OF rd p, of 0 "demo_registry False"] show ?thesis by simp
qed

end
