(* ===== verification/Socks.thy ===== *)
theory Socks
  imports Std_Net Relay
begin

text \<open>
  The SOCKS5 proxy server, \<open>crates/yggstack/src/socks.rs\<close>: negotiation and request parsing,
  CONNECT, UDP ASSOCIATE with its relay loop, and the wire formats of replies and of the UDP
  header.  The client's stream is the bytes it sends and how the stream ends; a handler yields
  its result (\<open>None\<close> while it waits), the trace of its actions and the updated statistics.
\<close>

section \<open>Model\<close>

definition SOCKS5_VERSION :: u8 where "SOCKS5_VERSION = 5"
definition AUTH_NO_AUTH :: u8 where "AUTH_NO_AUTH = 0x00"
definition AUTH_NO_ACCEPTABLE :: u8 where "AUTH_NO_ACCEPTABLE = 0xFF"
definition CMD_CONNECT :: u8 where "CMD_CONNECT = 0x01"
definition CMD_UDP_ASSOCIATE :: u8 where "CMD_UDP_ASSOCIATE = 0x03"
definition ATYP_IPV4 :: u8 where "ATYP_IPV4 = 0x01"
definition ATYP_DOMAIN :: u8 where "ATYP_DOMAIN = 0x03"
definition ATYP_IPV6 :: u8 where "ATYP_IPV6 = 0x04"
definition REP_SUCCESS :: u8 where "REP_SUCCESS = 0x00"
definition REP_GENERAL_FAILURE :: u8 where "REP_GENERAL_FAILURE = 0x01"
definition REP_CONN_REFUSED :: u8 where "REP_CONN_REFUSED = 0x05"
definition REP_ADDR_TYPE_UNSUPPORTED :: u8 where "REP_ADDR_TYPE_UNSUPPORTED = 0x08"

lemmas socks_consts = SOCKS5_VERSION_def AUTH_NO_AUTH_def AUTH_NO_ACCEPTABLE_def CMD_CONNECT_def
  CMD_UDP_ASSOCIATE_def ATYP_IPV4_def ATYP_DOMAIN_def ATYP_IPV6_def REP_SUCCESS_def
  REP_GENERAL_FAILURE_def REP_CONN_REFUSED_def REP_ADDR_TYPE_UNSUPPORTED_def

text \<open>Reading from the client: \<open>avail\<close> are the bytes it sends, \<open>ending\<close> the error a read past them
  gets, or \<open>None\<close> when such a read waits.\<close>

record byte_stream =
  avail :: bytes
  ending :: "io_error option"

type_synonym 'a reading = "(io_error + 'a \<times> byte_stream) option"

definition read_exact :: "nat \<Rightarrow> byte_stream \<Rightarrow> bytes reading" where
  "read_exact n s =
     (if n \<le> length (avail s) then Some (Inr (take n (avail s), s\<lparr>avail := drop n (avail s)\<rparr>))
      else map_option Inl (ending s))"

definition read_bind :: "'a reading \<Rightarrow> ('a \<Rightarrow> byte_stream \<Rightarrow> 'b reading) \<Rightarrow> 'b reading" where
  "read_bind m f =
     (case m of None \<Rightarrow> None | Some (Inl e) \<Rightarrow> Some (Inl e) | Some (Inr (a, s)) \<Rightarrow> f a s)"

definition read_ret :: "'a \<Rightarrow> byte_stream \<Rightarrow> 'a reading" where
  "read_ret a s = Some (Inr (a, s))"

definition read_err :: "io_error \<Rightarrow> 'a reading" where
  "read_err e = Some (Inl e)"

definition read_u8 :: "byte_stream \<Rightarrow> u8 reading" where
  "read_u8 s = read_bind (read_exact 1 s) (\<lambda>bs. read_ret (bs ! 0))"

definition read_u16 :: "byte_stream \<Rightarrow> u16 reading" where
  "read_u16 s = read_bind (read_exact 2 s) (\<lambda>bs. read_ret (u16_from_be_bytes (bs ! 0) (bs ! 1)))"

datatype Destination = Dest_Ip ip_addr | Dest_Domain string

definition read_address :: "u8 \<Rightarrow> byte_stream \<Rightarrow> Destination reading" where
  "read_address atyp s =
     (if atyp = ATYP_IPV4 then
        read_bind (read_exact 4 s) (\<lambda>buf. read_ret (Dest_Ip (V4 (v4_of_octets buf))))
      else if atyp = ATYP_IPV6 then
        read_bind (read_exact 16 s) (\<lambda>buf. read_ret (Dest_Ip (V6 (v6_of_octets buf))))
      else if atyp = ATYP_DOMAIN then
        read_bind (read_u8 s) (\<lambda>len s1. read_bind (read_exact (unat len) s1) (\<lambda>buf s2.
          if utf8_valid (bytes_str buf) then read_ret (Dest_Domain (bytes_str buf)) s2
          else read_err (Io InvalidData ''invalid domain'')))
      else read_err (Io InvalidData (''unknown ATYP '' @ show_nat (unat atyp))))"

fun addr_bytes :: "socket_addr \<Rightarrow> bytes" where
  "addr_bytes (SockV4 a p) = ATYP_IPV4 # v4_octets a @ u16_to_be_bytes p"
| "addr_bytes (SockV6 a p f sc) = ATYP_IPV6 # v6_octets a @ u16_to_be_bytes p"

definition reply_bytes :: "u8 \<Rightarrow> socket_addr option \<Rightarrow> bytes" where
  "reply_bytes rep bound =
     [SOCKS5_VERSION, rep, 0x00] @
     (case bound of
        Some a \<Rightarrow> addr_bytes a
      | None \<Rightarrow> ATYP_IPV6 # replicate 16 0 @ replicate 2 0)"

definition parse_udp_header :: "bytes \<Rightarrow> u8 \<Rightarrow> (socket_addr \<times> nat) option" where
  "parse_udp_header buf atyp =
     (if atyp = ATYP_IPV4 then
        (if length buf < 10 then None
         else Some (sock_new (V4 (v4_of_octets (slice 4 8 buf))) (u16_from_be_bytes (buf ! 8) (buf ! 9)), 10))
      else if atyp = ATYP_IPV6 then
        (if length buf < 22 then None
         else Some (sock_new (V6 (v6_of_octets (slice 4 20 buf))) (u16_from_be_bytes (buf ! 20) (buf ! 21)), 22))
      else if atyp = ATYP_DOMAIN then
        (if length buf < 5 then None
         else if length buf < 5 + unat (buf ! 4) + 2 then None
         else None)
      else None)"

definition build_udp_header :: "socket_addr \<Rightarrow> bytes \<Rightarrow> bytes" where
  "build_udp_header src payload = [0x00, 0x00, 0x00] @ addr_bytes src @ payload"

text \<open>What happens to the UDP relay of an association: a datagram from the client, with what opening
  a netstack socket, sending and receiving give for it (\<open>None\<close>: no reply within five seconds); a
  failed receive, which ends the relay task; the read on the control connection returning (it was
  closed, or the client sent something), which aborts it.  The relay reads into 4096 bytes, and a
  longer datagram is cut off there.\<close>

record udp_outcome =
  uo_open :: "io_error + unit"
  uo_send :: "io_error + unit"
  uo_reply :: "(io_error + bytes \<times> socket_addr) option"

datatype assoc_event =
    Datagram bytes socket_addr udp_outcome
  | Relay_Recv_Failed
  | Control_Closed

text \<open>A client connection: its stream, what the calls of the handler return, and the events of
  the relay, if one starts.\<close>

record socks_io =
  client :: byte_stream
  client_accepts :: "bytes \<Rightarrow> io_error + unit"
  s_resolve :: "string \<Rightarrow> string + ipv6"
  s_dial :: "socket_addr \<Rightarrow> io_error + unit"
  s_relay :: "relay_event list"
  s_local_addr :: "io_error + socket_addr"
  s_bind :: "socket_addr \<Rightarrow> io_error + unit"
  s_relay_addr :: "io_error + socket_addr"
  s_assoc :: "assoc_event list"

datatype socks_event =
    Sent bytes
  | Resolving string
  | Dialling socket_addr
  | Relaying bytes bytes
  | To_Ygg bytes socket_addr
  | To_Udp_Client bytes socket_addr

type_synonym socks_result = "(io_error + unit) option \<times> socks_event list \<times> ListenerStatsRegistry"

text \<open>\<open>client.write_all(bytes).await?\<close> followed by the rest of the handler.\<close>

definition send_then :: "socks_io \<Rightarrow> bytes \<Rightarrow> ListenerStatsRegistry \<Rightarrow> socks_result \<Rightarrow> socks_result" where
  "send_then io bs r k =
     (case client_accepts io bs of
        Inl e \<Rightarrow> (Some (Inl e), [Sent bs], r)
      | Inr _ \<Rightarrow> (case k of (x, evs, r') \<Rightarrow> (x, Sent bs # evs, r')))"

definition send_reply_then ::
  "socks_io \<Rightarrow> u8 \<Rightarrow> socket_addr option \<Rightarrow> ListenerStatsRegistry \<Rightarrow> socks_result \<Rightarrow> socks_result" where
  "send_reply_then io rep bound r k = send_then io (reply_bytes rep bound) r k"

fun io_kind :: "io_error \<Rightarrow> error_kind" where
  "io_kind (Io k m) = k"

definition dial_and_relay ::
  "socks_io \<Rightarrow> socket_addr \<Rightarrow> stats_ref \<Rightarrow> ListenerStatsRegistry \<Rightarrow> socks_result" where
  "dial_and_relay io remote a r =
     (case s_dial io remote of
        Inl e \<Rightarrow>
          (case send_reply_then io (if io_kind e = ConnectionRefused then REP_CONN_REFUSED else REP_GENERAL_FAILURE)
              None r (Some (Inl e), [], r) of (x, evs, r') \<Rightarrow> (x, Dialling remote # evs, r'))
      | Inr _ \<Rightarrow>
          (case send_reply_then io REP_SUCCESS (Some remote) r
              (case guarded_relay (s_relay io) a r of (up, down, r', fin) \<Rightarrow>
                 (if fin then Some (Inr ()) else None, [Relaying up down], r')) of
             (x, evs, r') \<Rightarrow> (x, Dialling remote # evs, r')))"

definition socks_handle_connect ::
  "socks_io \<Rightarrow> Destination \<Rightarrow> u16 \<Rightarrow> stats_ref \<Rightarrow> ListenerStatsRegistry \<Rightarrow> socks_result" where
  "socks_handle_connect io dest port a r =
     (case dest of
        Dest_Ip ip \<Rightarrow> dial_and_relay io (sock_new ip port) a r
      | Dest_Domain name \<Rightarrow>
          (case s_resolve io name of
             Inr ip6 \<Rightarrow>
               (case dial_and_relay io (SockV6 ip6 port 0 0) a r of (x, evs, r') \<Rightarrow> (x, Resolving name # evs, r'))
           | Inl e \<Rightarrow>
               (case send_reply_then io REP_GENERAL_FAILURE None r (Some (Inl (io_other e)), [], r) of
                  (x, evs, r') \<Rightarrow> (x, Resolving name # evs, r'))))"

text \<open>One datagram of the relay loop; a datagram that is too short, fragmented or has no usable
  address is skipped.\<close>

definition associate_datagram ::
  "bytes \<Rightarrow> socket_addr \<Rightarrow> udp_outcome \<Rightarrow> stats_ref \<Rightarrow> ListenerStatsRegistry \<Rightarrow>
     socks_event list \<times> ListenerStatsRegistry" where
  "associate_datagram buf client_addr oc a r =
     (if length buf < 4 then ([], r)
      else if buf ! 2 \<noteq> 0 then ([], r)
      else
        (case parse_udp_header buf (buf ! 3) of
           None \<Rightarrow> ([], r)
         | Some (dest, hdr_len) \<Rightarrow>
             let payload = drop hdr_len buf in
             (case uo_open oc of
                Inl _ \<Rightarrow> ([], r)
              | Inr _ \<Rightarrow>
                  (case uo_send oc of
                     Inl _ \<Rightarrow> ([], r)
                   | Inr _ \<Rightarrow>
                       let r1 = upd_stats a (count_bytes Tx (length payload)) r in
                       (case uo_reply oc of
                          Some (Inr (resp, resp_addr)) \<Rightarrow>
                            ([To_Ygg payload dest, To_Udp_Client (build_udp_header resp_addr resp) client_addr],
                             upd_stats a (count_bytes Rx (length resp)) r1)
                        | _ \<Rightarrow> ([To_Ygg payload dest], r1))))))"

fun associate_loop ::
  "assoc_event list \<Rightarrow> stats_ref \<Rightarrow> ConnGuard option \<Rightarrow> ListenerStatsRegistry \<Rightarrow>
     socks_event list \<times> ListenerStatsRegistry \<times> bool" where
  "associate_loop [] a task r = ([], r, False)"
| "associate_loop (Control_Closed # es) a task r =
     ([], (case task of Some g \<Rightarrow> snd (guard_drop g r) | None \<Rightarrow> r), True)"
| "associate_loop (Relay_Recv_Failed # es) a task r =
     associate_loop es a None (case task of Some g \<Rightarrow> snd (guard_drop g r) | None \<Rightarrow> r)"
| "associate_loop (Datagram buf from oc # es) a task r =
     (case task of
        None \<Rightarrow> associate_loop es a None r
      | Some g \<Rightarrow>
          (case associate_datagram (take 4096 buf) from oc a r of (evs, r1) \<Rightarrow>
             (case associate_loop es a (Some g) r1 of (evs', r2, fin) \<Rightarrow> (evs @ evs', r2, fin))))"

definition handle_udp_associate :: "socks_io \<Rightarrow> stats_ref \<Rightarrow> ListenerStatsRegistry \<Rightarrow> socks_result" where
  "handle_udp_associate io a r =
     (case s_local_addr io of
        Inl e \<Rightarrow> (Some (Inl e), [], r)
      | Inr local_tcp \<Rightarrow>
          (case s_bind io (sock_new (sock_ip local_tcp) 0) of
             Inl e \<Rightarrow> (Some (Inl e), [], r)
           | Inr _ \<Rightarrow>
               (case s_relay_addr io of
                  Inl e \<Rightarrow> (Some (Inl e), [], r)
                | Inr relay_addr \<Rightarrow>
                    send_reply_then io REP_SUCCESS (Some relay_addr) r
                      (case guard_new a r of (g, r1) \<Rightarrow>
                         (case associate_loop (s_assoc io) a (Some g) r1 of (evs, r2, fin) \<Rightarrow>
                            (if fin then Some (Inr ()) else None, evs, r2))))))"

text \<open>The negotiation and the fixed part of the request.\<close>

definition read_methods :: "byte_stream \<Rightarrow> bytes reading" where
  "read_methods s =
     read_bind (read_u8 s) (\<lambda>ver s1.
       if ver \<noteq> SOCKS5_VERSION then read_err (Io InvalidData ''not SOCKS5'')
       else read_bind (read_u8 s1) (\<lambda>nmethods s2. read_exact (unat nmethods) s2))"

definition read_request :: "byte_stream \<Rightarrow> (u8 \<times> u8) reading" where
  "read_request s =
     read_bind (read_u8 s) (\<lambda>ver s1.
       if ver \<noteq> SOCKS5_VERSION then read_err (Io InvalidData ''bad version'')
       else read_bind (read_u8 s1) (\<lambda>cmd s2.
            read_bind (read_u8 s2) (\<lambda>rsv s3.
            read_bind (read_u8 s3) (\<lambda>atyp. read_ret (cmd, atyp)))))"

definition run_command ::
  "socks_io \<Rightarrow> u8 \<Rightarrow> Destination \<Rightarrow> u16 \<Rightarrow> stats_ref \<Rightarrow> ListenerStatsRegistry \<Rightarrow> socks_result" where
  "run_command io cmd dest port a r =
     (if cmd = CMD_CONNECT then socks_handle_connect io dest port a r
      else if cmd = CMD_UDP_ASSOCIATE then handle_udp_associate io a r
      else send_reply_then io REP_GENERAL_FAILURE None r
             (Some (Inl (Io Unsupported (''unsupported CMD '' @ show_nat (unat cmd)))), [], r))"

definition socks_request_phase ::
  "socks_io \<Rightarrow> byte_stream \<Rightarrow> stats_ref \<Rightarrow> ListenerStatsRegistry \<Rightarrow> socks_result" where
  "socks_request_phase io s a r =
     (case read_request s of
        None \<Rightarrow> (None, [], r)
      | Some (Inl e) \<Rightarrow> (Some (Inl e), [], r)
      | Some (Inr ((cmd, atyp), s1)) \<Rightarrow>
          (case read_address atyp s1 of
             None \<Rightarrow> (None, [], r)
           | Some (Inl e) \<Rightarrow>
               send_reply_then io REP_ADDR_TYPE_UNSUPPORTED None r (Some (Inl e), [], r)
           | Some (Inr (dest, s2)) \<Rightarrow>
               (case read_u16 s2 of
                  None \<Rightarrow> (None, [], r)
                | Some (Inl e) \<Rightarrow> (Some (Inl e), [], r)
                | Some (Inr (port, s3)) \<Rightarrow> run_command io cmd dest port a r)))"

definition socks_handle_client :: "socks_io \<Rightarrow> stats_ref \<Rightarrow> ListenerStatsRegistry \<Rightarrow> socks_result" where
  "socks_handle_client io a r =
     (case read_methods (client io) of
        None \<Rightarrow> (None, [], r)
      | Some (Inl e) \<Rightarrow> (Some (Inl e), [], r)
      | Some (Inr (methods, s)) \<Rightarrow>
          if AUTH_NO_AUTH \<in> set methods then
            send_then io [SOCKS5_VERSION, AUTH_NO_AUTH] r (socks_request_phase io s a r)
          else
            send_then io [SOCKS5_VERSION, AUTH_NO_ACCEPTABLE] r
              (Some (Inl (Io PermissionDenied ''no acceptable auth'')), [], r))"

definition socks_serve_tcp ::
  "io_error + (io_error + string) \<Rightarrow> 'c accept_event list \<Rightarrow> ListenerStatsRegistry \<Rightarrow>
     (io_error + unit) option \<times> 'c list \<times> ListenerStatsRegistry" where
  "socks_serve_tcp bound events r =
     (case bound of
        Inl e \<Rightarrow> (Some (Inl e), [], r)
      | Inr (Inl e) \<Rightarrow> (Some (Inl e), [], r)
      | Inr (Inr local) \<Rightarrow>
          (let (a, r1) = entry SOCKS_STATS_KEY ''socks'' local [] r;
               (cs, r2, fin) = accept_loop SOCKS_STATS_KEY events r1
           in (if fin then Some (Inr ()) else None, cs, r2)))"

section \<open>The wire formats\<close>

fun dest_bytes :: "Destination \<Rightarrow> bytes" where
  "dest_bytes (Dest_Ip (V4 a)) = ATYP_IPV4 # v4_octets a"
| "dest_bytes (Dest_Ip (V6 a)) = ATYP_IPV6 # v6_octets a"
| "dest_bytes (Dest_Domain n) = ATYP_DOMAIN # of_nat (length n) # str_bytes n"

fun wf_dest :: "Destination \<Rightarrow> bool" where
  "wf_dest (Dest_Ip a) = True"
| "wf_dest (Dest_Domain n) = (length n < 256 \<and> utf8_valid n)"

definition greeting :: "bytes \<Rightarrow> bytes" where
  "greeting methods = SOCKS5_VERSION # of_nat (length methods) # methods"

definition request_bytes :: "u8 \<Rightarrow> u8 \<Rightarrow> Destination \<Rightarrow> u16 \<Rightarrow> bytes" where
  "request_bytes cmd rsv dest port = [SOCKS5_VERSION, cmd, rsv] @ dest_bytes dest @ u16_to_be_bytes port"

lemma read_exact_append:
  "length bs = n \<Longrightarrow> read_exact n \<lparr>avail = bs @ rest, ending = e\<rparr> = Some (Inr (bs, \<lparr>avail = rest, ending = e\<rparr>))"
  by (simp add: read_exact_def)

lemma read_u8_Cons:
  "read_u8 \<lparr>avail = b # rest, ending = e\<rparr> = Some (Inr (b, \<lparr>avail = rest, ending = e\<rparr>))"
  using read_exact_append[of "[b]" 1 rest e] by (simp add: read_u8_def read_bind_def read_ret_def)

lemma read_u16_bytes:
  "read_u16 \<lparr>avail = u16_to_be_bytes p @ rest, ending = e\<rparr> = Some (Inr (p, \<lparr>avail = rest, ending = e\<rparr>))"
  using read_exact_append[of "u16_to_be_bytes p" 2 rest e]
  by (simp add: read_u16_def read_bind_def read_ret_def u16_to_be_bytes_expand)

lemma read_bind_Ready: "read_bind (Some (Inr (a, s))) f = f a s"
  by (simp add: read_bind_def)

lemma read_methods_greeting:
  "length ms < 256 \<Longrightarrow>
   read_methods \<lparr>avail = greeting ms @ rest, ending = e\<rparr> = Some (Inr (ms, \<lparr>avail = rest, ending = e\<rparr>))"
  by (simp add: read_methods_def greeting_def read_u8_Cons read_bind_Ready unat_of_nat_lt read_exact_append)

text \<open>The address type byte is read with the request, the rest of the address after it.\<close>

lemma read_address_dest:
  assumes "wf_dest d"
  shows "\<exists>atyp ad. dest_bytes d = atyp # ad \<and>
    read_address atyp \<lparr>avail = ad @ rest, ending = e\<rparr> = Some (Inr (d, \<lparr>avail = rest, ending = e\<rparr>))"
proof (cases d)
  case (Dest_Ip a)
  then show ?thesis
    by (cases a) (simp_all add: read_address_def socks_consts read_exact_append read_bind_Ready read_ret_def)
next
  case (Dest_Domain n)
  with assms have "length n < 256" "utf8_valid n" by auto
  with Dest_Domain show ?thesis
    by (simp add: read_address_def socks_consts read_u8_Cons read_exact_append read_bind_Ready read_ret_def
        unat_of_nat_lt)
qed

lemma read_request_bytes:
  "read_request \<lparr>avail = [SOCKS5_VERSION, cmd, rsv, atyp] @ rest, ending = e\<rparr> =
   Some (Inr ((cmd, atyp), \<lparr>avail = rest, ending = e\<rparr>))"
  by (simp add: read_request_def read_u8_Cons read_bind_Ready read_ret_def)

lemma request_phase:
  assumes "wf_dest d"
  shows "socks_request_phase io \<lparr>avail = request_bytes cmd rsv d port @ rest, ending = e\<rparr> a r =
    run_command io cmd d port a r"
proof -
  obtain atyp ad where ad: "dest_bytes d = atyp # ad" and
    rd: "read_address atyp \<lparr>avail = ad @ u16_to_be_bytes port @ rest, ending = e\<rparr> =
      Some (Inr (d, \<lparr>avail = u16_to_be_bytes port @ rest, ending = e\<rparr>))"
    using read_address_dest[OF assms] by blast
  then show ?thesis
    using read_request_bytes[of cmd rsv atyp "ad @ u16_to_be_bytes port @ rest" e]
    by (simp add: socks_request_phase_def request_bytes_def read_u16_bytes)
qed

text \<open>The UDP header as a codec of source address and payload.\<close>

definition split_udp :: "bytes \<Rightarrow> (socket_addr \<times> bytes) option" where
  "split_udp buf = map_option (\<lambda>(d, n). (d, drop n buf)) (parse_udp_header buf (buf ! 3))"

lemma parse_build_udp:
  "parse_udp_header (build_udp_header src p) (build_udp_header src p ! 3) =
     Some (sock_new (sock_ip src) (sock_port src), length (build_udp_header src p) - length p)"
proof (cases src)
  case (SockV4 a q)
  obtain w x y z where o: "v4_octets a = [w, x, y, z]" by (simp add: v4_octets_def split_be_def upt_rec)
  then have "v4_of_octets [w, x, y, z] = a" by (metis v4_of_octets_octets)
  with o SockV4 show ?thesis
    by (simp add: build_udp_header_def parse_udp_header_def socks_consts slice_def u16_to_be_bytes_expand)
next
  case (SockV6 a q f sc)
  have "slice 4 20 (0 # 0 # 0 # ATYP_IPV6 # v6_octets a @ u16_to_be_bytes q @ p) = v6_octets a"
    by (simp add: slice_def drop_Cons')
  with SockV6 show ?thesis
    by (simp add: build_udp_header_def parse_udp_header_def socks_consts u16_to_be_bytes_expand nth_append)
qed

lemma build_udp_prefix: "drop (length (build_udp_header src p) - length p) (build_udp_header src p) = p"
  "build_udp_header src p ! 2 = 0" "4 \<le> length (build_udp_header src p)"
  by (cases src; simp add: build_udp_header_def)+

definition plain_addr :: "socket_addr \<Rightarrow> bool" where
  "plain_addr a \<longleftrightarrow> a = sock_new (sock_ip a) (sock_port a)"

interpretation udp_header: datagram_codec build_udp_header split_udp plain_addr
  by unfold_locales (simp add: split_udp_def parse_build_udp build_udp_prefix plain_addr_def)

section \<open>Guards\<close>

lemma associate_datagram_settled:
  assumes "a < length (heap r)" and "settled a r rc"
  shows "settled a r (snd (associate_datagram buf from oc a rc))"
proof -
  note u = settled_upd[OF assms] settled_upd[OF assms(1) settled_upd[OF assms]]
  show ?thesis
    using assms(2) u
    by (auto simp: associate_datagram_def Let_def split: option.splits sum.splits prod.splits)
qed

definition task_state :: "stats_ref \<Rightarrow> ListenerStatsRegistry \<Rightarrow> ConnGuard option \<Rightarrow> ListenerStatsRegistry \<Rightarrow> bool" where
  "task_state a r task rc \<longleftrightarrow>
     (case task of
        Some g \<Rightarrow> guard_stats g = Some a \<and> settled a (upd_stats a conn_opened r) rc
      | None \<Rightarrow> settled a r rc)"

lemma task_state_drop:
  assumes "gauge_room a r" and "task_state a r task rc"
  shows "settled a r (case task of Some g \<Rightarrow> snd (guard_drop g rc) | None \<Rightarrow> rc)"
  using assms settled_close[of a r rc] by (auto simp: task_state_def guard_drop_def split: option.splits)

lemma associate_loop_settled:
  assumes room: "gauge_room a r"
  shows "associate_loop es a task rc = (evs, r', True) \<Longrightarrow> task_state a r task rc \<Longrightarrow> settled a r r'"
proof (induction es arbitrary: task rc evs)
  case (Cons e es)
  show ?case
  proof (cases e)
    case (Datagram buf src oc)
    show ?thesis
    proof (cases task)
      case None
      with Cons Datagram show ?thesis by simp
    next
      case (Some g)
      obtain ev1 r1 where d: "associate_datagram (take 4096 buf) src oc a rc = (ev1, r1)" by fastforce
      obtain ev2 r2 fin where l: "associate_loop es a (Some g) r1 = (ev2, r2, fin)" using prod_cases3 by blast
      have "a < length (heap (upd_stats a conn_opened r))" using room by (simp add: gauge_room_def)
      with associate_datagram_settled[OF this, of rc "take 4096 buf" src oc] d Cons.prems(2) Some
      have "task_state a r (Some g) r1" by (simp add: task_state_def)
      with Cons.IH[of "Some g" r1 ev2] Cons.prems(1) Datagram Some d l show ?thesis by simp
    qed
  next
    case Relay_Recv_Failed
    let ?r = "case task of Some g \<Rightarrow> snd (guard_drop g rc) | None \<Rightarrow> rc"
    have "task_state a r None ?r" using task_state_drop[OF room Cons.prems(2)] by (simp add: task_state_def)
    with Cons.IH[of None ?r evs] Cons.prems(1) Relay_Recv_Failed show ?thesis by simp
  next
    case Control_Closed
    with Cons.prems task_state_drop[OF room Cons.prems(2)] show ?thesis by simp
  qed
qed simp

lemma send_then_settled:
  assumes "\<And>x evs r'. k = (Some x, evs, r') \<Longrightarrow> settled a r r'" and "send_then io bs r k = (Some x, evs, r')"
  shows "settled a r r'"
  using assms by (cases k) (auto simp: send_then_def split: sum.splits)

lemma dial_and_relay_settled:
  assumes "gauge_room a r" and "dial_and_relay io remote a r = (Some x, evs, r')"
  shows "settled a r r'"
proof -
  obtain up down r1 fin where g: "guarded_relay (s_relay io) a r = (up, down, r1, fin)" using prod_cases4 by blast
  show ?thesis
    using assms(2) guarded_settled[OF assms(1), of "s_relay io" up down r1] g
    by (auto simp: dial_and_relay_def send_reply_then_def send_then_def split: sum.splits prod.splits if_splits)
qed

lemma connect_settled:
  assumes "gauge_room a r" and "socks_handle_connect io dest port a r = (Some x, evs, r')"
  shows "settled a r r'"
proof -
  have d: "dial_and_relay io rem a r = (y, ev, r2) \<Longrightarrow> y = Some z \<Longrightarrow> settled a r r2" for rem y ev r2 z
    using dial_and_relay_settled[OF assms(1)] by blast
  show ?thesis
    using assms(2) d
    by (auto simp: socks_handle_connect_def send_reply_then_def send_then_def
        split: Destination.splits sum.splits prod.splits)
qed

lemma associate_settled:
  assumes "gauge_room a r" and "handle_udp_associate io a r = (Some x, evs, r')"
  shows "settled a r r'"
proof -
  let ?g = "\<lparr>guard_stats = Some a\<rparr>" and ?r1 = "upd_stats a conn_opened r"
  obtain ev2 r2 fin where l: "associate_loop (s_assoc io) a (Some ?g) ?r1 = (ev2, r2, fin)" using prod_cases3 by blast
  have "task_state a r (Some ?g) ?r1" by (simp add: task_state_def)
  with associate_loop_settled[OF assms(1), of "s_assoc io" "Some ?g" ?r1 ev2 r2] l
  have "fin \<Longrightarrow> settled a r r2" by simp
  with assms(2) l show ?thesis
    by (auto simp: handle_udp_associate_def send_reply_then_def send_then_def guard_new_def
        split: sum.splits if_splits)
qed

lemma run_command_settled:
  assumes "gauge_room a r" and "run_command io cmd dest port a r = (Some x, evs, r')"
  shows "settled a r r'"
  using assms connect_settled[OF assms(1)] associate_settled[OF assms(1)]
  by (auto simp: run_command_def send_reply_then_def send_then_def split: if_splits sum.splits)

lemma request_phase_settled:
  assumes "gauge_room a r" and "socks_request_phase io s a r = (Some x, evs, r')"
  shows "settled a r r'"
  using assms(2) run_command_settled[OF assms(1), of io]
  by (auto simp: socks_request_phase_def send_reply_then_def send_then_def
      split: option.splits sum.splits prod.splits)

section \<open>Properties\<close>

text \<open>C13. A client that offers the no-authentication method and sends a well-formed
  request (any command, an IPv4, IPv6 or UTF-8 domain destination, any port) is answered with
  that method, and exactly the command, destination and port it sent are carried out; bytes it
  sends after the request are left for the relay.\<close>

theorem socks_request_understood:
  assumes "client io = \<lparr>avail = greeting methods @ request_bytes cmd rsv dest port @ rest, ending = e\<rparr>"
    and "AUTH_NO_AUTH \<in> set methods" and "length methods < 256" and "wf_dest dest"
  shows "socks_handle_client io a r =
    send_then io [SOCKS5_VERSION, AUTH_NO_AUTH] r (run_command io cmd dest port a r)"
  using assms
  by (simp add: socks_handle_client_def read_methods_greeting request_phase)

definition demo_socks :: socks_io where
  "demo_socks = \<lparr>client = \<lparr>avail = greeting [0] @ request_bytes 1 0 (Dest_Domain ''h'') 80 @ [9], ending = None\<rparr>,
     client_accepts = (\<lambda>b. Inr ()), s_resolve = (\<lambda>n. Inr 7), s_dial = (\<lambda>d. Inr ()),
     s_relay = [Down (Inr [], Wrote)], s_local_addr = Inr (SockV4 1 2), s_bind = (\<lambda>d. Inr ()),
     s_relay_addr = Inr (SockV4 1 3), s_assoc = []\<rparr>"

theorem socks_request_understood_witness:
  "socks_handle_client demo_socks 0 (demo_registry False) =
     send_then demo_socks [5, 0] (demo_registry False)
       (run_command demo_socks 1 (Dest_Domain ''h'') 80 0 (demo_registry False))"
proof -
  have "client demo_socks = \<lparr>avail = greeting [0] @ request_bytes 1 0 (Dest_Domain ''h'') 80 @ [9], ending = None\<rparr>"
    by (simp add: demo_socks_def)
  from socks_request_understood[OF this, of 0 "demo_registry False"] show ?thesis
    by (simp add: socks_consts)
qed

text \<open>C16. However a SOCKS connection ends, CONNECT or UDP ASSOCIATE, refused, failed,
  closed or stopped, its listener's \<open>active\<close> gauge is then what it was before, the registry is
  unchanged and so is every other listener's entry.\<close>

theorem socks_gauge_balanced:
  assumes "gauge_room a r" and "socks_handle_client io a r = (Some res, evs, r')"
  shows "settled a r r'"
  using assms(2) request_phase_settled[OF assms(1), of io]
  by (auto simp: socks_handle_client_def send_then_def split: option.splits sum.splits prod.splits if_splits)

theorem socks_gauge_balanced_witness:
  "\<exists>evs r'. socks_handle_client demo_socks 0 (demo_registry False) = (Some (Inr ()), evs, r') \<and>
     settled 0 (demo_registry False) r'"
proof -
  have "client demo_socks = \<lparr>avail = greeting [0] @ request_bytes 1 0 (Dest_Domain ''h'') 80 @ [9], ending = None\<rparr>"
    by (simp add: demo_socks_def)
  moreover have "socks_request_phase demo_socks \<lparr>avail = request_bytes 1 0 (Dest_Domain ''h'') 80 @ [9], ending = None\<rparr>
      0 (demo_registry False) = run_command demo_socks 1 (Dest_Domain ''h'') 80 0 (demo_registry False)"
    by (rule request_phase) simp
  moreover have "\<exists>evs r'. run_command demo_socks 1 (Dest_Domain ''h'') 80 0 (demo_registry False) = (Some (Inr ()), evs, r')"
    by (simp add: run_command_def socks_consts demo_socks_def socks_handle_connect_def dial_and_relay_def
        send_reply_then_def send_then_def guarded_relay_def guard_new_def)
  moreover have "client_accepts demo_socks bs = Inr ()" for bs by (simp add: demo_socks_def)
  ultimately have "\<exists>evs r'. socks_handle_client demo_socks 0 (demo_registry False) = (Some (Inr ()), evs, r')"
    by (auto simp: socks_handle_client_def read_methods_greeting send_then_def socks_consts)
  with socks_gauge_balanced[OF demo_room] show ?thesis by metis
qed

definition sent :: "socks_event list \<Rightarrow> bytes list" where
  "sent evs = [b. Sent b \<leftarrow> evs]"

definition dialled :: "socks_event list \<Rightarrow> socket_addr list" where
  "dialled evs = [d. Dialling d \<leftarrow> evs]"

lemma sent_simps [simp]:
  "sent [] = []" "sent (Sent b # es) = b # sent es" "sent (Resolving n # es) = sent es"
  "sent (Dialling d # es) = sent es" "sent (Relaying u v # es) = sent es"
  "sent (To_Ygg p d # es) = sent es" "sent (To_Udp_Client p d # es) = sent es"
  "sent (xs @ ys) = sent xs @ sent ys"
  by (simp_all add: sent_def)

lemma dialled_simps [simp]:
  "dialled [] = []" "dialled (Sent b # es) = dialled es" "dialled (Resolving n # es) = dialled es"
  "dialled (Dialling d # es) = d # dialled es" "dialled (Relaying u v # es) = dialled es"
  "dialled (To_Ygg p d # es) = dialled es" "dialled (To_Udp_Client p d # es) = dialled es"
  "dialled (xs @ ys) = dialled xs @ dialled ys"
  by (simp_all add: dialled_def)

lemma associate_datagram_quiet:
  "associate_datagram buf src oc a r = (evs, r') \<Longrightarrow> sent evs = [] \<and> dialled evs = [] \<and> (\<forall>u v. Relaying u v \<notin> set evs)"
  by (auto simp: associate_datagram_def Let_def split: if_splits option.splits sum.splits prod.splits)

lemma associate_loop_quiet:
  "associate_loop es a task r = (evs, r', fin) \<Longrightarrow>
   sent evs = [] \<and> dialled evs = [] \<and> (\<forall>u v. Relaying u v \<notin> set evs)"
proof (induction es a task r arbitrary: evs r' fin rule: associate_loop.induct)
  case (4 buf src oc es a task r)
  show ?case
  proof (cases task)
    case None
    with 4 show ?thesis by simp
  next
    case (Some g)
    obtain ev1 r1 where d: "associate_datagram (take 4096 buf) src oc a r = (ev1, r1)" by fastforce
    obtain ev2 r2 f2 where l: "associate_loop es a (Some g) r1 = (ev2, r2, f2)" using prod_cases3 by blast
    from "4.IH"(2)[OF Some d[symmetric] l] associate_datagram_quiet[OF d] "4.prems" Some d l
    show ?thesis by auto
  qed
qed auto

text \<open>What a command may have said and done: at most one reply, a failure reply only with an error,
  a success reply to CONNECT and a relay only over a dial that succeeded.\<close>

definition command_orderly :: "socks_io \<Rightarrow> u8 \<Rightarrow> socks_result \<Rightarrow> bool" where
  "command_orderly io cmd res \<longleftrightarrow> (case res of (x, evs, r) \<Rightarrow>
     length (dialled evs) \<le> 1 \<and>
     (sent evs = [] \<or>
      (\<exists>rep b. sent evs = [reply_bytes rep b] \<and> (rep \<noteq> REP_SUCCESS \<longrightarrow> (\<exists>e. x = Some (Inl e))) \<and>
         (rep = REP_SUCCESS \<and> cmd = CMD_CONNECT \<longrightarrow>
            (\<exists>d. b = Some d \<and> dialled evs = [d] \<and> s_dial io d = Inr ())))) \<and>
     (\<forall>u v. Relaying u v \<in> set evs \<longrightarrow> (\<exists>d. dialled evs = [d] \<and> s_dial io d = Inr ())))"

lemma dial_and_relay_orderly: "command_orderly io cmd (dial_and_relay io remote a r)"
proof -
  obtain up down r1 fin where g: "guarded_relay (s_relay io) a r = (up, down, r1, fin)" using prod_cases4 by blast
  show ?thesis
  proof (cases "s_dial io remote")
    case (Inl e)
    then show ?thesis
      by (auto simp: dial_and_relay_def command_orderly_def send_reply_then_def send_then_def socks_consts
          split: sum.splits intro!: exI[of _ "if io_kind e = ConnectionRefused then 5 else 1"])
  next
    case (Inr u)
    with g show ?thesis
      by (auto simp: dial_and_relay_def command_orderly_def send_reply_then_def send_then_def split: sum.splits)
  qed
qed

lemma orderly_resolving:
  "command_orderly io cmd res \<Longrightarrow>
   command_orderly io cmd (case res of (x, evs, r) \<Rightarrow> (x, Resolving n # evs, r))"
  by (cases res) (auto simp: command_orderly_def)

lemma orderly_failure:
  "rep \<noteq> REP_SUCCESS \<Longrightarrow> command_orderly io cmd (send_reply_then io rep b r (Some (Inl e), [], r))"
  by (auto simp: command_orderly_def send_reply_then_def send_then_def split: sum.splits)

lemma run_command_orderly: "command_orderly io cmd (run_command io cmd dest port a r)"
proof -
  have c: "command_orderly io CMD_CONNECT (socks_handle_connect io dest port a r)"
  proof (cases dest)
    case (Dest_Ip ip)
    then show ?thesis by (simp add: socks_handle_connect_def dial_and_relay_orderly)
  next
    case (Dest_Domain name)
    then show ?thesis
      by (auto simp: socks_handle_connect_def socks_consts
          intro!: orderly_resolving orderly_failure dial_and_relay_orderly split: sum.splits)
  qed
  let ?g = "\<lparr>guard_stats = Some a\<rparr>" and ?r1 = "upd_stats a conn_opened r"
  obtain ev2 r2 fin where l: "associate_loop (s_assoc io) a (Some ?g) ?r1 = (ev2, r2, fin)" using prod_cases3 by blast
  have "command_orderly io CMD_UDP_ASSOCIATE (handle_udp_associate io a r)"
    using associate_loop_quiet[OF l] l
    by (auto simp: handle_udp_associate_def command_orderly_def send_reply_then_def send_then_def guard_new_def
        socks_consts split: sum.splits)
  with c orderly_failure[of REP_GENERAL_FAILURE] show ?thesis
    by (simp add: run_command_def socks_consts)
qed


text \<open>C18. The SOCKS5 UDP header: a packet built for any source address and payload parses
  back to that address and exactly that payload, and is not a fragment.  So a datagram the
  client builds this way is sent on with its payload and destination unchanged, and the reply
  reaches the client with the responder's address in front; fragments and datagrams of fewer
  than four bytes are dropped without effect.\<close>

theorem udp_header_roundtrip:
  "split_udp (build_udp_header src p) = Some (sock_new (sock_ip src) (sock_port src), p) \<and>
   (uo_open oc = Inr () \<and> uo_send oc = Inr () \<and> uo_reply oc = Some (Inr (resp, ra)) \<longrightarrow>
      associate_datagram (build_udp_header src p) ca oc a r =
        ([To_Ygg p (sock_new (sock_ip src) (sock_port src)), To_Udp_Client (build_udp_header ra resp) ca],
         upd_stats a (count_bytes Rx (length resp)) (upd_stats a (count_bytes Tx (length p)) r))) \<and>
   (length buf < 4 \<or> buf ! 2 \<noteq> 0 \<longrightarrow> associate_datagram buf ca oc a r = ([], r))"
proof -
  have l: "\<not> length (build_udp_header src p) < 4" using build_udp_prefix(3)[of src p] by simp
  have n: "length (build_udp_header src p) - (length (build_udp_header src p) - length p) = length p"
    by (simp add: build_udp_header_def)
  show ?thesis
    by (auto simp: split_udp_def parse_build_udp build_udp_prefix associate_datagram_def l n)
qed

theorem udp_header_roundtrip_witness:
  "associate_datagram (build_udp_header (SockV6 1 53 0 0) [1, 2]) (SockV4 9 9)
     \<lparr>uo_open = Inr (), uo_send = Inr (), uo_reply = Some (Inr ([7], SockV6 1 53 0 0))\<rparr> 0 (demo_registry False) =
   ([To_Ygg [1, 2] (SockV6 1 53 0 0), To_Udp_Client (build_udp_header (SockV6 1 53 0 0) [7]) (SockV4 9 9)],
    upd_stats 0 (count_bytes Rx 1) (upd_stats 0 (count_bytes Tx 2) (demo_registry False)))"
  using udp_header_roundtrip[of "SockV6 1 53 0 0" "[1, 2]"
      "\<lparr>uo_open = Inr (), uo_send = Inr (), uo_reply = Some (Inr ([7], SockV6 1 53 0 0))\<rparr>" "[7]" "SockV6 1 53 0 0"
      "SockV4 9 9" 0 "demo_registry False"]
  by (simp add: numeral_2_eq_2)

end
