(* ===== verification/Forward_Tcp.thy ===== *)
theory Forward_Tcp
  imports Port_Mapping Relay
begin

text \<open>
  TCP port forwarding, \<open>crates/yggstack/src/forward/tcp.rs\<close>: the registry keys, the listener tasks
  of local and remote mappings and the forwarding of one connection.  A task runs against the
  result of binding its port and the events of its accept loop.
\<close>

section \<open>Model\<close>

definition local_tcp_key :: "TcpMapping \<Rightarrow> string" where
  "local_tcp_key mapping =
     ''ltcp:'' @ show_socket (tcp_listen mapping) @ ''->'' @ show_socket (tcp_target mapping)"

definition remote_tcp_key :: "TcpMapping \<Rightarrow> string" where
  "remote_tcp_key mapping =
     ''rtcp:'' @ show_nat (unat (sock_port (tcp_listen mapping))) @ ''->'' @ show_socket (tcp_target mapping)"

text \<open>The task of a listener: on a failed bind the entry is removed and the task ends, otherwise it
  accepts connections until the stop signal.\<close>

definition listener_task ::
  "string \<Rightarrow> io_error + unit \<Rightarrow> 'c accept_event list \<Rightarrow> ListenerStatsRegistry \<Rightarrow>
     'c list \<times> ListenerStatsRegistry \<times> bool" where
  "listener_task key bound events r =
     (case bound of
        Inl _ \<Rightarrow> ([], registry_remove key r, True)
      | Inr _ \<Rightarrow> accept_loop key events r)"

definition spawn_local_tcp ::
  "TcpMapping \<Rightarrow> ListenerStatsRegistry \<Rightarrow> string \<times> stats_ref \<times> ListenerStatsRegistry" where
  "spawn_local_tcp mapping r =
     (let key = local_tcp_key mapping;
          (a, r1) = entry key ''local-tcp'' (show_socket (tcp_listen mapping))
                      (show_socket (tcp_target mapping)) r
      in (key, a, r1))"

definition spawn_remote_tcp ::
  "TcpMapping \<Rightarrow> ListenerStatsRegistry \<Rightarrow> string \<times> stats_ref \<times> ListenerStatsRegistry" where
  "spawn_remote_tcp mapping r =
     (let port = sock_port (tcp_listen mapping);
          key = remote_tcp_key mapping;
          (a, r1) = entry key ''remote-tcp'' (''ygg:'' @ show_nat (unat port))
                      (show_socket (tcp_target mapping)) r
      in (key, a, r1))"

text \<open>The guard exists before the other side is connected, and is dropped on every way out.\<close>

definition forward_with_guard ::
  "io_error + unit \<Rightarrow> relay_event list \<Rightarrow> stats_ref \<Rightarrow> ListenerStatsRegistry \<Rightarrow>
     (io_error + bytes \<times> bytes) option \<times> ListenerStatsRegistry" where
  "forward_with_guard connected es a r =
     (case guard_new a r of (g, r1) \<Rightarrow>
        (case connected of
           Inl e \<Rightarrow> (Some (Inl e), snd (guard_drop g r1))
         | Inr _ \<Rightarrow>
             (case relay es a r1 of (up, down, r2, fin) \<Rightarrow>
                if fin then (Some (Inr (up, down)), snd (guard_drop g r2)) else (None, r2))))"

definition forward_local_tcp ::
  "(socket_addr \<Rightarrow> io_error + unit) \<Rightarrow> socket_addr \<Rightarrow> relay_event list \<Rightarrow> stats_ref \<Rightarrow>
     ListenerStatsRegistry \<Rightarrow> (io_error + bytes \<times> bytes) option \<times> ListenerStatsRegistry" where
  "forward_local_tcp dial target es a r = forward_with_guard (dial target) es a r"

text \<open>Connecting to the local target is bounded by \<open>CONNECT_TIMEOUT\<close>: \<open>None\<close> when it passes.\<close>

definition forward_remote_tcp ::
  "(socket_addr \<Rightarrow> (io_error + unit) option) \<Rightarrow> socket_addr \<Rightarrow> relay_event list \<Rightarrow> stats_ref \<Rightarrow>
     ListenerStatsRegistry \<Rightarrow> (io_error + bytes \<times> bytes) option \<times> ListenerStatsRegistry" where
  "forward_remote_tcp connect target es a r =
     forward_with_guard
       (case connect target of
          None \<Rightarrow> Inl (Io TimedOut ''local connect timed out'')
        | Some res \<Rightarrow> res) es a r"

section \<open>Lemmas\<close>

definition sock_char :: "char \<Rightarrow> bool" where
  "sock_char c \<longleftrightarrow> addr_char c \<or> c \<in> set ''[]%''"

lemma show_nat_sock: "list_all sock_char (show_nat n)"
  using show_nat_props[of n] by (auto simp: list_all_iff sock_char_def addr_char_def dest: hex_of_dec)

lemma show_socket_chars: "list_all sock_char (show_socket a)"
proof (cases a)
  case (SockV4 x p)
  then show ?thesis
    using show_ipv4_chars[of x] show_nat_sock[of "unat p"] by (auto simp: list_all_iff sock_char_def)
next
  case (SockV6 x p f sc)
  then show ?thesis
    using show_ipv6_chars[of x] show_nat_sock[of "unat p"] show_nat_sock[of "unat sc"]
    by (auto simp: list_all_iff sock_char_def)
qed

lemma no_dash: "CHR ''-'' \<notin> set (show_socket a)" "CHR ''-'' \<notin> set (show_nat n)"
  using show_socket_chars[of a] show_nat_sock[of n]
  by (auto simp: list_all_iff sock_char_def addr_char_def)

lemma arrow_split:
  assumes "CHR ''-'' \<notin> set x" and "CHR ''-'' \<notin> set x'"
  shows "x @ ''->'' @ y = x' @ ''->'' @ y' \<longleftrightarrow> x = x' \<and> y = y'"
  using assms
proof (induction x arbitrary: x')
  case Nil
  then show ?case by (cases x') auto
next
  case (Cons c x)
  then show ?case by (cases x') auto
qed

lemma accept_loop_registry:
  "accept_loop key es r = (cs, r', fin) \<Longrightarrow> r' = (if fin then registry_remove key r else r)"
  by (induction key es r arbitrary: cs rule: accept_loop.induct) (auto split: prod.splits)

lemma forward_settled:
  assumes "gauge_room a r" and "forward_with_guard c es a r = (Some x, r')"
  shows "settled a r r'"
proof (cases c)
  case (Inl e)
  with assms settled_close[OF assms(1) settled_refl] show ?thesis
    by (auto simp: forward_with_guard_def guard_new_def guard_drop_def)
next
  case (Inr u)
  obtain up down r2 fin where l: "relay es a (upd_stats a conn_opened r) = (up, down, r2, fin)" using prod_cases4 by blast
  from Inr assms(2) l have "guarded_relay es a r = (up, down, r', True)"
    by (auto simp: forward_with_guard_def guarded_relay_def guard_new_def split: if_splits)
  with assms(1) show ?thesis by (rule guarded_settled)
qed

section \<open>Properties\<close>

text \<open>Two TCP mappings of the same kind have the same registry key only if they are
  the same: a local key determines the listen and target addresses, a remote key the port and
  the target.  A local and a remote mapping never share a key.\<close>

theorem tcp_keys_distinguish:
  assumes "flow_free (tcp_listen m)" "flow_free (tcp_target m)" "flow_free (tcp_listen n)" "flow_free (tcp_target n)"
  shows "(local_tcp_key m = local_tcp_key n \<longleftrightarrow> m = n) \<and>
    (remote_tcp_key m = remote_tcp_key n \<longleftrightarrow>
       sock_port (tcp_listen m) = sock_port (tcp_listen n) \<and> tcp_target m = tcp_target n) \<and>
    local_tcp_key m \<noteq> remote_tcp_key n"
proof -
  have port: "show_nat (unat p) = show_nat (unat q) \<longleftrightarrow> p = q" for p q :: u16
    using show_nat_inject[of "unat p" "unat q"] by (auto simp: unsigned_word_eqI)
  have "local_tcp_key m = local_tcp_key n \<longleftrightarrow> tcp_listen m = tcp_listen n \<and> tcp_target m = tcp_target n"
    using arrow_split[OF no_dash(1)[of "tcp_listen m"] no_dash(1)[of "tcp_listen n"]] assms
    by (simp add: local_tcp_key_def socket_text.enc_inject)
  moreover have "remote_tcp_key m = remote_tcp_key n \<longleftrightarrow>
      sock_port (tcp_listen m) = sock_port (tcp_listen n) \<and> tcp_target m = tcp_target n"
    using arrow_split[OF no_dash(2) no_dash(2)] assms
    by (simp add: remote_tcp_key_def socket_text.enc_inject port)
  moreover have "local_tcp_key m \<noteq> remote_tcp_key n" by (simp add: local_tcp_key_def remote_tcp_key_def)
  moreover have "m = n \<longleftrightarrow> tcp_listen m = tcp_listen n \<and> tcp_target m = tcp_target n"
    by (cases m; cases n) simp
  ultimately show ?thesis by blast
qed

theorem tcp_keys_distinguish_witness:
  "local_tcp_key \<lparr>tcp_listen = SockV4 0 80, tcp_target = SockV6 1 80 0 0\<rparr> \<noteq>
   local_tcp_key \<lparr>tcp_listen = SockV4 0 81, tcp_target = SockV6 1 80 0 0\<rparr>"
  using tcp_keys_distinguish[of "\<lparr>tcp_listen = SockV4 0 80, tcp_target = SockV6 1 80 0 0\<rparr>"
      "\<lparr>tcp_listen = SockV4 0 81, tcp_target = SockV6 1 80 0 0\<rparr>"] by simp

text \<open>A forwarded TCP connection counts from before the other side is connected; once it
  is over, a refused or timed-out connection included, the listener's gauge is what it was.\<close>

theorem forward_gauge_balanced:
  assumes "gauge_room a r"
  shows "(forward_local_tcp dial target es a r = (Some x, r') \<longrightarrow> settled a r r') \<and>
    (forward_remote_tcp connect target es a r = (Some x, r') \<longrightarrow> settled a r r')"
  using forward_settled[OF assms] by (auto simp: forward_local_tcp_def forward_remote_tcp_def)

theorem forward_gauge_balanced_witness:
  "\<exists>r'. forward_remote_tcp (\<lambda>d. None) (SockV4 1 22) [] 0 (demo_registry False) =
     (Some (Inl (Io TimedOut ''local connect timed out'')), r') \<and> settled 0 (demo_registry False) r'"
proof -
  have "\<exists>r'. forward_remote_tcp (\<lambda>d. None) (SockV4 1 22) [] 0 (demo_registry False) =
      (Some (Inl (Io TimedOut ''local connect timed out'')), r')"
    by (simp add: forward_remote_tcp_def forward_with_guard_def guard_new_def)
  with forward_gauge_balanced[OF demo_room] show ?thesis by metis
qed

text \<open>Starting a mapping a second time while its listener runs shares the entry of the
  first; when the second task then fails to bind the port, it removes that entry, and the
  listener that is still running and counting no longer appears in the registry.\<close>

theorem second_bind_unregisters_first:
  assumes "spawn_local_tcp m r = (key, a, r1)" and "listener_task key (Inr ()) [] r1 = (cs, r2, False)"
    and "spawn_local_tcp m r2 = (key2, a2, r3)" and "listener_task key2 (Inl e) es r3 = (cs', r4, fin)"
  shows "key2 = key \<and> a2 = a \<and> hm_get (inner r2) key = Some a \<and> hm_get (inner r4) key = None"
  using assms
  by (auto simp: spawn_local_tcp_def listener_task_def entry_def registry_remove_def Let_def split: option.splits)

theorem second_bind_unregisters_first_witness:
  "\<exists>key a r1 key2 r3 cs r4. spawn_local_tcp \<lparr>tcp_listen = SockV4 0 80, tcp_target = SockV6 1 80 0 0\<rparr> new_registry = (key, a, r1) \<and>
     spawn_local_tcp \<lparr>tcp_listen = SockV4 0 80, tcp_target = SockV6 1 80 0 0\<rparr> r1 = (key2, a, r3) \<and>
     listener_task key2 (Inl (Io AddrInUse [])) ([] :: unit accept_event list) r3 = (cs, r4, True) \<and>
     hm_get (inner r1) key = Some a \<and> hm_get (inner r4) key = None"
proof -
  let ?m = "\<lparr>tcp_listen = SockV4 0 80, tcp_target = SockV6 1 80 0 0\<rparr>"
  obtain key a r1 where s1: "spawn_local_tcp ?m new_registry = (key, a, r1)" using prod_cases3 by blast
  obtain key2 a2 r3 where s2: "spawn_local_tcp ?m r1 = (key2, a2, r3)" using prod_cases3 by blast
  obtain cs' r4 fin where t2: "listener_task key2 (Inl (Io AddrInUse [])) ([] :: unit accept_event list) r3 = (cs', r4, fin)"
    using prod_cases3 by blast
  have t1: "listener_task key (Inr ()) ([] :: unit accept_event list) r1 = ([], r1, False)" by (simp add: listener_task_def)
  have "fin" using t2 by (simp add: listener_task_def)
  then have t2': "listener_task key2 (Inl (Io AddrInUse [])) ([] :: unit accept_event list) r3 = (cs', r4, True)"
    using t2 by simp
  from second_bind_unregisters_first[OF s1 t1 s2 t2]
  have "spawn_local_tcp ?m r1 = (key2, a, r3)" "hm_get (inner r1) key = Some a" "hm_get (inner r4) key = None"
    using s2 by auto
  with s1 t2' show ?thesis by blast
qed

end
