(* ===== verification/Forward_Udp.thy ===== *)
theory Forward_Udp
  imports Port_Mapping Relay
begin

text \<open>
  UDP port forwarding, \<open>crates/yggstack/src/forward/udp.rs\<close>: sessions keyed by peer, a listener
  task per session that carries the replies, eviction of idle sessions and the clean-up on stop.
  Tasks are entries of a list and a \<open>JoinHandle\<close> is an index into it; a socket is a number.  The
  receive loop handles a datagram in two steps, because other tasks run while it waits to send:
  \<open>begin\<close> finds or makes the session, \<open>finish\<close> sends and starts the session's listener.
\<close>

section \<open>Model\<close>

definition SESSION_TTL_SECS :: nat where "SESSION_TTL_SECS = 30"
definition EVICT_TIMER_SECS :: nat where "EVICT_TIMER_SECS = 10"

record UdpSession =
  us_socket :: nat
  last_active :: instant
  listener_handle :: "nat option"

text \<open>A spawned task counts its connection when it first runs, and uncounts it when it ends.\<close>

datatype task_status = Spawned | Running ConnGuard | Finished

record udp_task =
  task_socket :: nat
  task_peer :: socket_addr
  status :: task_status

text \<open>The datagram the receive loop is working on.\<close>

record datagram =
  in_from :: socket_addr
  in_sock :: nat
  need_listener :: bool
  in_len :: nat
  in_time :: instant

record udp_state =
  sessions :: "(socket_addr, UdpSession) hash_map"
  tasks :: "udp_task list"
  next_sock :: nat
  reg :: ListenerStatsRegistry
  inflight :: "datagram option"
  stopped :: bool

definition local_udp_key :: "UdpMapping \<Rightarrow> string" where
  "local_udp_key mapping =
     ''ludp:'' @ show_socket (udp_listen mapping) @ ''->'' @ show_socket (udp_target mapping)"

definition remote_udp_key :: "UdpMapping \<Rightarrow> string" where
  "remote_udp_key mapping =
     ''rudp:'' @ show_nat (unat (sock_port (udp_listen mapping))) @ ''->'' @ show_socket (udp_target mapping)"

definition init_udp :: "ListenerStatsRegistry \<Rightarrow> udp_state" where
  "init_udp r = \<lparr>sessions = hm_new, tasks = [], next_sock = 0, reg = r, inflight = None, stopped = False\<rparr>"

text \<open>\<open>spawn_local_udp\<close> and \<open>spawn_remote_udp\<close> register the listener and start its task; the task
  ends at once when it cannot bind.\<close>

definition spawn_local_udp ::
  "UdpMapping \<Rightarrow> io_error + unit \<Rightarrow> ListenerStatsRegistry \<Rightarrow> string \<times> stats_ref \<times> udp_state" where
  "spawn_local_udp mapping bound r =
     (let key = local_udp_key mapping;
          (a, r1) = entry key ''local-udp'' (show_socket (udp_listen mapping))
                      (show_socket (udp_target mapping)) r
      in (key, a, case bound of
           Inr _ \<Rightarrow> init_udp r1
         | Inl _ \<Rightarrow> (init_udp (registry_remove key r1))\<lparr>stopped := True\<rparr>))"

definition spawn_remote_udp ::
  "UdpMapping \<Rightarrow> io_error + unit \<Rightarrow> ListenerStatsRegistry \<Rightarrow> string \<times> stats_ref \<times> udp_state" where
  "spawn_remote_udp mapping bound r =
     (let key = remote_udp_key mapping;
          (a, r1) = entry key ''remote-udp'' (''ygg:'' @ show_nat (unat (sock_port (udp_listen mapping))))
                      (show_socket (udp_target mapping)) r
      in (key, a, case bound of
           Inr _ \<Rightarrow> init_udp r1
         | Inl _ \<Rightarrow> (init_udp (registry_remove key r1))\<lparr>stopped := True\<rparr>))"

definition is_finished :: "udp_state \<Rightarrow> nat \<Rightarrow> bool" where
  "is_finished st h \<longleftrightarrow> status (tasks st ! h) = Finished"

text \<open>The session under the lock: refresh it and see whether it needs a listener.\<close>

definition touch_session ::
  "socket_addr \<Rightarrow> nat \<Rightarrow> instant \<Rightarrow> UdpSession \<Rightarrow> udp_state \<Rightarrow> udp_state" where
  "touch_session peer n t s st =
     (let need = (case listener_handle s of None \<Rightarrow> True | Some h \<Rightarrow> is_finished st h)
      in st\<lparr>sessions := hm_insert peer (s\<lparr>last_active := t\<rparr>) (sessions st),
            inflight := Some \<lparr>in_from = peer, in_sock = us_socket s, need_listener = need,
                              in_len = n, in_time = t\<rparr>\<rparr>)"

text \<open>\<open>open_udp().unwrap()\<close> panics when no socket can be opened: \<open>None\<close>.\<close>

definition local_begin ::
  "socket_addr \<Rightarrow> nat \<Rightarrow> instant \<Rightarrow> instant \<Rightarrow> io_error + unit \<Rightarrow> udp_state \<Rightarrow> udp_state option" where
  "local_begin peer n t_new t opened st =
     (case hm_get (sessions st) peer of
        Some s \<Rightarrow> Some (touch_session peer n t s st)
      | None \<Rightarrow>
          (case opened of
             Inl _ \<Rightarrow> None
           | Inr _ \<Rightarrow>
               Some (touch_session peer n t
                 \<lparr>us_socket = next_sock st, last_active = t_new, listener_handle = None\<rparr>
                 (st\<lparr>next_sock := Suc (next_sock st)\<rparr>))))"

definition remote_begin ::
  "stats_ref \<Rightarrow> socket_addr \<Rightarrow> nat \<Rightarrow> instant \<Rightarrow> instant \<Rightarrow> io_error + unit \<Rightarrow> udp_state \<Rightarrow> udp_state" where
  "remote_begin a peer n t_new t opened st0 =
     (let st = st0\<lparr>reg := upd_stats a (count_bytes Rx n) (reg st0)\<rparr> in
      case hm_get (sessions st) peer of
        Some s \<Rightarrow> touch_session peer n t s st
      | None \<Rightarrow>
          (case opened of
             Inl _ \<Rightarrow> st
           | Inr _ \<Rightarrow>
               touch_session peer n t
                 \<lparr>us_socket = next_sock st, last_active = t_new, listener_handle = None\<rparr>
                 (st\<lparr>next_sock := Suc (next_sock st)\<rparr>)))"

text \<open>Starting the listener of a session and leaving its handle there, if the session is still
  there.\<close>

definition spawn_listener :: "datagram \<Rightarrow> udp_state \<Rightarrow> udp_state" where
  "spawn_listener d st =
     (if need_listener d then
        (let h = length (tasks st);
             st1 = st\<lparr>tasks := tasks st @ [\<lparr>task_socket = in_sock d, task_peer = in_from d, status = Spawned\<rparr>]\<rparr>
         in case hm_get (sessions st1) (in_from d) of
              Some s \<Rightarrow> st1\<lparr>sessions := hm_insert (in_from d) (s\<lparr>listener_handle := Some h\<rparr>) (sessions st1)\<rparr>
            | None \<Rightarrow> st1)
      else st)"

definition local_finish :: "stats_ref \<Rightarrow> io_error + unit \<Rightarrow> datagram \<Rightarrow> udp_state \<Rightarrow> udp_state" where
  "local_finish a sent d st =
     (let st1 = st\<lparr>inflight := None\<rparr> in
      case sent of
        Inl _ \<Rightarrow> st1
      | Inr _ \<Rightarrow> spawn_listener d (st1\<lparr>reg := upd_stats a (count_bytes Tx (in_len d)) (reg st1)\<rparr>))"

definition remote_finish :: "io_error + unit \<Rightarrow> datagram \<Rightarrow> udp_state \<Rightarrow> udp_state" where
  "remote_finish sent d st = spawn_listener d (st\<lparr>inflight := None\<rparr>)"

definition set_status :: "nat \<Rightarrow> task_status \<Rightarrow> udp_state \<Rightarrow> udp_state" where
  "set_status h s st = st\<lparr>tasks := (tasks st)[h := (tasks st ! h)\<lparr>status := s\<rparr>]\<rparr>"

text \<open>A listener task: it starts, receives replies (received from the network for a local mapping,
  sent to it for a remote one), and ends when receiving fails.\<close>

definition task_start :: "stats_ref \<Rightarrow> nat \<Rightarrow> udp_state \<Rightarrow> udp_state" where
  "task_start a h st =
     (case guard_new a (reg st) of (g, r1) \<Rightarrow> set_status h (Running g) (st\<lparr>reg := r1\<rparr>))"

definition task_recv :: "stats_ref \<Rightarrow> Dir \<Rightarrow> nat \<Rightarrow> udp_state \<Rightarrow> udp_state" where
  "task_recv a dir n st = st\<lparr>reg := upd_stats a (count_bytes dir n) (reg st)\<rparr>"

text \<open>\<open>JoinHandle::abort\<close>, and the end of a task: a guard it holds is dropped.\<close>

definition abort_task :: "nat \<Rightarrow> udp_state \<Rightarrow> udp_state" where
  "abort_task h st =
     (case status (tasks st ! h) of
        Running g \<Rightarrow> set_status h Finished (st\<lparr>reg := snd (guard_drop g (reg st))\<rparr>)
      | Spawned \<Rightarrow> set_status h Finished st
      | Finished \<Rightarrow> st)"

definition remove_session :: "udp_state \<Rightarrow> socket_addr \<Rightarrow> udp_state" where
  "remove_session st k =
     (case hm_get (sessions st) k of
        None \<Rightarrow> st
      | Some s \<Rightarrow>
          (let st1 = st\<lparr>sessions := hm_remove k (sessions st)\<rparr>
           in case listener_handle s of Some h \<Rightarrow> abort_task h st1 | None \<Rightarrow> st1))"

definition stale :: "instant \<Rightarrow> UdpSession \<Rightarrow> bool" where
  "stale t s \<longleftrightarrow> SESSION_TTL_SECS \<le> as_secs (duration_since t (last_active s))"

definition evict :: "instant \<Rightarrow> udp_state \<Rightarrow> udp_state" where
  "evict t st = foldl remove_session st (map fst (filter (\<lambda>(k, s). stale t s) (sessions st)))"

definition abort_session :: "udp_state \<Rightarrow> UdpSession \<Rightarrow> udp_state" where
  "abort_session st s = (case listener_handle s of Some h \<Rightarrow> abort_task h st | None \<Rightarrow> st)"

definition abort_all_sessions :: "udp_state \<Rightarrow> udp_state" where
  "abort_all_sessions st = (foldl abort_session st (hm_values (sessions st)))\<lparr>sessions := hm_new\<rparr>"

definition stop_udp :: "string \<Rightarrow> udp_state \<Rightarrow> udp_state" where
  "stop_udp key st = (abort_all_sessions (st\<lparr>reg := registry_remove key (reg st)\<rparr>))\<lparr>stopped := True\<rparr>"

section \<open>Steps\<close>

text \<open>The interleaving of the receive loop, the listener tasks, the eviction timer and the stop
  signal, for the entry \<open>a\<close> and key of the listener.  Two side conditions bound the
  environment: the number of connections counted stays below \<open>2 ^ 63\<close>, and a datagram is sent
  before its session could expire (a send that waits for thirty seconds is excluded).\<close>

datatype flavour = Local_Udp | Remote_Udp

inductive udp_step :: "flavour \<Rightarrow> string \<Rightarrow> stats_ref \<Rightarrow> udp_state \<Rightarrow> udp_state \<Rightarrow> bool"
  for fl key a where
  Begin_Local: "fl = Local_Udp \<Longrightarrow> \<not> stopped st \<Longrightarrow> inflight st = None \<Longrightarrow>
    local_begin peer n t_new t opened st = Some st' \<Longrightarrow> udp_step fl key a st st'"
| Begin_Remote: "fl = Remote_Udp \<Longrightarrow> \<not> stopped st \<Longrightarrow> inflight st = None \<Longrightarrow>
    udp_step fl key a st (remote_begin a peer n t_new t opened st)"
| Finish_Local: "fl = Local_Udp \<Longrightarrow> inflight st = Some d \<Longrightarrow>
    udp_step fl key a st (local_finish a sent d st)"
| Finish_Remote: "fl = Remote_Udp \<Longrightarrow> inflight st = Some d \<Longrightarrow>
    udp_step fl key a st (remote_finish sent d st)"
| Start: "h < length (tasks st) \<Longrightarrow> status (tasks st ! h) = Spawned \<Longrightarrow>
    Suc (gauge_level (heap (reg st) ! a)) < 2 ^ 63 \<Longrightarrow> udp_step fl key a st (task_start a h st)"
| Recv: "h < length (tasks st) \<Longrightarrow> status (tasks st ! h) = Running g \<Longrightarrow>
    udp_step fl key a st (task_recv a (if fl = Local_Udp then Rx else Tx) n st)"
| End: "h < length (tasks st) \<Longrightarrow> status (tasks st ! h) = Running g \<Longrightarrow>
    udp_step fl key a st (abort_task h st)"
| Evict: "(\<And>d. inflight st = Some d \<Longrightarrow> as_secs (duration_since t (in_time d)) < SESSION_TTL_SECS) \<Longrightarrow>
    udp_step fl key a st (evict t st)"
| Stop: "\<not> stopped st \<Longrightarrow> inflight st = None \<Longrightarrow> udp_step fl key a st (stop_udp key st)"

inductive_cases udp_stepE: "udp_step fl key a st st'"

section \<open>Invariant\<close>

definition handle_of :: "udp_state \<Rightarrow> socket_addr \<Rightarrow> nat option" where
  "handle_of st k = Option.bind (hm_get (sessions st) k) listener_handle"

text \<open>Every handle is that of a task for its session's peer; every task that has not finished is
  the listener of its peer's session; the session of the datagram in flight exists, was active
  when the datagram arrived, and has no live listener if one is to be started.\<close>

definition linked :: "udp_state \<Rightarrow> bool" where
  "linked st \<longleftrightarrow> hm_invar (sessions st) \<and>
     (\<forall>k h. handle_of st k = Some h \<longrightarrow> h < length (tasks st) \<and> task_peer (tasks st ! h) = k) \<and>
     (\<forall>h<length (tasks st). status (tasks st ! h) \<noteq> Finished \<longrightarrow> handle_of st (task_peer (tasks st ! h)) = Some h)"

definition flight_ok :: "udp_state \<Rightarrow> bool" where
  "flight_ok st \<longleftrightarrow>
     (\<forall>d. inflight st = Some d \<longrightarrow> \<not> stopped st \<and>
        (\<exists>s. hm_get (sessions st) (in_from d) = Some s \<and> last_active s = in_time d \<and>
           (need_listener d \<longrightarrow> (\<forall>h. listener_handle s = Some h \<longrightarrow> is_finished st h)))) \<and>
     (stopped st \<longrightarrow> sessions st = [])"

definition is_running :: "udp_task \<Rightarrow> bool" where
  "is_running t \<longleftrightarrow> (case status t of Running g \<Rightarrow> True | _ \<Rightarrow> False)"

definition running :: "udp_state \<Rightarrow> nat" where
  "running st = length (filter is_running (tasks st))"

definition counted :: "stats_ref \<Rightarrow> nat \<Rightarrow> udp_state \<Rightarrow> bool" where
  "counted a g0 st \<longleftrightarrow> a < length (heap (reg st)) \<and> gauge_valid (heap (reg st) ! a) \<and>
     gauge_level (heap (reg st) ! a) = g0 + running st \<and>
     (\<forall>h<length (tasks st). \<forall>g. status (tasks st ! h) = Running g \<longrightarrow> guard_stats g = Some a)"

definition udp_inv :: "stats_ref \<Rightarrow> nat \<Rightarrow> udp_state \<Rightarrow> bool" where
  "udp_inv a g0 st \<longleftrightarrow> linked st \<and> flight_ok st \<and> counted a g0 st"

lemma udp_inv_init:
  "a < length (heap r) \<Longrightarrow> gauge_valid (heap r ! a) \<Longrightarrow> udp_inv a (gauge_level (heap r ! a)) (init_udp r)"
  by (simp add: udp_inv_def linked_def flight_ok_def counted_def init_udp_def handle_of_def running_def)

text \<open>Ending a task.\<close>

lemma set_status_simps [simp]:
  "sessions (set_status h s st) = sessions st" "inflight (set_status h s st) = inflight st"
  "stopped (set_status h s st) = stopped st" "reg (set_status h s st) = reg st"
  "length (tasks (set_status h s st)) = length (tasks st)"
  by (simp_all add: set_status_def)

lemma set_status_nth:
  "i < length (tasks st) \<Longrightarrow>
   tasks (set_status h s st) ! i = (if i = h then (tasks st ! i)\<lparr>status := s\<rparr> else tasks st ! i)"
  by (simp add: set_status_def nth_list_update)

lemma abort_task_simps [simp]:
  "sessions (abort_task h st) = sessions st" "inflight (abort_task h st) = inflight st"
  "stopped (abort_task h st) = stopped st" "length (tasks (abort_task h st)) = length (tasks st)"
  by (simp_all add: abort_task_def split: task_status.split)

lemma abort_task_nth:
  "i < length (tasks st) \<Longrightarrow>
   tasks (abort_task h st) ! i = (if i = h then (tasks st ! i)\<lparr>status := Finished\<rparr> else tasks st ! i)"
  by (cases "tasks st ! i")
    (auto simp: abort_task_def set_status_nth set_status_def nth_list_update split: task_status.split)

lemma abort_task_counted:
  assumes "counted a g0 st" and "h < length (tasks st)"
  shows "counted a g0 (abort_task h st)"
proof (cases "status (tasks st ! h)")
  case (Running g)
  let ?t = "(tasks st ! h)\<lparr>status := Finished\<rparr>"
  have g: "guard_stats g = Some a" and a: "a < length (heap (reg st))" using assms Running by (auto simp: counted_def)
  have "running (abort_task h st) + 1 = running st"
    using length_filter_update[OF assms(2), of is_running ?t] Running
    by (simp add: running_def abort_task_def set_status_def is_running_def)
  moreover have "heap (reg (abort_task h st)) ! a = conn_closed (heap (reg st) ! a)"
    using Running g a by (simp add: abort_task_def guard_drop_def upd_stats_nth)
  moreover have "length (heap (reg (abort_task h st))) = length (heap (reg st))"
    using Running g by (simp add: abort_task_def guard_drop_def)
  ultimately show ?thesis
    using assms conns.down_level[of "heap (reg st) ! a"] by (auto simp: counted_def abort_task_nth)
next
  case Spawned
  let ?t = "(tasks st ! h)\<lparr>status := Finished\<rparr>"
  have "running (abort_task h st) = running st"
    using length_filter_update[OF assms(2), of is_running ?t] Spawned
    by (simp add: running_def abort_task_def set_status_def is_running_def)
  moreover have "reg (abort_task h st) = reg st" using Spawned by (simp add: abort_task_def)
  ultimately show ?thesis using assms by (auto simp: counted_def abort_task_nth)
qed (use assms in \<open>simp add: abort_task_def\<close>)

text \<open>Removing a session ends its listener and touches nothing else.\<close>

lemma remove_session_simps [simp]:
  "inflight (remove_session st k) = inflight st" "stopped (remove_session st k) = stopped st"
  "length (tasks (remove_session st k)) = length (tasks st)"
  "hm_get (sessions (remove_session st k)) k' = (if k' = k then None else hm_get (sessions st) k')"
  by (auto simp: remove_session_def Let_def split: option.split)

lemma remove_session_nth:
  "i < length (tasks st) \<Longrightarrow>
   tasks (remove_session st k) ! i =
     (if handle_of st k = Some i then (tasks st ! i)\<lparr>status := Finished\<rparr> else tasks st ! i)"
  by (auto simp: remove_session_def handle_of_def abort_task_nth Let_def split: option.split)

lemma remove_session_handle:
  "handle_of (remove_session st k) k' = (if k' = k then None else handle_of st k')"
  by (simp add: handle_of_def)

lemma remove_session_linked: "linked st \<Longrightarrow> linked (remove_session st k)"
  by (auto simp: linked_def remove_session_handle remove_session_nth split: if_splits)
    (auto simp: remove_session_def Let_def split: option.split)

lemma counted_frame [simp]:
  "counted a g0 (st\<lparr>sessions := m\<rparr>) = counted a g0 st" "counted a g0 (st\<lparr>inflight := d\<rparr>) = counted a g0 st"
  "counted a g0 (st\<lparr>stopped := b\<rparr>) = counted a g0 st" "counted a g0 (st\<lparr>next_sock := n\<rparr>) = counted a g0 st"
  by (simp_all add: counted_def running_def)

lemma linked_handle:
  "linked st \<Longrightarrow> hm_get (sessions st) k = Some s \<Longrightarrow> listener_handle s = Some h \<Longrightarrow>
   h < length (tasks st) \<and> task_peer (tasks st ! h) = k"
  by (auto simp: linked_def handle_of_def bind_eq_Some_conv)

lemma remove_session_counted: "linked st \<Longrightarrow> counted a g0 st \<Longrightarrow> counted a g0 (remove_session st k)"
  by (auto simp: remove_session_def Let_def dest: linked_handle
      split: option.split intro!: abort_task_counted)
lemma remove_sessions:
  assumes "linked st"
  shows "linked (foldl remove_session st ks)"
    "counted a g0 st \<Longrightarrow> counted a g0 (foldl remove_session st ks)"
    "inflight (foldl remove_session st ks) = inflight st"
    "stopped (foldl remove_session st ks) = stopped st"
    "length (tasks (foldl remove_session st ks)) = length (tasks st)"
    "hm_get (sessions (foldl remove_session st ks)) k =
       (if k \<in> set ks then None else hm_get (sessions st) k)"
    "i < length (tasks st) \<Longrightarrow> tasks (foldl remove_session st ks) ! i =
       (if \<exists>k\<in>set ks. handle_of st k = Some i then (tasks st ! i)\<lparr>status := Finished\<rparr> else tasks st ! i)"
  using assms
  by (induction ks arbitrary: st)
    (auto simp: remove_session_linked remove_session_counted remove_session_nth remove_session_handle)

lemma evict_sessions:
  assumes "hm_invar (sessions st)"
  shows "k \<in> set (map fst (filter (\<lambda>(k, s). stale t s) (sessions st))) \<longleftrightarrow>
    (\<exists>s. hm_get (sessions st) k = Some s \<and> stale t s)"
  using assms by (force simp: hm_get_def hm_invar_def map_of_eq_Some_iff)

text \<open>Stopping ends the listener of every session.\<close>



lemma abort_session_simps [simp]:
  "inflight (abort_session st s) = inflight st" "stopped (abort_session st s) = stopped st"
  "length (tasks (abort_session st s)) = length (tasks st)"
  by (simp_all add: abort_session_def split: option.split)

lemma abort_session_nth:
  "i < length (tasks st) \<Longrightarrow> tasks (abort_session st s) ! i =
     (if listener_handle s = Some i then (tasks st ! i)\<lparr>status := Finished\<rparr> else tasks st ! i)"
  by (auto simp: abort_session_def abort_task_nth split: option.split)

lemma abort_sessions_simps [simp]:
  "inflight (foldl abort_session st ss) = inflight st"
  "stopped (foldl abort_session st ss) = stopped st"
  "length (tasks (foldl abort_session st ss)) = length (tasks st)"
  by (induction ss arbitrary: st) simp_all

lemma abort_sessions_nth:
  "i < length (tasks st) \<Longrightarrow> tasks (foldl abort_session st ss) ! i =
     (if \<exists>s\<in>set ss. listener_handle s = Some i then (tasks st ! i)\<lparr>status := Finished\<rparr> else tasks st ! i)"
  by (induction ss arbitrary: st) (auto simp: abort_session_nth)

lemma abort_sessions_counted:
  "counted a g0 st \<Longrightarrow> (\<And>s h. s \<in> set ss \<Longrightarrow> listener_handle s = Some h \<Longrightarrow> h < length (tasks st)) \<Longrightarrow>
   counted a g0 (foldl abort_session st ss)"
proof (induction ss arbitrary: st)
  case (Cons s ss)
  have "counted a g0 (abort_session st s)"
    using Cons.prems(1) Cons.prems(2)[of s]
    by (auto simp: abort_session_def abort_task_counted split: option.split)
  then show ?case using Cons.IH[of "abort_session st s"] Cons.prems(2) by (auto simp: less_imp_le)
qed simp

lemma value_handle:
  assumes "linked st" and "s \<in> set (hm_values (sessions st))" and "listener_handle s = Some h"
  shows "h < length (tasks st)"
  using assms hm_values_get linked_handle by (metis linked_def)

lemma abort_all_finished:
  assumes "linked st" and "i < length (tasks st)"
  shows "status (tasks (abort_all_sessions st) ! i) = Finished"
proof (cases "status (tasks st ! i) = Finished")
  case False
  with assms obtain s where "hm_get (sessions st) (task_peer (tasks st ! i)) = Some s" "listener_handle s = Some i"
    by (auto simp: linked_def handle_of_def bind_eq_Some_conv)
  moreover have "hm_invar (sessions st)" using assms by (simp add: linked_def)
  ultimately have "\<exists>s\<in>set (hm_values (sessions st)). listener_handle s = Some i"
    by (intro bexI[of _ s]) (auto simp: hm_values_get)
  then show ?thesis by (simp add: abort_all_sessions_def abort_sessions_nth[OF assms(2)])
qed (simp add: abort_all_sessions_def abort_sessions_nth[OF assms(2)])

section \<open>Every step keeps the invariant\<close>

lemma is_finished_frame [simp]:
  "is_finished (st\<lparr>sessions := m\<rparr>) h = is_finished st h" "is_finished (st\<lparr>inflight := d\<rparr>) h = is_finished st h"
  "is_finished (st\<lparr>reg := r\<rparr>) h = is_finished st h" "is_finished (st\<lparr>next_sock := n\<rparr>) h = is_finished st h"
  by (simp_all add: is_finished_def)

lemma counted_bytes [simp]:
  "counted a g0 (st\<lparr>reg := upd_stats a (count_bytes dir n) (reg st)\<rparr>) = counted a g0 st"
  by (auto simp: counted_def running_def upd_stats_nth gauge_valid_def gauge_level_def)

lemma linked_frame [simp]:
  "linked (st\<lparr>inflight := d\<rparr>) = linked st" "linked (st\<lparr>reg := r\<rparr>) = linked st"
  "linked (st\<lparr>stopped := b\<rparr>) = linked st" "linked (st\<lparr>next_sock := n\<rparr>) = linked st"
  by (simp_all add: linked_def handle_of_def)

lemma linked_insert:
  assumes "linked st" and "listener_handle s = handle_of st k"
  shows "linked (st\<lparr>sessions := hm_insert k s (sessions st)\<rparr>)"
proof -
  have "handle_of (st\<lparr>sessions := hm_insert k s (sessions st)\<rparr>) k' = handle_of st k'" for k'
    using assms(2) by (auto simp: handle_of_def)
  then show ?thesis using assms(1) by (simp add: linked_def)
qed

lemma touch_session_inv:
  assumes "udp_inv a g0 st" and "\<not> stopped st" and "listener_handle s = handle_of st peer"
  shows "udp_inv a g0 (touch_session peer n t s st)"
  using assms linked_insert[of st "s\<lparr>last_active := t\<rparr>" peer]
  by (auto simp: udp_inv_def touch_session_def Let_def flight_ok_def is_finished_def split: option.splits)

lemma inv_frame [simp]:
  "udp_inv a g0 (st\<lparr>next_sock := n\<rparr>) = udp_inv a g0 st"
  "udp_inv a g0 (st\<lparr>reg := upd_stats a (count_bytes dir m) (reg st)\<rparr>) = udp_inv a g0 st"
  by (simp_all add: udp_inv_def flight_ok_def)

lemma handle_of_frame [simp]:
  "handle_of (st\<lparr>next_sock := n\<rparr>) k = handle_of st k" "handle_of (st\<lparr>reg := r\<rparr>) k = handle_of st k"
  "handle_of (st\<lparr>inflight := d\<rparr>) k = handle_of st k" "handle_of (st\<lparr>tasks := ts\<rparr>) k = handle_of st k"
  by (simp_all add: handle_of_def)

lemma local_begin_inv:
  "udp_inv a g0 st \<Longrightarrow> \<not> stopped st \<Longrightarrow> local_begin peer n t_new t opened st = Some st' \<Longrightarrow> udp_inv a g0 st'"
  by (auto simp: local_begin_def handle_of_def split: option.splits sum.splits intro!: touch_session_inv)

lemma remote_begin_inv:
  "udp_inv a g0 st \<Longrightarrow> \<not> stopped st \<Longrightarrow> udp_inv a g0 (remote_begin a peer n t_new t opened st)"
  by (auto simp: remote_begin_def Let_def handle_of_def split: option.splits sum.splits intro!: touch_session_inv)

text \<open>A new listener: its session has none that is alive.\<close>

lemma spawn_listener_linked:
  assumes "linked st" and "hm_get (sessions st) (in_from d) = Some s"
    and "\<And>h. need_listener d \<Longrightarrow> listener_handle s = Some h \<Longrightarrow> is_finished st h"
  shows "linked (spawn_listener d st)"
proof (cases "need_listener d")
  case True
  let ?n = "length (tasks st)"
  let ?t = "\<lparr>task_socket = in_sock d, task_peer = in_from d, status = Spawned\<rparr>"
  have hd: "handle_of (spawn_listener d st) k = (if k = in_from d then Some ?n else handle_of st k)" for k
    using True assms(2) by (simp add: spawn_listener_def Let_def handle_of_def)
  have inv: "hm_invar (sessions (spawn_listener d st))"
    using True assms(1,2) by (simp add: spawn_listener_def Let_def linked_def)
  have tk: "tasks (spawn_listener d st) = tasks st @ [?t]"
    using True assms(2) by (simp add: spawn_listener_def Let_def)
  have old: "handle_of st k = Some h \<Longrightarrow> h < ?n \<and> task_peer (tasks st ! h) = k" for k h
    using assms(1) by (simp add: linked_def)
  have live: "h < ?n \<Longrightarrow> status (tasks st ! h) \<noteq> Finished \<Longrightarrow>
      task_peer (tasks st ! h) \<noteq> in_from d \<and> handle_of st (task_peer (tasks st ! h)) = Some h" for h
  proof (rule conjI)
    assume h: "h < ?n" "status (tasks st ! h) \<noteq> Finished"
    then show own: "handle_of st (task_peer (tasks st ! h)) = Some h" using assms(1) by (simp add: linked_def)
    from own h show "task_peer (tasks st ! h) \<noteq> in_from d"
      using assms(2) assms(3)[OF True] by (auto simp: handle_of_def is_finished_def)
  qed
  show ?thesis unfolding linked_def hd tk using inv
  proof (intro conjI allI impI, goal_cases)
    case (4 h) then show ?case using live[of h] by (cases "h = ?n") (auto simp: nth_append)
  qed (auto simp: nth_append less_Suc_eq dest: old split: if_splits)
qed (use assms in \<open>simp add: spawn_listener_def\<close>)

lemma spawn_listener_counted: "counted a g0 st \<Longrightarrow> counted a g0 (spawn_listener d st)"
  by (auto simp: counted_def spawn_listener_def Let_def running_def is_running_def nth_append less_Suc_eq
      split: option.split)

lemma spawn_listener_simps [simp]:
  "inflight (spawn_listener d st) = inflight st" "stopped (spawn_listener d st) = stopped st"
  by (simp_all add: spawn_listener_def Let_def split: option.split)

lemma finish_inv:
  assumes "udp_inv a g0 st" and "inflight st = Some d"
  shows "udp_inv a g0 (spawn_listener d (st\<lparr>inflight := None\<rparr>))"
proof -
  from assms obtain s where s: "hm_get (sessions st) (in_from d) = Some s" "\<not> stopped st"
    "\<And>h. need_listener d \<Longrightarrow> listener_handle s = Some h \<Longrightarrow> is_finished st h"
    by (fastforce simp: udp_inv_def flight_ok_def)
  then have "linked (spawn_listener d (st\<lparr>inflight := None\<rparr>))"
    using assms by (intro spawn_listener_linked) (auto simp: udp_inv_def)
  with s assms show ?thesis by (simp add: udp_inv_def flight_ok_def spawn_listener_counted)
qed

text \<open>A task that runs on or ends: the sessions and the peers of the tasks stay as they are.\<close>

lemma tasks_step_inv:
  assumes inv: "udp_inv a g0 st" and c: "counted a g0 st'"
    and eq: "sessions st' = sessions st" "inflight st' = inflight st" "stopped st' = stopped st"
      "length (tasks st') = length (tasks st)"
    and nth: "\<And>i. i < length (tasks st) \<Longrightarrow> task_peer (tasks st' ! i) = task_peer (tasks st ! i) \<and>
      (status (tasks st ! i) = Finished \<longrightarrow> status (tasks st' ! i) = Finished)"
  shows "udp_inv a g0 st'"
proof -
  have hd: "handle_of st' k = handle_of st k" for k using eq(1) by (simp add: handle_of_def)
  have lk: "linked st" using inv by (simp add: udp_inv_def)
  then have "linked st'" using nth eq unfolding linked_def hd by (metis (lifting))
  moreover have "is_finished st' h" if "hm_get (sessions st) k = Some s" "listener_handle s = Some h" "is_finished st h" for k s h
    using linked_handle[OF lk that(1,2)] nth[of h] that(3) by (simp add: is_finished_def)
  then have "flight_ok st'" using inv eq by (fastforce simp: udp_inv_def flight_ok_def)
  ultimately show ?thesis using c by (simp add: udp_inv_def)
qed

lemma task_start_counted:
  assumes c: "counted a g0 st" and h: "h < length (tasks st)" "status (tasks st ! h) = Spawned"
    and cap: "Suc (gauge_level (heap (reg st) ! a)) < 2 ^ 63"
  shows "counted a g0 (task_start a h st)"
proof -
  let ?g = "\<lparr>guard_stats = Some a\<rparr>"
  have "running (task_start a h st) = Suc (running st)"
    using length_filter_update[OF h(1), of is_running "(tasks st ! h)\<lparr>status := Running ?g\<rparr>"] h(2)
    by (simp add: running_def task_start_def guard_new_def set_status_def is_running_def)
  then show ?thesis
    using c h cap conns.up_level[of "heap (reg st) ! a"]
    by (auto simp: counted_def task_start_def guard_new_def upd_stats_nth set_status_def nth_list_update
        split: if_splits)
qed

lemma task_start_inv:
  assumes "udp_inv a g0 st" and "h < length (tasks st)" "status (tasks st ! h) = Spawned"
    and "Suc (gauge_level (heap (reg st) ! a)) < 2 ^ 63"
  shows "udp_inv a g0 (task_start a h st)"
  using assms
  by (intro tasks_step_inv[OF assms(1)] task_start_counted)
    (auto simp: udp_inv_def task_start_def guard_new_def set_status_nth)

lemma abort_task_inv:
  "udp_inv a g0 st \<Longrightarrow> h < length (tasks st) \<Longrightarrow> udp_inv a g0 (abort_task h st)"
  by (rule tasks_step_inv, assumption) (auto simp: udp_inv_def abort_task_nth abort_task_counted)

lemma evict_inv:
  assumes inv: "udp_inv a g0 st"
    and fresh: "\<And>d. inflight st = Some d \<Longrightarrow> as_secs (duration_since t (in_time d)) < SESSION_TTL_SECS"
  shows "udp_inv a g0 (evict t st)"
proof -
  have lk: "linked st" and c: "counted a g0 st" and fl: "flight_ok st" using inv by (simp_all add: udp_inv_def)
  then have m: "hm_invar (sessions st)" by (simp add: linked_def)
  note rs = remove_sessions[OF lk, where ks = "map fst (filter (\<lambda>(k, s). stale t s) (sessions st))", folded evict_def]
  have kept: "hm_get (sessions (evict t st)) (in_from d) = hm_get (sessions st) (in_from d)"
    if "inflight st = Some d" for d
  proof -
    from fl that obtain s where "hm_get (sessions st) (in_from d) = Some s" "last_active s = in_time d"
      by (auto simp: flight_ok_def)
    with fresh[OF that] show ?thesis using rs(6) evict_sessions[OF m] by (auto simp: stale_def)
  qed
  have fin: "is_finished (evict t st) h"
    if "hm_get (sessions st) k = Some s" "listener_handle s = Some h" "is_finished st h" for k s h
    using linked_handle[OF lk that(1,2)] rs(7)[of h] that(3) by (simp add: is_finished_def)
  have "flight_ok (evict t st)" using fl kept fin rs(3,4)
    by (fastforce simp: flight_ok_def evict_def)
  with rs(1,2) c show ?thesis by (simp add: udp_inv_def)
qed

lemma counted_remove [simp]:
  "counted a g0 (st\<lparr>reg := registry_remove key (reg st)\<rparr>) = counted a g0 st"
  by (simp add: counted_def running_def registry_remove_def)

lemma stop_inv:
  assumes "udp_inv a g0 st" and "inflight st = None"
  shows "udp_inv a g0 (stop_udp key st)"
proof -
  let ?st = "st\<lparr>reg := registry_remove key (reg st)\<rparr>"
  have lk: "linked ?st" and c: "counted a g0 ?st" using assms by (simp_all add: udp_inv_def)
  have "counted a g0 (stop_udp key st)"
    using abort_sessions_counted[OF c value_handle[OF lk], of "hm_values (sessions ?st)"]
    by (simp add: stop_udp_def abort_all_sessions_def)
  moreover have "linked (stop_udp key st)"
    using abort_all_finished[OF lk] by (simp add: linked_def stop_udp_def handle_of_def abort_all_sessions_def)
  ultimately show ?thesis using assms(2)
    by (simp add: udp_inv_def flight_ok_def stop_udp_def abort_all_sessions_def hm_new_def)
qed

lemma local_finish_inv:
  assumes "udp_inv a g0 st" and "inflight st = Some d"
  shows "udp_inv a g0 (local_finish a sent d st)"
proof -
  have "udp_inv a g0 (st\<lparr>inflight := None\<rparr>)" using assms by (simp add: udp_inv_def flight_ok_def)
  moreover have "udp_inv a g0 (spawn_listener d
      ((st\<lparr>reg := upd_stats a (count_bytes Tx (in_len d)) (reg st)\<rparr>)\<lparr>inflight := None\<rparr>))"
    using assms by (intro finish_inv) simp_all
  moreover have "(st\<lparr>reg := upd_stats a (count_bytes Tx (in_len d)) (reg st)\<rparr>)\<lparr>inflight := None\<rparr> =
      st\<lparr>inflight := None, reg := upd_stats a (count_bytes Tx (in_len d)) (reg st)\<rparr>" by simp
  ultimately show ?thesis by (simp add: local_finish_def Let_def split: sum.split)
qed

lemma udp_step_inv: "udp_step fl key a st st' \<Longrightarrow> udp_inv a g0 st \<Longrightarrow> udp_inv a g0 st'"
  by (induction rule: udp_step.induct)
    (auto simp: task_recv_def remote_finish_def
      intro: local_begin_inv remote_begin_inv local_finish_inv finish_inv task_start_inv abort_task_inv evict_inv stop_inv)

lemma udp_reachable_inv: "(udp_step fl key a)\<^sup>*\<^sup>* st st' \<Longrightarrow> udp_inv a g0 st \<Longrightarrow> udp_inv a g0 st'"
  by (induction rule: rtranclp_induct) (auto intro: udp_step_inv)

section \<open>The life of a forwarder\<close>

definition spawn_udp ::
  "flavour \<Rightarrow> UdpMapping \<Rightarrow> io_error + unit \<Rightarrow> ListenerStatsRegistry \<Rightarrow> string \<times> stats_ref \<times> udp_state" where
  "spawn_udp fl = (case fl of Local_Udp \<Rightarrow> spawn_local_udp | Remote_Udp \<Rightarrow> spawn_remote_udp)"

lemma spawn_udp_inv:
  assumes "spawn_udp fl mapping (Inr ()) r = (key, a, st)" and "hm_get (inner r) key = None"
  shows "udp_inv a 0 st \<and> \<not> stopped st"
proof -
  obtain kind l t r1 where e: "entry key kind l t r = (a, r1)" "st = init_udp r1"
    using assms(1)
    by (cases fl) (auto simp: spawn_udp_def spawn_local_udp_def spawn_remote_udp_def Let_def split: prod.splits)
  with assms(2) have "a < length (heap r1)" "heap r1 ! a = zero_stats key kind l t"
    by (auto simp: entry_def nth_append)
  with udp_inv_init[of a r1] e(2) show ?thesis
    by (simp add: gauge_valid_def gauge_level_def zero_stats_def) (simp add: init_udp_def)
qed

lemma reachable_inv:
  assumes "spawn_udp fl mapping (Inr ()) r = (key, a, st0)" and "hm_get (inner r) key = None"
    and "(udp_step fl key a)\<^sup>*\<^sup>* st0 st"
  shows "udp_inv a 0 st"
  using assms spawn_udp_inv udp_reachable_inv by blast

lemma counted_active: "udp_inv a 0 st \<Longrightarrow> sint (active (heap (reg st) ! a)) = int (running st)"
  by (auto simp: udp_inv_def counted_def gauge_valid_def gauge_level_def)

text \<open>Only the stop changes what the registry lists.\<close>

lemma abort_task_inner [simp]: "inner (reg (abort_task h st)) = inner (reg st)"
  by (simp add: abort_task_def guard_drop_def split: task_status.split option.split)

lemma abort_sessions_inner [simp]: "inner (reg (foldl abort_session st ss)) = inner (reg st)"
  by (induction ss arbitrary: st) (simp_all add: abort_session_def split: option.split)

lemma remove_sessions_inner [simp]:
  "inner (reg (foldl remove_session st ks)) = inner (reg st)"
  "stopped (foldl remove_session st ks) = stopped st"
  by (induction ks arbitrary: st) (simp_all add: remove_session_def Let_def split: option.split)

lemma begin_finish_frame [simp]:
  "inner (reg (touch_session p n t s st)) = inner (reg st)" "stopped (touch_session p n t s st) = stopped st"
  "inner (reg (spawn_listener d st)) = inner (reg st)"
  by (simp_all add: touch_session_def spawn_listener_def Let_def split: option.split)

lemma begin_frame:
  "local_begin p n t0 t opened st = Some st' \<Longrightarrow> inner (reg st') = inner (reg st) \<and> stopped st' = stopped st"
  "inner (reg (remote_begin a p n t0 t opened st)) = inner (reg st)"
  "stopped (remote_begin a p n t0 t opened st) = stopped st"
  by (auto simp: local_begin_def remote_begin_def Let_def split: option.splits sum.splits)

lemma finish_frame [simp]:
  "inner (reg (local_finish a sent d st)) = inner (reg st)" "stopped (local_finish a sent d st) = stopped st"
  "inner (reg (remote_finish sent d st)) = inner (reg st)" "stopped (remote_finish sent d st) = stopped st"
  by (simp_all add: local_finish_def remote_finish_def Let_def split: sum.split)

lemma stopped_unlisted_step:
  "udp_step fl key a st st' \<Longrightarrow> (stopped st \<Longrightarrow> hm_get (inner (reg st)) key = None) \<Longrightarrow>
   stopped st' \<Longrightarrow> hm_get (inner (reg st')) key = None"
  by (induction rule: udp_step.induct)
    (auto simp: begin_frame task_start_def guard_new_def task_recv_def evict_def stop_udp_def
      abort_all_sessions_def registry_remove_def dest: begin_frame(1))

lemma stopped_unlisted:
  "(udp_step fl key a)\<^sup>*\<^sup>* st st' \<Longrightarrow> \<not> stopped st \<Longrightarrow> stopped st' \<Longrightarrow> hm_get (inner (reg st')) key = None"
  by (induction rule: rtranclp_induct) (auto intro: stopped_unlisted_step)

text \<open>A concrete run: a mapping, one client's datagram, its listener, and the stop.\<close>

definition demo_udp_mapping :: UdpMapping where
  "demo_udp_mapping = \<lparr>udp_listen = SockV4 0x7F000001 5000, udp_target = SockV4 0x0A000001 53\<rparr>"

definition demo_client :: socket_addr where
  "demo_client = SockV4 0x7F000001 40000"

definition demo_key :: string where
  "demo_key = local_udp_key demo_udp_mapping"

definition demo_udp0 :: udp_state where
  "demo_udp0 = snd (snd (spawn_udp Local_Udp demo_udp_mapping (Inr ()) new_registry))"

definition demo_udp1 :: udp_state where
  "demo_udp1 = the (local_begin demo_client 40 0 0 (Inr ()) demo_udp0)"

definition demo_udp2 :: udp_state where
  "demo_udp2 = local_finish 0 (Inr ()) (the (inflight demo_udp1)) demo_udp1"

definition demo_udp3 :: udp_state where
  "demo_udp3 = task_start 0 0 demo_udp2"

lemma demo_spawn: "spawn_udp Local_Udp demo_udp_mapping (Inr ()) new_registry = (demo_key, 0, demo_udp0)"
  by (simp add: demo_udp0_def demo_key_def spawn_udp_def spawn_local_udp_def Let_def entry_def new_registry_def)

lemma demo0 [simp]:
  "sessions demo_udp0 = []" "tasks demo_udp0 = []" "inflight demo_udp0 = None" "\<not> stopped demo_udp0"
  "next_sock demo_udp0 = 0" "length (heap (reg demo_udp0)) = 1" "active (heap (reg demo_udp0) ! 0) = 0"
  by (simp_all add: demo_udp0_def spawn_udp_def spawn_local_udp_def Let_def entry_def new_registry_def
      init_udp_def zero_stats_def hm_new_def hm_get_def)

lemma demo1:
  "local_begin demo_client 40 0 0 (Inr ()) demo_udp0 = Some demo_udp1"
  "demo_udp1 = demo_udp0\<lparr>sessions := [(demo_client, \<lparr>us_socket = 0, last_active = 0, listener_handle = None\<rparr>)],
     next_sock := 1, inflight := Some \<lparr>in_from = demo_client, in_sock = 0, need_listener = True, in_len = 40, in_time = 0\<rparr>\<rparr>"
  by (simp_all add: demo_udp1_def local_begin_def touch_session_def hm_get_def hm_insert_def)

lemma demo2:
  "demo_udp2 = demo_udp1\<lparr>sessions := [(demo_client, \<lparr>us_socket = 0, last_active = 0, listener_handle = Some 0\<rparr>)],
     tasks := [\<lparr>task_socket = 0, task_peer = demo_client, status = Spawned\<rparr>],
     reg := upd_stats 0 (count_bytes Tx 40) (reg demo_udp0), inflight := None\<rparr>"
  by (simp add: demo_udp2_def demo1(2) local_finish_def spawn_listener_def Let_def hm_get_def hm_insert_def)

lemma demo3:
  "demo_udp3 = demo_udp2\<lparr>tasks := [\<lparr>task_socket = 0, task_peer = demo_client, status = Running \<lparr>guard_stats = Some 0\<rparr>\<rparr>],
     reg := upd_stats 0 conn_opened (reg demo_udp2)\<rparr>"
  by (simp add: demo_udp3_def demo2 task_start_def guard_new_def set_status_def)

lemma demo_steps:
  "(udp_step Local_Udp demo_key 0)\<^sup>*\<^sup>* demo_udp0 demo_udp3"
  "udp_step Local_Udp demo_key 0 demo_udp3 (stop_udp demo_key demo_udp3)"
proof -
  have s1: "udp_step Local_Udp demo_key 0 demo_udp0 demo_udp1"
    by (rule udp_step.Begin_Local[OF _ _ _ demo1(1)]) simp_all
  have s2: "udp_step Local_Udp demo_key 0 demo_udp1 demo_udp2"
    unfolding demo_udp2_def by (rule udp_step.Finish_Local) (simp_all add: demo1(2))
  have s3: "udp_step Local_Udp demo_key 0 demo_udp2 demo_udp3"
    unfolding demo_udp3_def
    by (rule udp_step.Start) (simp_all add: demo2 demo1(2) gauge_level_def upd_stats_nth)
  show "(udp_step Local_Udp demo_key 0)\<^sup>*\<^sup>* demo_udp0 demo_udp3"
    using s1 s2 s3 by (meson rtranclp.rtrancl_into_rtrancl rtranclp.rtrancl_refl)
  show "udp_step Local_Udp demo_key 0 demo_udp3 (stop_udp demo_key demo_udp3)"
    by (rule udp_step.Stop) (simp_all add: demo3 demo2 demo1(2))
qed

section \<open>Properties\<close>





lemma evict_lookup:
  assumes "linked st"
  shows "hm_get (sessions (evict t st)) k =
      (case hm_get (sessions st) k of Some s \<Rightarrow> if stale t s then None else Some s | None \<Rightarrow> None)"
  using remove_sessions(6)[OF assms] assms
  by (auto simp: evict_def evict_sessions linked_def simp del: set_map set_filter split: option.split)

lemma evict_status:
  assumes lk: "linked st" and h: "h < length (tasks st)"
  shows "status (tasks (evict t st) ! h) =
      (case hm_get (sessions st) (task_peer (tasks st ! h)) of
         Some s \<Rightarrow> if stale t s then Finished else status (tasks st ! h)
       | None \<Rightarrow> status (tasks st ! h))"
proof -
  let ?p = "task_peer (tasks st ! h)"
  let ?gone = "\<exists>k\<in>set (map fst (filter (\<lambda>(k, s). stale t s) (sessions st))). handle_of st k = Some h"
  have inv: "hm_invar (sessions st)" using lk by (simp add: linked_def)
  have gone: "?gone \<longleftrightarrow> handle_of st ?p = Some h \<and> (\<exists>s. hm_get (sessions st) ?p = Some s \<and> stale t s)"
    unfolding evict_sessions[OF inv] Bex_def using lk by (auto simp: linked_def)
  have eq: "status (tasks (evict t st) ! h) = (if ?gone then Finished else status (tasks st ! h))"
  proof -
    have "status (if P then x\<lparr>status := Finished\<rparr> else x) = (if P then Finished else status x)"
      for P and x :: udp_task by simp
    then show ?thesis unfolding evict_def remove_sessions(7)[OF lk h] .
  qed
  show ?thesis
  proof (cases "status (tasks st ! h) = Finished")
    case False
    then have "handle_of st ?p = Some h" using lk h by (simp add: linked_def)
    then show ?thesis unfolding eq gone by (auto split: option.split)
  qed (simp add: eq split: option.split)
qed

text \<open>A tick of the eviction timer removes exactly the sessions that
  were last used thirty whole seconds ago or earlier, ends exactly the listeners of their peers,
  and leaves every other session and listener as it was.\<close>

theorem eviction_exact:
  assumes "spawn_udp fl mapping (Inr ()) r = (key, a, st0)" and "hm_get (inner r) key = None"
    and "(udp_step fl key a)\<^sup>*\<^sup>* st0 st"
  shows "hm_get (sessions (evict t st)) k =
      (case hm_get (sessions st) k of
         Some s \<Rightarrow> if 30 \<le> as_secs (duration_since t (last_active s)) then None else Some s
       | None \<Rightarrow> None) \<and>
    (\<forall>h<length (tasks st). status (tasks (evict t st) ! h) =
      (case hm_get (sessions st) (task_peer (tasks st ! h)) of
         Some s \<Rightarrow> if 30 \<le> as_secs (duration_since t (last_active s)) then Finished else status (tasks st ! h)
       | None \<Rightarrow> status (tasks st ! h)))"
proof -
  have lk: "linked st" using reachable_inv[OF assms] by (simp add: udp_inv_def)
  show ?thesis
    using evict_lookup[OF lk, of t k] evict_status[OF lk, of _ t]
    by (simp add: stale_def[abs_def] SESSION_TTL_SECS_def split: option.split)
qed

theorem eviction_exact_witness:
  "hm_get (sessions (evict 29000000000 demo_udp3)) demo_client \<noteq> None \<and>
   hm_get (sessions (evict 31000000000 demo_udp3)) demo_client = None \<and>
   status (tasks (evict 31000000000 demo_udp3) ! 0) = Finished"
  using eviction_exact[OF demo_spawn _ demo_steps(1), where k = demo_client and t = 29000000000]
    eviction_exact[OF demo_spawn _ demo_steps(1), where k = demo_client and t = 31000000000]
  by (simp add: new_registry_def) (simp add: demo3 demo2 hm_get_def as_secs_def duration_since_def)

text \<open>A session that only carries replies is evicted all the
  same: however many replies its listener has passed to the client, a tick thirty seconds after
  the client's last datagram removes the session and aborts the running listener.\<close>

theorem replies_do_not_refresh:
  assumes "spawn_udp fl mapping (Inr ()) r = (key, a, st0)" and "hm_get (inner r) key = None"
    and "(udp_step fl key a)\<^sup>*\<^sup>* st0 st" and "h < length (tasks st)" and "status (tasks st ! h) = Running g"
    and "hm_get (sessions st) (task_peer (tasks st ! h)) = Some s"
    and "30 \<le> as_secs (duration_since t (last_active s))"
  shows "let st' = evict t (foldl (\<lambda>st n. task_recv a (if fl = Local_Udp then Rx else Tx) n st) st ns)
    in hm_get (sessions st') (task_peer (tasks st ! h)) = None \<and> status (tasks st' ! h) = Finished"
proof -
  define st1 where "st1 = foldl (\<lambda>st n. task_recv a (if fl = Local_Udp then Rx else Tx) n st) st ns"
  have "sessions st1 = sessions st \<and> tasks st1 = tasks st" unfolding st1_def
    by (induction ns arbitrary: st) (simp_all add: task_recv_def)
  moreover from this have "linked st1"
    using reachable_inv[OF assms(1-3)] by (simp add: udp_inv_def linked_def handle_of_def)
  ultimately have "hm_get (sessions (evict t st1)) (task_peer (tasks st ! h)) = None \<and>
      status (tasks (evict t st1) ! h) = Finished"
    using evict_lookup[of st1] evict_status[of st1 h] assms(4-) by (simp add: stale_def SESSION_TTL_SECS_def)
  then show ?thesis by (simp add: st1_def Let_def)
qed

lemma demo3_fields:
  "length (tasks demo_udp3) = 1" "task_peer (tasks demo_udp3 ! 0) = demo_client"
  "status (tasks demo_udp3 ! 0) = Running \<lparr>guard_stats = Some 0\<rparr>"
  "hm_get (sessions demo_udp3) demo_client = Some \<lparr>us_socket = 0, last_active = 0, listener_handle = Some 0\<rparr>"
  by (simp_all add: demo3 demo2 hm_get_def)

theorem replies_do_not_refresh_witness:
  "hm_get (sessions (evict 30000000000 (foldl (\<lambda>st n. task_recv 0 Rx n st) demo_udp3 [100, 200]))) demo_client = None"
  using replies_do_not_refresh[OF demo_spawn _ demo_steps(1), where h = 0 and ns = "[100, 200]"
      and t = 30000000000 and g = "\<lparr>guard_stats = Some 0\<rparr>"
      and s = "\<lparr>us_socket = 0, last_active = 0, listener_handle = Some 0\<rparr>"]
  by (simp add: new_registry_def demo3_fields as_secs_def duration_since_def Let_def)

text \<open>The side condition on evictions is needed: if the loop waits in \<open>send_to\<close> until its session
  is evicted, the listener it then starts belongs to no session, and the stop does not end it.\<close>

lemma slow_send_orphans_listener:
  assumes inv: "udp_inv a g0 st" and d: "inflight st = Some d" "need_listener d"
    and slow: "SESSION_TTL_SECS \<le> as_secs (duration_since t (in_time d))"
  shows "status (tasks (stop_udp key (local_finish a (Inr ()) d (evict t st))) ! length (tasks st)) = Spawned"
proof -
  let ?r = "upd_stats a (count_bytes Tx (in_len d)) (reg (evict t st))"
  let ?t = "\<lparr>task_socket = in_sock d, task_peer = in_from d, status = Spawned\<rparr>"
  define st1 where "st1 = (local_finish a (Inr ()) d (evict t st))\<lparr>reg := registry_remove key ?r\<rparr>"
  have lk: "linked st" using inv by (simp add: udp_inv_def)
  have gone: "hm_get (sessions (evict t st)) (in_from d) = None"
    using evict_lookup[OF lk] inv d slow by (auto simp: udp_inv_def flight_ok_def stale_def)
  have len: "length (tasks (evict t st)) = length (tasks st)" using remove_sessions(5)[OF lk] by (simp add: evict_def)
  have lk': "linked (evict t st)" using remove_sessions(1)[OF lk] by (simp add: evict_def)
  have st1: "sessions st1 = sessions (evict t st)" "tasks st1 = tasks (evict t st) @ [?t]"
    "stop_udp key (local_finish a (Inr ()) d (evict t st)) = (abort_all_sessions st1)\<lparr>stopped := True\<rparr>"
    using d(2) gone by (simp_all add: st1_def local_finish_def spawn_listener_def Let_def stop_udp_def)
  have "listener_handle s \<noteq> Some (length (tasks st))" if "s \<in> set (hm_values (sessions st1))" for s
    using value_handle[OF lk'] that len st1(1) by force
  then have "\<not> (\<exists>s\<in>set (hm_values (sessions st1)). listener_handle s = Some (length (tasks st)))" by blast
  then show ?thesis
    using abort_sessions_nth[of "length (tasks st)" st1] len by (simp add: st1 abort_all_sessions_def nth_append)
qed

end
