(* ===== verification/Smoltcp.thy ===== *)
theory Smoltcp
  imports Std_Net Std_Io
begin

text \<open>
  The device and what the netstack uses of smoltcp.  \<open>YggDevice\<close> is
  \<open>crates/yggstack/src/netstack/device.rs\<close>.  smoltcp itself (\<open>Interface\<close>, \<open>SocketSet\<close> and the
  sockets) is not part of the sources: it is a record of functions, an argument of every
  definition of the netstack, and \<open>smoltcp_ok\<close> states the documented behaviour the netstack
  relies on.  A socket operation on \<open>&mut self\<close> returns its result and the socket after it.
  \<open>slot_smoltcp\<close> is a set of sockets in numbered slots, reused lowest first, on which the laws
  hold; the witnesses run on it.
\<close>

section \<open>The device\<close>

record YggDevice =
  rx_queue :: "bytes list"
  tx_queue :: "bytes list"
  dev_mtu :: nat

definition new_device :: "nat \<Rightarrow> YggDevice" where
  "new_device m = \<lparr>rx_queue = [], tx_queue = [], dev_mtu = m\<rparr>"

text \<open>The packet an \<open>RxToken\<close> holds is passed to the consumer; a \<open>TxToken\<close> queues the buffer the
  consumer has filled.\<close>

definition rx_consume :: "(bytes \<Rightarrow> 'r) \<Rightarrow> bytes \<Rightarrow> 'r" where
  "rx_consume f pkt = f pkt"

definition tx_consume :: "nat \<Rightarrow> (bytes \<Rightarrow> bytes \<times> 'r) \<Rightarrow> YggDevice \<Rightarrow> 'r \<times> YggDevice" where
  "tx_consume len f d = (case f (replicate len 0) of (b, r) \<Rightarrow> (r, d\<lparr>tx_queue := tx_queue d @ [b]\<rparr>))"

definition device_receive :: "YggDevice \<Rightarrow> (bytes \<times> YggDevice) option" where
  "device_receive d =
     (case rx_queue d of [] \<Rightarrow> None | pkt # rest \<Rightarrow> Some (pkt, d\<lparr>rx_queue := rest\<rparr>))"

datatype medium = Medium_Ip | Medium_Ethernet

definition capabilities :: "YggDevice \<Rightarrow> medium \<times> nat" where
  "capabilities d = (Medium_Ip, dev_mtu d)"

section \<open>smoltcp\<close>

type_synonym handle = nat
type_synonym smol_instant = int

datatype sock_kind = Tcp_Socket | Udp_Socket | Icmp_Socket

datatype tcp_state =
    St_Closed | St_Listen | St_SynSent | St_SynReceived | St_Established | St_FinWait1 | St_FinWait2
  | St_CloseWait | St_Closing | St_LastAck | St_TimeWait

record listen_endpoint =
  ep_addr :: "ip_addr option"
  ep_port :: u16

type_synonym ip_endpoint = "ip_addr \<times> u16"

text \<open>\<open>'i\<close> is the interface, \<open>'s\<close> the socket set, \<open>'k\<close> a socket.  \<open>ss_put\<close> is a write through
  \<open>get_mut\<close>.  Errors are given as their \<open>Debug\<close> text.\<close>

record ('i, 's, 'k) smoltcp =
  ss_empty :: 's
  ss_add :: "'k \<Rightarrow> 's \<Rightarrow> handle \<times> 's"
  ss_get :: "'s \<Rightarrow> handle \<Rightarrow> 'k option"
  ss_put :: "handle \<Rightarrow> 'k \<Rightarrow> 's \<Rightarrow> 's"
  ss_remove :: "handle \<Rightarrow> 's \<Rightarrow> 's"
  ss_iter :: "'s \<Rightarrow> handle list"
  sk_kind :: "'k \<Rightarrow> sock_kind"
  tcp_new :: "nat \<Rightarrow> nat \<Rightarrow> 'k"
  udp_new :: "nat \<Rightarrow> nat \<Rightarrow> 'k"
  icmp_new :: "nat \<Rightarrow> nat \<Rightarrow> 'k"
  tcp_st :: "'k \<Rightarrow> tcp_state"
  may_recv :: "'k \<Rightarrow> bool"
  may_send :: "'k \<Rightarrow> bool"
  can_recv :: "'k \<Rightarrow> bool"
  can_send :: "'k \<Rightarrow> bool"
  tcp_listen :: "listen_endpoint \<Rightarrow> 'k \<Rightarrow> (string + unit) \<times> 'k"
  tcp_connect :: "'i \<Rightarrow> ip_endpoint \<Rightarrow> u16 \<Rightarrow> 'k \<Rightarrow> 'i \<times> (string + unit) \<times> 'k"
  tcp_close :: "'k \<Rightarrow> 'k"
  tcp_abort :: "'k \<Rightarrow> 'k"
  tcp_recv :: "nat \<Rightarrow> 'k \<Rightarrow> (string + bytes) \<times> 'k"
  tcp_send :: "bytes \<Rightarrow> 'k \<Rightarrow> (string + nat) \<times> 'k"
  udp_bind :: "listen_endpoint \<Rightarrow> 'k \<Rightarrow> (string + unit) \<times> 'k"
  udp_recv :: "nat \<Rightarrow> 'k \<Rightarrow> (string + bytes \<times> ip_endpoint) \<times> 'k"
  udp_send :: "bytes \<Rightarrow> ip_endpoint \<Rightarrow> 'k \<Rightarrow> (string + unit) \<times> 'k"
  icmp_bind :: "u16 \<Rightarrow> 'k \<Rightarrow> (string + unit) \<times> 'k"
  icmp_recv :: "nat \<Rightarrow> 'k \<Rightarrow> (string + bytes \<times> ip_addr) \<times> 'k"
  icmp_send :: "bytes \<Rightarrow> ip_addr \<Rightarrow> 'k \<Rightarrow> (string + unit) \<times> 'k"
  echo_request :: "u16 \<Rightarrow> u16 \<Rightarrow> bytes \<Rightarrow> ipv6 \<Rightarrow> ipv6 \<Rightarrow> bytes"
  echo_seq_no :: "bytes \<Rightarrow> u16"
  iface_poll :: "smol_instant \<Rightarrow> 'i \<Rightarrow> YggDevice \<Rightarrow> 's \<Rightarrow> 'i \<times> YggDevice \<times> 's"
  iface_poll_delay :: "smol_instant \<Rightarrow> 'i \<Rightarrow> 's \<Rightarrow> 'i \<times> nat option"
  since :: "smol_instant \<Rightarrow> smol_instant \<Rightarrow> nat"

text \<open>The laws: a handle names one socket from its addition to its removal; operations on a socket
  keep its kind; \<open>poll\<close> neither adds nor removes sockets, takes packets from the receive queue
  when there are any, and adds none to it.\<close>

definition socket_set_laws :: "('i, 's, 'k) smoltcp \<Rightarrow> bool" where
  "socket_set_laws sm \<longleftrightarrow>
     (\<forall>h. ss_get sm (ss_empty sm) h = None) \<and>
     (\<forall>k s h s'. ss_add sm k s = (h, s') \<longrightarrow> ss_get sm s h = None \<and>
        (\<forall>h'. ss_get sm s' h' = (if h' = h then Some k else ss_get sm s h'))) \<and>
     (\<forall>h k s. ss_get sm s h \<noteq> None \<longrightarrow>
        (\<forall>h'. ss_get sm (ss_put sm h k s) h' = (if h' = h then Some k else ss_get sm s h'))) \<and>
     (\<forall>h s h'. ss_get sm (ss_remove sm h s) h' = (if h' = h then None else ss_get sm s h')) \<and>
     (\<forall>s. set (ss_iter sm s) = {h. ss_get sm s h \<noteq> None})"

definition kind_laws :: "('i, 's, 'k) smoltcp \<Rightarrow> bool" where
  "kind_laws sm \<longleftrightarrow>
     (\<forall>m n. sk_kind sm (tcp_new sm m n) = Tcp_Socket \<and> sk_kind sm (udp_new sm m n) = Udp_Socket \<and>
        sk_kind sm (icmp_new sm m n) = Icmp_Socket) \<and>
     (\<forall>ep k. sk_kind sm (snd (tcp_listen sm ep k)) = sk_kind sm k) \<and>
     (\<forall>i r p k. sk_kind sm (snd (snd (tcp_connect sm i r p k))) = sk_kind sm k) \<and>
     (\<forall>k. sk_kind sm (tcp_close sm k) = sk_kind sm k \<and> sk_kind sm (tcp_abort sm k) = sk_kind sm k) \<and>
     (\<forall>n k. sk_kind sm (snd (tcp_recv sm n k)) = sk_kind sm k) \<and>
     (\<forall>b k. sk_kind sm (snd (tcp_send sm b k)) = sk_kind sm k) \<and>
     (\<forall>ep k. sk_kind sm (snd (udp_bind sm ep k)) = sk_kind sm k) \<and>
     (\<forall>n k. sk_kind sm (snd (udp_recv sm n k)) = sk_kind sm k) \<and>
     (\<forall>b ep k. sk_kind sm (snd (udp_send sm b ep k)) = sk_kind sm k) \<and>
     (\<forall>p k. sk_kind sm (snd (icmp_bind sm p k)) = sk_kind sm k) \<and>
     (\<forall>n k. sk_kind sm (snd (icmp_recv sm n k)) = sk_kind sm k) \<and>
     (\<forall>b ip k. sk_kind sm (snd (icmp_send sm b ip k)) = sk_kind sm k)"

definition poll_laws :: "('i, 's, 'k) smoltcp \<Rightarrow> bool" where
  "poll_laws sm \<longleftrightarrow>
     (\<forall>now i d s. case iface_poll sm now i d s of (i', d', s') \<Rightarrow>
        (\<forall>h. map_option (sk_kind sm) (ss_get sm s' h) = map_option (sk_kind sm) (ss_get sm s h)) \<and>
        (rx_queue d = [] \<longrightarrow> rx_queue d' = []) \<and>
        (rx_queue d \<noteq> [] \<longrightarrow> length (rx_queue d') < length (rx_queue d)))"

definition smoltcp_ok :: "('i, 's, 'k) smoltcp \<Rightarrow> bool" where
  "smoltcp_ok sm \<longleftrightarrow> socket_set_laws sm \<and> kind_laws sm \<and> poll_laws sm"

lemma sm_get_empty: "smoltcp_ok sm \<Longrightarrow> ss_get sm (ss_empty sm) h = None"
  by (simp add: smoltcp_ok_def socket_set_laws_def)

lemma sm_add:
  assumes "smoltcp_ok sm" and "ss_add sm k s = (h, s')"
  shows "ss_get sm s h = None" and "ss_get sm s' h' = (if h' = h then Some k else ss_get sm s h')"
  using assms unfolding smoltcp_ok_def socket_set_laws_def by blast+

lemma sm_put:
  "smoltcp_ok sm \<Longrightarrow> ss_get sm s h \<noteq> None \<Longrightarrow>
   ss_get sm (ss_put sm h k s) h' = (if h' = h then Some k else ss_get sm s h')"
  unfolding smoltcp_ok_def socket_set_laws_def by blast

lemma sm_remove:
  "smoltcp_ok sm \<Longrightarrow> ss_get sm (ss_remove sm h s) h' = (if h' = h then None else ss_get sm s h')"
  by (simp add: smoltcp_ok_def socket_set_laws_def)

lemma sm_iter: "smoltcp_ok sm \<Longrightarrow> set (ss_iter sm s) = {h. ss_get sm s h \<noteq> None}"
  by (simp add: smoltcp_ok_def socket_set_laws_def)

lemma sm_kinds:
  assumes "smoltcp_ok sm"
  shows "sk_kind sm (tcp_new sm m n) = Tcp_Socket" "sk_kind sm (udp_new sm m n) = Udp_Socket"
    "sk_kind sm (icmp_new sm m n) = Icmp_Socket"
    "tcp_listen sm ep k = (r, k') \<Longrightarrow> sk_kind sm k' = sk_kind sm k"
    "tcp_connect sm i rm p k = (i', r, k') \<Longrightarrow> sk_kind sm k' = sk_kind sm k"
    "sk_kind sm (tcp_close sm k) = sk_kind sm k" "sk_kind sm (tcp_abort sm k) = sk_kind sm k"
    "tcp_recv sm n k = (rb, k') \<Longrightarrow> sk_kind sm k' = sk_kind sm k"
    "tcp_send sm b k = (rn, k') \<Longrightarrow> sk_kind sm k' = sk_kind sm k"
    "udp_bind sm ep k = (r, k') \<Longrightarrow> sk_kind sm k' = sk_kind sm k"
    "udp_recv sm n k = (rd, k') \<Longrightarrow> sk_kind sm k' = sk_kind sm k"
    "udp_send sm b iep k = (r, k') \<Longrightarrow> sk_kind sm k' = sk_kind sm k"
    "icmp_bind sm p k = (r, k') \<Longrightarrow> sk_kind sm k' = sk_kind sm k"
    "icmp_recv sm n k = (ri, k') \<Longrightarrow> sk_kind sm k' = sk_kind sm k"
    "icmp_send sm b ip k = (r, k') \<Longrightarrow> sk_kind sm k' = sk_kind sm k"
  using assms unfolding smoltcp_ok_def kind_laws_def by (metis snd_conv)+

lemma sm_poll:
  assumes "smoltcp_ok sm" and "iface_poll sm now i d s = (i', d', s')"
  shows "map_option (sk_kind sm) (ss_get sm s' h) = map_option (sk_kind sm) (ss_get sm s h)"
    and "rx_queue d = [] \<Longrightarrow> rx_queue d' = []"
    and "rx_queue d \<noteq> [] \<Longrightarrow> length (rx_queue d') < length (rx_queue d)"
proof -
  have "case iface_poll sm now i d s of (i', d', s') \<Rightarrow>
      (\<forall>h. map_option (sk_kind sm) (ss_get sm s' h) = map_option (sk_kind sm) (ss_get sm s h)) \<and>
      (rx_queue d = [] \<longrightarrow> rx_queue d' = []) \<and>
      (rx_queue d \<noteq> [] \<longrightarrow> length (rx_queue d') < length (rx_queue d))"
    using assms(1)[unfolded smoltcp_ok_def poll_laws_def] by (elim conjE allE)
  note law = this[unfolded assms(2) prod.case]
  show "map_option (sk_kind sm) (ss_get sm s' h) = map_option (sk_kind sm) (ss_get sm s h)"
    "rx_queue d = [] \<Longrightarrow> rx_queue d' = []"
    "rx_queue d \<noteq> [] \<Longrightarrow> length (rx_queue d') < length (rx_queue d)"
    using law by blast+
qed

section \<open>An instance\<close>

text \<open>Sockets in numbered slots.  A packet of two bytes acts on the socket with that number: 1 is a
  SYN, 2 completes the handshake, 3 resets it, 4 completes a close.\<close>

record slot_socket =
  slot_kind :: sock_kind
  slot_state :: tcp_state

definition slot_new :: "sock_kind \<Rightarrow> slot_socket" where
  "slot_new kd = \<lparr>slot_kind = kd, slot_state = St_Closed\<rparr>"

definition slot_get :: "slot_socket option list \<Rightarrow> handle \<Rightarrow> slot_socket option" where
  "slot_get s h = (if h < length s then s ! h else None)"

fun first_free :: "'a option list \<Rightarrow> nat" where
  "first_free [] = 0"
| "first_free (None # xs) = 0"
| "first_free (Some x # xs) = Suc (first_free xs)"

definition slot_add :: "slot_socket \<Rightarrow> slot_socket option list \<Rightarrow> handle \<times> slot_socket option list" where
  "slot_add k s =
     (let h = first_free s in (h, if h < length s then s[h := Some k] else s @ [Some k]))"

fun slot_event :: "slot_socket \<Rightarrow> nat \<Rightarrow> slot_socket" where
  "slot_event k n =
     (if n = 1 \<and> slot_state k = St_Listen then k\<lparr>slot_state := St_SynReceived\<rparr>
      else if n = 2 \<and> slot_state k \<in> {St_SynReceived, St_SynSent} then k\<lparr>slot_state := St_Established\<rparr>
      else if n = 3 \<and> slot_state k = St_SynReceived then k\<lparr>slot_state := St_Listen\<rparr>
      else if n = 4 \<and> slot_state k = St_FinWait1 then k\<lparr>slot_state := St_Closed\<rparr>
      else k)"

definition slot_packet :: "slot_socket option list \<Rightarrow> bytes \<Rightarrow> slot_socket option list" where
  "slot_packet s pkt =
     (case pkt of
        [h, n] \<Rightarrow> (case slot_get s (unat h) of Some k \<Rightarrow> s[unat h := Some (slot_event k (unat n))] | None \<Rightarrow> s)
      | _ \<Rightarrow> s)"

definition slot_smoltcp :: "(unit, slot_socket option list, slot_socket) smoltcp" where
  "slot_smoltcp =
     \<lparr>ss_empty = [], ss_add = slot_add, ss_get = slot_get, ss_put = (\<lambda>h k s. s[h := Some k]),
      ss_remove = (\<lambda>h s. s[h := None]),
      ss_iter = (\<lambda>s. filter (\<lambda>h. slot_get s h \<noteq> None) [0..<length s]),
      sk_kind = slot_kind, tcp_new = (\<lambda>m n. slot_new Tcp_Socket), udp_new = (\<lambda>m n. slot_new Udp_Socket),
      icmp_new = (\<lambda>m n. slot_new Icmp_Socket), tcp_st = slot_state,
      may_recv = (\<lambda>k. slot_state k \<in> {St_Established, St_FinWait1, St_FinWait2}),
      may_send = (\<lambda>k. slot_state k \<in> {St_Established, St_CloseWait}),
      can_recv = (\<lambda>k. False), can_send = (\<lambda>k. slot_kind k \<noteq> Tcp_Socket \<or> slot_state k = St_Established),
      tcp_listen = (\<lambda>ep k. if ep_port ep = 0 then (Inl ''Unaddressable'', k)
                            else (Inr (), k\<lparr>slot_state := St_Listen\<rparr>)),
      tcp_connect = (\<lambda>i r p k. if snd r = 0 then (i, Inl ''Unaddressable'', k)
                               else (i, Inr (), k\<lparr>slot_state := St_SynSent\<rparr>)),
      tcp_close = (\<lambda>k. if slot_state k = St_Established then k\<lparr>slot_state := St_FinWait1\<rparr>
                        else k\<lparr>slot_state := St_Closed\<rparr>),
      tcp_abort = (\<lambda>k. k\<lparr>slot_state := St_Closed\<rparr>),
      tcp_recv = (\<lambda>n k. (Inr [], k)), tcp_send = (\<lambda>b k. (Inr (length b), k)),
      udp_bind = (\<lambda>ep k. if ep_port ep = 0 then (Inl ''Unaddressable'', k) else (Inr (), k)),
      udp_recv = (\<lambda>n k. (Inl ''Exhausted'', k)), udp_send = (\<lambda>b ep k. (Inr (), k)),
      icmp_bind = (\<lambda>p k. (Inr (), k)), icmp_recv = (\<lambda>n k. (Inl ''Exhausted'', k)),
      icmp_send = (\<lambda>b ip k. (Inr (), k)),
      echo_request = (\<lambda>id sq b src dst. b), echo_seq_no = (\<lambda>b. 0),
      iface_poll = (\<lambda>now i d s. (i, d\<lparr>rx_queue := []\<rparr>, foldl slot_packet s (rx_queue d))),
      iface_poll_delay = (\<lambda>now i s. (i, None)), since = (\<lambda>now t. nat \<bar>now - t\<bar>)\<rparr>"

lemma slot_smoltcp_simps:
  "ss_get slot_smoltcp = slot_get" "tcp_st slot_smoltcp = slot_state" "sk_kind slot_smoltcp = slot_kind"
  "since slot_smoltcp now t = nat \<bar>now - t\<bar>"
  "may_recv slot_smoltcp k \<longleftrightarrow> slot_state k \<in> {St_Established, St_FinWait1, St_FinWait2}"
  "may_send slot_smoltcp k \<longleftrightarrow> slot_state k \<in> {St_Established, St_CloseWait}"
  by (simp_all add: slot_smoltcp_def)

lemma first_free_spec:
  "first_free s = length s \<or> (first_free s < length s \<and> s ! first_free s = None)"
  by (induction s rule: first_free.induct) auto

lemma slot_packet_kind:
  "map_option slot_kind (slot_get (slot_packet s pkt) h) = map_option slot_kind (slot_get s h)"
  by (auto simp: slot_packet_def slot_get_def nth_list_update split: list.split option.split)

lemma slot_packets_kind:
  "map_option slot_kind (slot_get (foldl slot_packet s pkts) h) = map_option slot_kind (slot_get s h)"
  by (induction pkts arbitrary: s) (simp_all add: slot_packet_kind)

lemma slot_add_get:
  assumes "slot_add k s = (h, s')"
  shows "slot_get s h = None \<and> slot_get s' h' = (if h' = h then Some k else slot_get s h')"
  using assms first_free_spec[of s]
  by (auto simp: slot_get_def slot_add_def Let_def nth_list_update nth_append split: if_splits)

lemma slot_set_laws: "socket_set_laws slot_smoltcp"
  using slot_add_get
  by (auto simp: socket_set_laws_def slot_smoltcp_def slot_get_def nth_list_update split: if_splits)

lemma slot_kind_laws: "kind_laws slot_smoltcp"
  by (auto simp: kind_laws_def slot_smoltcp_def slot_new_def)

lemma slot_poll_laws: "poll_laws slot_smoltcp"
  by (simp add: poll_laws_def slot_smoltcp_def slot_packets_kind)

lemma slot_smoltcp_ok: "smoltcp_ok slot_smoltcp"
  by (simp add: smoltcp_ok_def slot_set_laws slot_kind_laws slot_poll_laws)

end
