(* ===== verification/Sweep.thy ===== *)
theory Sweep
  imports Prelude
begin

text \<open>
  The loop the netstack uses to clean a vector in place,
  \<open>while i < v.len() { if \<dots> { v.swap_remove(i); } else { i += 1; } }\<close>, with a body that may update
  the element it keeps, thread further state and panic (\<open>None\<close>).  \<open>process\<close> is the same body run
  once over a list; \<open>sweep_process\<close> shows that the loop visits every element exactly once.
\<close>

datatype 'a verdict = Keep 'a | Remove

function sweep ::
  "('a \<Rightarrow> 'acc \<Rightarrow> ('a verdict \<times> 'acc) option) \<Rightarrow> nat \<Rightarrow> 'a list \<Rightarrow> 'acc \<Rightarrow> ('a list \<times> 'acc) option" where
  "sweep body i xs acc =
     (if i < length xs then
        (case body (xs ! i) acc of
           None \<Rightarrow> None
         | Some (Keep x, acc') \<Rightarrow> sweep body (Suc i) (xs[i := x]) acc'
         | Some (Remove, acc') \<Rightarrow> sweep body i (swap_remove i xs) acc')
      else Some (xs, acc))"
  by pat_completeness auto
termination by (relation "measure (\<lambda>(body, i, xs, acc). length xs - i)") auto

declare sweep.simps [simp del]

fun process ::
  "('a \<Rightarrow> 'acc \<Rightarrow> ('a verdict \<times> 'acc) option) \<Rightarrow> 'a list \<Rightarrow> 'acc \<Rightarrow> ('a list \<times> 'acc) option" where
  "process body [] acc = Some ([], acc)"
| "process body (x # xs) acc =
     (case body x acc of
        None \<Rightarrow> None
      | Some (Keep y, acc') \<Rightarrow> map_option (\<lambda>(ys, a). (y # ys, a)) (process body xs acc')
      | Some (Remove, acc') \<Rightarrow> process body xs acc')"

text \<open>Where the swapped-in element goes, for the part of the vector not yet visited.\<close>

lemma swap_remove_take_drop:
  assumes "i < length xs"
  shows "take i (swap_remove i xs) = take i xs"
    and "add_mset (xs ! i) (mset (drop i (swap_remove i xs))) = mset (drop i xs)"
proof -
  from assms obtain ys y where xs: "xs = ys @ [y]" by (metis length_0_conv less_nat_zero_code rev_exhaust)
  show t: "take i (swap_remove i xs) = take i xs"
    using assms xs by (auto simp: swap_remove_snoc)
  have "mset xs = mset (take i xs) + mset (drop i xs)"
    by (metis append_take_drop_id mset_append)
  moreover have "mset (swap_remove i xs) = mset (take i xs) + mset (drop i (swap_remove i xs))"
    by (metis t append_take_drop_id mset_append)
  ultimately show "add_mset (xs ! i) (mset (drop i (swap_remove i xs))) = mset (drop i xs)"
    using mset_swap_remove[OF assms] by simp
qed

lemma sweep_from:
  "\<exists>ys. mset ys = mset (drop i xs) \<and>
     (case process body ys acc of
        None \<Rightarrow> sweep body i xs acc = None
      | Some (kept, acc') \<Rightarrow> \<exists>xs'. sweep body i xs acc = Some (xs', acc') \<and>
          mset xs' = mset (take i xs) + mset kept)"
proof (induction body i xs acc rule: sweep.induct)
  case (1 body i xs acc)
  show ?case
  proof (cases "i < length xs")
    case False
    then show ?thesis by (intro exI[of _ "[]"]) (simp add: sweep.simps)
  next
    case True
    note sw = sweep.simps[of body i xs acc]
    have split: "drop i xs = xs ! i # drop (Suc i) xs" using True by (simp add: Cons_nth_drop_Suc)
    show ?thesis
    proof (cases "body (xs ! i) acc")
      case None
      then show ?thesis using True split sw by (intro exI[of _ "drop i xs"]) simp
    next
      case (Some p)
      obtain v acc' where p: "p = (v, acc')" by fastforce
      show ?thesis
      proof (cases v)
        case (Keep x)
        from "1.IH"(1)[OF True Some p[symmetric] Keep] obtain ys where ys: "mset ys = mset (drop (Suc i) (xs[i := x]))"
          and r: "case process body ys acc' of
            None \<Rightarrow> sweep body (Suc i) (xs[i := x]) acc' = None
          | Some (kept, a) \<Rightarrow> \<exists>xs'. sweep body (Suc i) (xs[i := x]) acc' = Some (xs', a) \<and>
              mset xs' = mset (take (Suc i) (xs[i := x])) + mset kept" by blast
        have "mset (take (Suc i) (xs[i := x])) = add_mset x (mset (take i xs))"
          using True by (simp add: take_Suc_conv_app_nth take_update_cancel)
        with ys r Some p Keep True split sw show ?thesis
          by (intro exI[of _ "xs ! i # ys"]) (auto split: option.splits)
      next
        case Remove
        from "1.IH"(2)[OF True Some p[symmetric] Remove] obtain ys where ys: "mset ys = mset (drop i (swap_remove i xs))"
          and r: "case process body ys acc' of
            None \<Rightarrow> sweep body i (swap_remove i xs) acc' = None
          | Some (kept, a) \<Rightarrow> \<exists>xs'. sweep body i (swap_remove i xs) acc' = Some (xs', a) \<and>
              mset xs' = mset (take i (swap_remove i xs)) + mset kept" by blast
        with Some p Remove True sw swap_remove_take_drop[OF True] show ?thesis
          by (intro exI[of _ "xs ! i # ys"]) (auto split: option.splits)
      qed
    qed
  qed
qed

text \<open>The loop from the start is one pass over some permutation of the vector.\<close>

lemma sweep_process:
  "\<exists>ys. mset ys = mset xs \<and> (process body ys acc = None \<longrightarrow> sweep body 0 xs acc = None) \<and>
     (\<forall>kept acc'. process body ys acc = Some (kept, acc') \<longrightarrow>
        (\<exists>xs'. sweep body 0 xs acc = Some (xs', acc') \<and> mset xs' = mset kept))"
proof -
  obtain ys where "mset ys = mset xs" and "case process body ys acc of
        None \<Rightarrow> sweep body 0 xs acc = None
      | Some (kept, acc') \<Rightarrow> \<exists>xs'. sweep body 0 xs acc = Some (xs', acc') \<and> mset xs' = mset kept"
    using sweep_from[of 0 xs body acc] by (simp only: take_0 drop_0 mset.simps(1) add_0) blast
  then show ?thesis by (intro exI[of _ ys]) auto
qed

text \<open>An invariant of a pass, over the elements kept so far and the threaded state.\<close>

lemma process_invariant:
  assumes "process body xs acc = Some (kept, acc')" and "P ks acc"
    and "\<forall>ks x a y a'. P ks a \<longrightarrow> x \<in> set xs \<longrightarrow> body x a = Some (Keep y, a') \<longrightarrow> P (ks @ [y]) a'"
    and "\<forall>ks x a a'. P ks a \<longrightarrow> x \<in> set xs \<longrightarrow> body x a = Some (Remove, a') \<longrightarrow> P ks a'"
  shows "P (ks @ kept) acc'"
  using assms
proof (induction xs arbitrary: acc kept ks)
  case (Cons x xs)
  obtain v a where b: "body x acc = Some (v, a)" using Cons.prems(1) by (auto split: option.splits)
  have sub: "\<forall>ks x a y a'. P ks a \<longrightarrow> x \<in> set xs \<longrightarrow> body x a = Some (Keep y, a') \<longrightarrow> P (ks @ [y]) a'"
    "\<forall>ks x a a'. P ks a \<longrightarrow> x \<in> set xs \<longrightarrow> body x a = Some (Remove, a') \<longrightarrow> P ks a'"
    using Cons.prems(3,4) by (meson list.set_intros(2))+
  show ?case
  proof (cases v)
    case (Keep y)
    with Cons.prems(1) b obtain kept' where k: "process body xs a = Some (kept', acc')" "kept = y # kept'" by auto
    have "P (ks @ [y]) a" using Cons.prems(2,3) b Keep by (meson list.set_intros(1))
    from Cons.IH[OF k(1) this sub] k(2) show ?thesis by simp
  next
    case Remove
    with Cons.prems(1) b have k: "process body xs a = Some (kept, acc')" by simp
    have "P ks a" using Cons.prems(2,4) b Remove by (meson list.set_intros(1))
    from Cons.IH[OF k this sub] show ?thesis .
  qed
qed simp

end
