(* ===== verification/Netstack_Poll.thy ===== *)
theory Netstack_Poll
  imports Smoltcp Sweep Frag "HOL-Library.Monad_Syntax"
begin

text \<open>
  The shared state of the netstack and its poll cycle, the methods of \<open>NetstackState\<close> in
  \<open>crates/yggstack/src/netstack/mod.rs\<close>: connect commands, the poll loop, servicing of the
  listeners (accept queues, stuck handshakes, refilling the pool) and reaping of closed sockets.
  \<open>SocketSet::get\<close> panics on a handle that names no socket of the right kind: \<open>None\<close>.  A waker
  is a number; \<open>service_listeners\<close> returns those it wakes.
\<close>

section \<open>Model\<close>

definition LISTEN_POOL :: nat where "LISTEN_POOL = 8"
definition SYN_HANDSHAKE_TIMEOUT :: nat where "SYN_HANDSHAKE_TIMEOUT = 10000000"
definition CLOSE_GRACE :: nat where "CLOSE_GRACE = 60000000"

text \<open>smoltcp counts time in microseconds.\<close>

type_synonym waker = nat
type_synonym chan = nat

record PendingConnect =
  pc_handle :: handle
  pc_remote :: ip_endpoint
  pc_local_port :: u16
  pc_result_tx :: chan

record TcpListenerEntry =
  listen_ep :: listen_endpoint
  listen_pool :: "(handle \<times> smol_instant option) list"
  accept_queue :: "handle list"
  accept_wakers :: "waker list"

record ('i, 's) NetstackState =
  iface :: 'i
  device :: YggDevice
  sockets :: 's
  wakers :: "waker list"
  pending_connects :: "PendingConnect list"
  listeners :: "TcpListenerEntry list"
  closing :: "(handle \<times> smol_instant) list"
  closed :: bool

text \<open>\<open>sockets.get::<tcp::Socket>(h)\<close> and the like.\<close>

definition get_sock :: "('i, 's, 'k) smoltcp \<Rightarrow> sock_kind \<Rightarrow> 's \<Rightarrow> handle \<Rightarrow> 'k option" where
  "get_sock sm kd s h =
     (case ss_get sm s h of None \<Rightarrow> None | Some k \<Rightarrow> if sk_kind sm k = kd then Some k else None)"

text \<open>\<open>sockets.remove(h)\<close> panics on an unknown handle.\<close>

definition remove_sock :: "('i, 's, 'k) smoltcp \<Rightarrow> handle \<Rightarrow> 's \<Rightarrow> 's option" where
  "remove_sock sm h s = (case ss_get sm s h of None \<Rightarrow> None | Some _ \<Rightarrow> Some (ss_remove sm h s))"

definition poll_delay_ms ::
  "('i, 's, 'k) smoltcp \<Rightarrow> smol_instant \<Rightarrow> ('i, 's) NetstackState \<Rightarrow> nat \<times> ('i, 's) NetstackState" where
  "poll_delay_ms sm now st =
     (case iface_poll_delay sm now (iface st) (sockets st) of
        (i', Some d) \<Rightarrow> (min d 50, st\<lparr>iface := i'\<rparr>)
      | (i', None) \<Rightarrow> (50, st\<lparr>iface := i'\<rparr>))"

text \<open>\<open>loop { iface.poll(..); if rx_queue.is_empty() { break; } }\<close>\<close>

partial_function (option) poll_loop ::
  "('i, 's, 'k) smoltcp \<Rightarrow> smol_instant \<Rightarrow> ('i, 's) NetstackState \<Rightarrow> ('i, 's) NetstackState option" where
  "poll_loop sm now st =
     (case iface_poll sm now (iface st) (device st) (sockets st) of
        (i', d', s') \<Rightarrow>
          (let st' = st\<lparr>iface := i', device := d', sockets := s'\<rparr>
           in if rx_queue d' = [] then Some st' else poll_loop sm now st'))"

fun process_connects_from ::
  "('i, 's, 'k) smoltcp \<Rightarrow> PendingConnect list \<Rightarrow> ('i, 's) NetstackState \<Rightarrow>
     ((chan \<times> (string + unit)) list \<times> ('i, 's) NetstackState) option" where
  "process_connects_from sm [] st = Some ([], st)"
| "process_connects_from sm (cmd # cmds) st =
     (case get_sock sm Tcp_Socket (sockets st) (pc_handle cmd) of
        None \<Rightarrow> None
      | Some k \<Rightarrow>
          (case tcp_connect sm (iface st) (pc_remote cmd) (pc_local_port cmd) k of (i', result, k') \<Rightarrow>
             map_option (\<lambda>(rs, st'). ((pc_result_tx cmd, result) # rs, st'))
               (process_connects_from sm cmds
                  (st\<lparr>iface := i', sockets := ss_put sm (pc_handle cmd) k' (sockets st)\<rparr>))))"

definition process_connects ::
  "('i, 's, 'k) smoltcp \<Rightarrow> ('i, 's) NetstackState \<Rightarrow>
     ((chan \<times> (string + unit)) list \<times> ('i, 's) NetstackState) option" where
  "process_connects sm st = process_connects_from sm (pending_connects st) (st\<lparr>pending_connects := []\<rparr>)"

definition new_tcp_socket ::
  "('i, 's, 'k) smoltcp \<Rightarrow> ('i, 's) NetstackState \<Rightarrow> handle \<times> ('i, 's) NetstackState" where
  "new_tcp_socket sm st =
     (case ss_add sm (tcp_new sm 65536 65536) (sockets st) of (h, s') \<Rightarrow> (h, st\<lparr>sockets := s'\<rparr>))"

definition new_udp_socket ::
  "('i, 's, 'k) smoltcp \<Rightarrow> ('i, 's) NetstackState \<Rightarrow> handle \<times> ('i, 's) NetstackState" where
  "new_udp_socket sm st =
     (case ss_add sm (udp_new sm 64 65536) (sockets st) of (h, s') \<Rightarrow> (h, st\<lparr>sockets := s'\<rparr>))"

definition new_listen_socket :: "('i, 's, 'k) smoltcp \<Rightarrow> listen_endpoint \<Rightarrow> 's \<Rightarrow> handle \<times> 's" where
  "new_listen_socket sm ep s = ss_add sm (snd (tcp_listen sm ep (tcp_new sm 65536 65536))) s"

definition established_body ::
  "('i, 's, 'k) smoltcp \<Rightarrow> 's \<Rightarrow> handle \<times> smol_instant option \<Rightarrow> handle list \<times> bool \<Rightarrow>
     ((handle \<times> smol_instant option) verdict \<times> handle list \<times> bool) option" where
  "established_body sm s e acc =
     (case get_sock sm Tcp_Socket s (fst e) of
        None \<Rightarrow> None
      | Some k \<Rightarrow>
          if may_recv sm k \<and> may_send sm k then Some (Remove, fst acc @ [fst e], True)
          else Some (Keep e, acc))"

definition handshake_body ::
  "('i, 's, 'k) smoltcp \<Rightarrow> smol_instant \<Rightarrow> handle \<times> smol_instant option \<Rightarrow> 's \<Rightarrow>
     ((handle \<times> smol_instant option) verdict \<times> 's) option" where
  "handshake_body sm now e s =
     (case get_sock sm Tcp_Socket s (fst e) of
        None \<Rightarrow> None
      | Some k \<Rightarrow>
          if tcp_st sm k = St_Listen then Some (Keep (fst e, None), s)
          else
            (case snd e of
               None \<Rightarrow> Some (Keep (fst e, Some now), s)
             | Some t \<Rightarrow>
                 if SYN_HANDSHAKE_TIMEOUT < since sm now t then
                   map_option (\<lambda>s'. (Remove, s'))
                     (remove_sock sm (fst e) (ss_put sm (fst e) (tcp_abort sm k) s))
                 else Some (Keep e, s)))"

definition in_listen :: "(handle \<times> smol_instant option) list \<Rightarrow> nat" where
  "in_listen pool = length (filter (\<lambda>(h, t). t = None) pool)"

fun top_up ::
  "('i, 's, 'k) smoltcp \<Rightarrow> listen_endpoint \<Rightarrow> nat \<Rightarrow> (handle \<times> smol_instant option) list \<Rightarrow> 's \<Rightarrow>
     (handle \<times> smol_instant option) list \<times> 's" where
  "top_up sm ep 0 pool s = (pool, s)"
| "top_up sm ep (Suc n) pool s =
     (case new_listen_socket sm ep s of (h, s') \<Rightarrow> top_up sm ep n (pool @ [(h, None)]) s')"

definition service_entry ::
  "('i, 's, 'k) smoltcp \<Rightarrow> smol_instant \<Rightarrow> TcpListenerEntry \<Rightarrow> 's \<Rightarrow>
     (TcpListenerEntry \<times> waker list \<times> 's) option" where
  "service_entry sm now entry s =
     do { (pool1, queue1, queued) \<leftarrow> sweep (established_body sm s) 0 (listen_pool entry) (accept_queue entry, False);
          (pool2, s2) \<leftarrow> sweep (handshake_body sm now) 0 pool1 s;
          (case top_up sm (listen_ep entry) (LISTEN_POOL - in_listen pool2) pool2 s2 of
             (pool3, s3) \<Rightarrow>
               Some (entry\<lparr>listen_pool := pool3, accept_queue := queue1,
                           accept_wakers := if queued then [] else accept_wakers entry\<rparr>,
                     if queued then accept_wakers entry else [], s3)) }"

fun service_entries ::
  "('i, 's, 'k) smoltcp \<Rightarrow> smol_instant \<Rightarrow> TcpListenerEntry list \<Rightarrow> 's \<Rightarrow>
     (TcpListenerEntry list \<times> waker list \<times> 's) option" where
  "service_entries sm now [] s = Some ([], [], s)"
| "service_entries sm now (e # es) s =
     do { (e', ws, s1) \<leftarrow> service_entry sm now e s;
          (es', ws', s2) \<leftarrow> service_entries sm now es s1;
          Some (e' # es', ws @ ws', s2) }"

definition service_listeners ::
  "('i, 's, 'k) smoltcp \<Rightarrow> smol_instant \<Rightarrow> ('i, 's) NetstackState \<Rightarrow>
     (waker list \<times> ('i, 's) NetstackState) option" where
  "service_listeners sm now st =
     do { (es, ws, s) \<leftarrow> service_entries sm now (listeners st) (sockets st);
          Some (ws, st\<lparr>listeners := es, sockets := s\<rparr>) }"

definition closing_body ::
  "('i, 's, 'k) smoltcp \<Rightarrow> smol_instant \<Rightarrow> handle \<times> smol_instant \<Rightarrow> 's \<Rightarrow>
     ((handle \<times> smol_instant) verdict \<times> 's) option" where
  "closing_body sm now e s =
     (case get_sock sm Tcp_Socket s (fst e) of
        None \<Rightarrow> None
      | Some k \<Rightarrow>
          (let finished = (tcp_st sm k = St_Closed); expired = (CLOSE_GRACE < since sm now (snd e))
           in if finished \<or> expired then
                map_option (\<lambda>s'. (Remove, s'))
                  (remove_sock sm (fst e) (if finished then s else ss_put sm (fst e) (tcp_abort sm k) s))
              else Some (Keep e, s)))"

definition reap_closing_sockets ::
  "('i, 's, 'k) smoltcp \<Rightarrow> smol_instant \<Rightarrow> ('i, 's) NetstackState \<Rightarrow> ('i, 's) NetstackState option" where
  "reap_closing_sockets sm now st =
     do { (cl, s) \<leftarrow> sweep (closing_body sm now) 0 (closing st) (sockets st);
          Some (st\<lparr>closing := cl, sockets := s\<rparr>) }"

text \<open>One poll cycle: the packets to send, the wakers to fire after the lock is released, the accept
  wakers fired under it.\<close>

definition run_poll ::
  "('i, 's, 'k) smoltcp \<Rightarrow> smol_instant \<Rightarrow> smol_instant \<Rightarrow> smol_instant \<Rightarrow> ('i, 's) NetstackState \<Rightarrow>
     (bytes list \<times> waker list \<times> waker list \<times> ('i, 's) NetstackState) option" where
  "run_poll sm now now_serve now_reap st =
     do { st1 \<leftarrow> poll_loop sm now st;
          (woken, st2) \<leftarrow> service_listeners sm now_serve st1;
          st3 \<leftarrow> reap_closing_sockets sm now_reap st2;
          Some (tx_queue (device st3), wakers st3, woken,
                st3\<lparr>device := (device st3)\<lparr>tx_queue := []\<rparr>, wakers := []\<rparr>) }"

text \<open>The poll task queues what the reassembler lets through.\<close>

fun enqueue_packets ::
  "arrival list \<Rightarrow> FragReassembler \<Rightarrow> ('i, 's) NetstackState \<Rightarrow> FragReassembler \<times> ('i, 's) NetstackState" where
  "enqueue_packets [] fr st = (fr, st)"
| "enqueue_packets ((now, created_at, pkt) # xs) fr st =
     (case feed now created_at pkt fr of
        (fr', Some p) \<Rightarrow> enqueue_packets xs fr' (st\<lparr>device := (device st)\<lparr>rx_queue := rx_queue (device st) @ [p]\<rparr>\<rparr>)
      | (fr', None) \<Rightarrow> enqueue_packets xs fr' st)"

section \<open>Handles and kinds\<close>

text \<open>The netstack relies on a socket set only through which handles name a socket of which kind.\<close>

definition kinds :: "('i, 's, 'k) smoltcp \<Rightarrow> 's \<Rightarrow> handle \<Rightarrow> sock_kind option" where
  "kinds sm s h = map_option (sk_kind sm) (ss_get sm s h)"

lemma get_sock_None: "get_sock sm kd s h = None \<longleftrightarrow> kinds sm s h \<noteq> Some kd"
  by (auto simp: get_sock_def kinds_def split: option.split)

lemma get_sockD: "get_sock sm kd s h = Some k \<Longrightarrow> ss_get sm s h = Some k \<and> sk_kind sm k = kd"
  by (simp add: get_sock_def split: option.splits if_splits)

lemma get_sock_kinds: "kinds sm s h = Some kd \<Longrightarrow> \<exists>k. get_sock sm kd s h = Some k"
  using get_sock_None by fastforce

lemma kinds_put:
  assumes "smoltcp_ok sm" and "get_sock sm kd s h = Some k" and "sk_kind sm k' = sk_kind sm k"
  shows "kinds sm (ss_put sm h k' s) = kinds sm s"
  using assms get_sockD[OF assms(2)] by (auto simp: kinds_def sm_put)

lemma kinds_remove: "smoltcp_ok sm \<Longrightarrow> kinds sm (ss_remove sm h s) = (kinds sm s)(h := None)"
  by (auto simp: kinds_def sm_remove)

lemma kinds_add:
  assumes "smoltcp_ok sm" and "ss_add sm k s = (h, s')"
  shows "kinds sm s h = None \<and> kinds sm s' = (kinds sm s)(h \<mapsto> sk_kind sm k)"
  using sm_add[OF assms] by (auto simp: kinds_def)

text \<open>Sweeps whose body decides by looking at the element's own socket, and removes that socket
  when it drops the element.\<close>

definition removal_body ::
  "('i, 's, 'k) smoltcp \<Rightarrow> (handle \<times> 't \<Rightarrow> 'k \<Rightarrow> (handle \<times> 't) option) \<Rightarrow>
     (handle \<times> 't \<Rightarrow> 's \<Rightarrow> ((handle \<times> 't) verdict \<times> 's) option) \<Rightarrow> bool" where
  "removal_body sm dec body \<longleftrightarrow>
     (\<forall>e s k e'. get_sock sm Tcp_Socket s (fst e) = Some k \<longrightarrow> dec e k = Some e' \<longrightarrow>
        fst e' = fst e \<and> body e s = Some (Keep e', s)) \<and>
     (\<forall>e s k. get_sock sm Tcp_Socket s (fst e) = Some k \<longrightarrow> dec e k = None \<longrightarrow>
        (\<exists>s'. body e s = Some (Remove, s') \<and>
           (\<forall>h. ss_get sm s' h = (if h = fst e then None else ss_get sm s h))))"

abbreviation decided :: "('i, 's, 'k) smoltcp \<Rightarrow> (handle \<times> 't \<Rightarrow> 'k \<Rightarrow> (handle \<times> 't) option) \<Rightarrow> 's \<Rightarrow>
     handle \<times> 't \<Rightarrow> (handle \<times> 't) option" where
  "decided sm dec s e \<equiv> dec e (the (get_sock sm Tcp_Socket s (fst e)))"

lemma removal_process:
  assumes body: "removal_body sm dec body" and dist: "distinct (map fst ys)"
    and tcp: "\<forall>e\<in>set ys. kinds sm s (fst e) = Some Tcp_Socket"
  shows "\<exists>s'. process body ys s = Some (List.map_filter (decided sm dec s) ys, s') \<and>
    (\<forall>h. ss_get sm s' h =
      (if \<exists>e\<in>set ys. fst e = h \<and> decided sm dec s e = None then None else ss_get sm s h))"
  using dist tcp
proof (induction ys arbitrary: s)
  case (Cons e ys)
  obtain k where k: "get_sock sm Tcp_Socket s (fst e) = Some k" using Cons.prems(2) get_sock_kinds by fastforce
  have fresh: "fst e' \<noteq> fst e" if "e' \<in> set ys" for e' using that Cons.prems(1) by (auto simp: image_iff)
  show ?case
  proof (cases "dec e k")
    case (Some e')
    with body k have b: "body e s = Some (Keep e', s)" unfolding removal_body_def by blast
    from Cons.IH[of s] Cons.prems obtain s' where
      "process body ys s = Some (List.map_filter (decided sm dec s) ys, s')"
      "\<forall>h. ss_get sm s' h = (if \<exists>e\<in>set ys. fst e = h \<and> decided sm dec s e = None then None else ss_get sm s h)"
      by auto
    with b k Some show ?thesis by (auto simp: map_filter_simps)
  next
    case None
    with body k obtain s1 where b: "body e s = Some (Remove, s1)" and
      g: "\<forall>h. ss_get sm s1 h = (if h = fst e then None else ss_get sm s h)"
      unfolding removal_body_def by blast
    have same: "get_sock sm Tcp_Socket s1 (fst e') = get_sock sm Tcp_Socket s (fst e')" if "e' \<in> set ys" for e'
      using g fresh[OF that] by (simp add: get_sock_def)
    have "\<forall>e'\<in>set ys. kinds sm s1 (fst e') = Some Tcp_Socket"
      using Cons.prems(2) g fresh by (simp add: kinds_def)
    with Cons.IH[of s1] Cons.prems(1) obtain s' where
      p: "process body ys s1 = Some (List.map_filter (decided sm dec s1) ys, s')"
      "\<forall>h. ss_get sm s' h = (if \<exists>e\<in>set ys. fst e = h \<and> decided sm dec s1 e = None then None else ss_get sm s1 h)"
      by auto
    have "List.map_filter (decided sm dec s1) ys = List.map_filter (decided sm dec s) ys"
      using same by (auto simp: List.map_filter_def intro!: filter_cong map_cong)
    with p b k None g same show ?thesis by (auto simp: map_filter_simps)
  qed
qed (simp add: map_filter_simps)

lemma mset_map_filter: "mset xs = mset ys \<Longrightarrow> mset (List.map_filter f xs) = mset (List.map_filter f ys)"
  by (simp only: List.map_filter_def mset_map mset_filter)

lemma removal_sweep:
  assumes "removal_body sm dec body" and "distinct (map fst xs)"
    and "\<forall>e\<in>set xs. kinds sm s (fst e) = Some Tcp_Socket"
  shows "\<exists>xs' s'. sweep body 0 xs s = Some (xs', s') \<and> mset xs' = mset (List.map_filter (decided sm dec s) xs) \<and>
    (\<forall>h. ss_get sm s' h =
      (if \<exists>e\<in>set xs. fst e = h \<and> decided sm dec s e = None then None else ss_get sm s h))"
proof -
  obtain ys where ys: "mset ys = mset xs"
    and r: "\<And>kept acc'. process body ys s = Some (kept, acc') \<Longrightarrow>
      \<exists>xs'. sweep body 0 xs s = Some (xs', acc') \<and> mset xs' = mset kept"
    using sweep_process[of xs body s] by auto
  have set: "set ys = set xs" using ys by (rule mset_eq_setD)
  have "mset (map fst ys) = mset (map fst xs)" using ys by simp
  from mset_eq_imp_distinct_iff[OF this] have dist: "distinct (map fst ys)" using assms(2) by simp
  from removal_process[OF assms(1) dist, of s, unfolded set, OF assms(3)] obtain s' where
    p: "process body ys s = Some (List.map_filter (decided sm dec s) ys, s')" and
    g: "\<forall>h. ss_get sm s' h = (if \<exists>e\<in>set xs. fst e = h \<and> decided sm dec s e = None then None else ss_get sm s h)"
    by blast
  from r[OF p] obtain xs' where "sweep body 0 xs s = Some (xs', s')"
    "mset xs' = mset (List.map_filter (decided sm dec s) ys)" by blast
  then show ?thesis using mset_map_filter[OF ys, of "decided sm dec s"] g
    by (intro exI[of _ xs'] exI[of _ s'] conjI) simp_all
qed

definition handshake_dec ::
  "('i, 's, 'k) smoltcp \<Rightarrow> smol_instant \<Rightarrow> handle \<times> smol_instant option \<Rightarrow> 'k \<Rightarrow>
     (handle \<times> smol_instant option) option" where
  "handshake_dec sm now e k =
     (if tcp_st sm k = St_Listen then Some (fst e, None)
      else case snd e of
        None \<Rightarrow> Some (fst e, Some now)
      | Some t \<Rightarrow> if SYN_HANDSHAKE_TIMEOUT < since sm now t then None else Some e)"

definition closing_dec ::
  "('i, 's, 'k) smoltcp \<Rightarrow> smol_instant \<Rightarrow> handle \<times> smol_instant \<Rightarrow> 'k \<Rightarrow> (handle \<times> smol_instant) option" where
  "closing_dec sm now e k =
     (if tcp_st sm k = St_Closed \<or> CLOSE_GRACE < since sm now (snd e) then None else Some e)"

lemma handshake_removal: "smoltcp_ok sm \<Longrightarrow> removal_body sm (handshake_dec sm now) (handshake_body sm now)"
  by (auto simp: removal_body_def handshake_dec_def handshake_body_def remove_sock_def sm_put sm_remove
      split: option.splits if_splits dest!: get_sockD)

lemma closing_removal: "smoltcp_ok sm \<Longrightarrow> removal_body sm (closing_dec sm now) (closing_body sm now)"
  by (auto simp: removal_body_def closing_dec_def closing_body_def remove_sock_def sm_put sm_remove Let_def
      split: option.splits if_splits dest!: get_sockD)

lemma handshake_dec_fst: "handshake_dec sm now e k = Some e' \<Longrightarrow> fst e' = fst e"
  by (auto simp: handshake_dec_def split: if_splits option.splits)

lemma closing_dec_fst: "closing_dec sm now e k = Some e' \<Longrightarrow> fst e' = fst e"
  by (auto simp: closing_dec_def split: if_splits)

text \<open>What such a sweep leaves: the handles kept are those not removed, and only the removed ones
  lose their socket.\<close>

lemma map_filter_fst:
  assumes "\<And>e e'. f e = Some e' \<Longrightarrow> fst e' = fst e"
  shows "map fst (List.map_filter f xs) = map fst (filter (\<lambda>e. f e \<noteq> None) xs)"
  using assms by (induction xs) (auto split: option.split)

lemma removed_keys:
  assumes "distinct (map fst xs)"
  shows "(\<exists>e\<in>set xs. fst e = h \<and> P e) \<longleftrightarrow> h \<in> set (map fst xs) - set (map fst (filter (\<lambda>e. \<not> P e) xs))"
proof -
  have "e = e'" if "e \<in> set xs" "e' \<in> set xs" "fst e = fst e'" for e e'
    using assms that by (auto simp: distinct_map dest: inj_onD)
  then show ?thesis unfolding set_map set_filter image_iff Diff_iff mem_Collect_eq Bex_def by metis
qed

lemma removal_sweep_kinds:
  assumes "removal_body sm dec body" and "distinct (map fst xs)"
    and "\<forall>e\<in>set xs. kinds sm s (fst e) = Some Tcp_Socket"
    and fst: "\<And>e k e'. dec e k = Some e' \<Longrightarrow> fst e' = fst e"
    and sw: "sweep body 0 xs s = Some (xs', s')"
  shows "distinct (map fst xs')" and "set (map fst xs') \<subseteq> set (map fst xs)"
    and "kinds sm s' = (\<lambda>h. if h \<in> set (map fst xs) - set (map fst xs') then None else kinds sm s h)"
proof -
  from removal_sweep[OF assms(1-3)] sw have m: "mset xs' = mset (List.map_filter (decided sm dec s) xs)"
    and g: "\<forall>h. ss_get sm s' h = (if \<exists>e\<in>set xs. fst e = h \<and> decided sm dec s e = None then None else ss_get sm s h)"
    by auto
  let ?kept = "map fst (filter (\<lambda>e. decided sm dec s e \<noteq> None) xs)"
  have "mset (map fst xs') = mset (map fst (List.map_filter (decided sm dec s) xs))" using m by simp
  then have mf: "mset (map fst xs') = mset ?kept" by (simp only: map_filter_fst[of "decided sm dec s", OF fst])
  have d: "distinct ?kept" using assms(2) by (rule distinct_map_filter)
  have s: "set (map fst xs') = set ?kept" using mf by (rule mset_eq_setD)
  have gone: "(\<exists>e\<in>set xs. fst e = h \<and> decided sm dec s e = None) \<longleftrightarrow> h \<in> set (map fst xs) - set (map fst xs')" for h
    unfolding s by (rule removed_keys[OF assms(2)])
  show "distinct (map fst xs')" using mset_eq_imp_distinct_iff[OF mf] d by blast
  show "set (map fst xs') \<subseteq> set (map fst xs)" unfolding s by auto
  show "kinds sm s' = (\<lambda>h. if h \<in> set (map fst xs) - set (map fst xs') then None else kinds sm s h)"
    unfolding gone[symmetric] by (rule ext) (simp only: kinds_def g[rule_format] if_distrib[of "map_option _"] option.map)
qed

section \<open>Ownership\<close>

text \<open>\<open>owns\<close>: the handles of a list are different sockets of one kind.  \<open>frame\<close>: an operation turned
  the owned handles \<open>X\<close> into \<open>X'\<close> and left every other socket alone.\<close>

definition owns :: "('i, 's, 'k) smoltcp \<Rightarrow> sock_kind \<Rightarrow> 's \<Rightarrow> handle list \<Rightarrow> bool" where
  "owns sm kd s X \<longleftrightarrow> distinct X \<and> (\<forall>h\<in>set X. kinds sm s h = Some kd)"

definition frame :: "('i, 's, 'k) smoltcp \<Rightarrow> 's \<Rightarrow> handle list \<Rightarrow> 's \<Rightarrow> handle list \<Rightarrow> bool" where
  "frame sm s X s' X' \<longleftrightarrow>
     (\<forall>h. kinds sm s h \<noteq> None \<longrightarrow> h \<notin> set X \<longrightarrow> h \<notin> set X' \<and> kinds sm s' h = kinds sm s h)"

lemma frameD:
  assumes "frame sm s X s' X'" and "kinds sm s h = Some kd" and "h \<notin> set X"
  shows "h \<notin> set X'" and "kinds sm s' h = Some kd"
  using assms unfolding frame_def by auto

lemma frame_refl: "frame sm s X s X"
  by (simp add: frame_def)

lemma frame_trans: "frame sm s X s1 X1 \<Longrightarrow> frame sm s1 X1 s2 X2 \<Longrightarrow> frame sm s X s2 X2"
  by (simp add: frame_def)

lemma frame_append: "frame sm s X s' X' \<Longrightarrow> frame sm s (X @ Z) s' (X' @ Z)"
  "frame sm s X s' X' \<Longrightarrow> frame sm s (Z @ X) s' (Z @ X')"
  by (simp_all add: frame_def)

lemma frame_mset: "frame sm s X s' X' \<Longrightarrow> set X = set Y \<Longrightarrow> set X' = set Y' \<Longrightarrow> frame sm s Y s' Y'"
  by (simp add: frame_def)

lemma frame_kinds: "kinds sm s' = kinds sm s \<Longrightarrow> set X' \<subseteq> set X \<Longrightarrow> frame sm s X s' X'"
  by (auto simp: frame_def)

lemma owns_mset: "owns sm kd s X \<Longrightarrow> mset X = mset Y \<Longrightarrow> owns sm kd s Y"
  using mset_eq_imp_distinct_iff mset_eq_setD unfolding owns_def by metis

lemma owns_kinds: "kinds sm s' = kinds sm s \<Longrightarrow> owns sm kd s' X = owns sm kd s X"
  by (simp add: owns_def)

lemma owns_append:
  "owns sm kd s (X @ Y) \<longleftrightarrow> owns sm kd s X \<and> owns sm kd s Y \<and> set X \<inter> set Y = {}"
  by (auto simp: owns_def)

lemma owns_frame:
  assumes "owns sm kd s (X @ Y)" and "frame sm s X s' X'" and "owns sm kd s' X'"
  shows "owns sm kd s' (X' @ Y)"
  using assms unfolding owns_append by (fastforce simp: owns_def frame_def)

lemma owns_frame_other:
  assumes "owns sm kd s Y" and "frame sm s X s' X'" and "set X \<inter> set Y = {}"
  shows "owns sm kd s' Y \<and> set X' \<inter> set Y = {}"
  using assms by (fastforce simp: owns_def frame_def)

lemma owns_kinds_disjoint: "owns sm kd s X \<Longrightarrow> owns sm kd' s Y \<Longrightarrow> kd \<noteq> kd' \<Longrightarrow> set X \<inter> set Y = {}"
  by (auto simp: owns_def)

lemma frame_add:
  assumes "smoltcp_ok sm" and "ss_add sm k s = (h, s')"
  shows "frame sm s X s' (h # X)" "frame sm s X s' (X @ [h])"
  using kinds_add[OF assms] by (auto simp: frame_def)

lemma owns_add:
  assumes "smoltcp_ok sm" and "ss_add sm k s = (h, s')" and "sk_kind sm k = kd" and "owns sm kd s X"
  shows "owns sm kd s' (h # X)" "owns sm kd s' (X @ [h])"
  using kinds_add[OF assms(1,2)] assms(3,4) by (auto simp: owns_def)

lemma frame_remove: "smoltcp_ok sm \<Longrightarrow> frame sm s (h # X) (ss_remove sm h s) X"
  by (auto simp: frame_def kinds_remove)

lemma owns_remove: "smoltcp_ok sm \<Longrightarrow> owns sm kd s (h # X) \<Longrightarrow> owns sm kd (ss_remove sm h s) X"
  by (auto simp: owns_def kinds_remove)

lemma owns_get: "owns sm kd s X \<Longrightarrow> h \<in> set X \<Longrightarrow> \<exists>k. get_sock sm kd s h = Some k"
  by (auto simp: owns_def intro: get_sock_kinds)

text \<open>The loops of a listener.\<close>

definition est :: "('i, 's, 'k) smoltcp \<Rightarrow> 's \<Rightarrow> handle \<Rightarrow> bool" where
  "est sm s h \<longleftrightarrow> (case get_sock sm Tcp_Socket s h of Some k \<Rightarrow> may_recv sm k \<and> may_send sm k | None \<Rightarrow> False)"

lemma established_process:
  assumes "\<forall>e\<in>set ys. kinds sm s (fst e) = Some Tcp_Socket"
  shows "process (established_body sm s) ys (q, b) =
    Some (filter (\<lambda>e. \<not> est sm s (fst e)) ys, q @ map fst (filter (\<lambda>e. est sm s (fst e)) ys),
          b \<or> (\<exists>e\<in>set ys. est sm s (fst e)))"
  using assms
proof (induction ys arbitrary: q b)
  case (Cons e ys)
  obtain k where "get_sock sm Tcp_Socket s (fst e) = Some k" using Cons.prems get_sock_kinds by fastforce
  with Cons show ?case by (auto simp: established_body_def est_def)
qed simp

lemma established_sweep:
  assumes "\<forall>e\<in>set pool. kinds sm s (fst e) = Some Tcp_Socket"
  shows "\<exists>pool' moved. sweep (established_body sm s) 0 pool (q, False) = Some (pool', q @ moved, moved \<noteq> []) \<and>
    mset pool' = mset (filter (\<lambda>e. \<not> est sm s (fst e)) pool) \<and>
    mset moved = mset (map fst (filter (\<lambda>e. est sm s (fst e)) pool))"
proof -
  obtain ys where ys: "mset ys = mset pool"
    and r: "\<And>kept acc'. process (established_body sm s) ys (q, False) = Some (kept, acc') \<Longrightarrow>
      \<exists>xs'. sweep (established_body sm s) 0 pool (q, False) = Some (xs', acc') \<and> mset xs' = mset kept"
    using sweep_process[of pool "established_body sm s" "(q, False)"] by auto
  let ?moved = "map fst (filter (\<lambda>e. est sm s (fst e)) ys)"
  have "set ys = set pool" using ys by (rule mset_eq_setD)
  with assms have tcp: "\<forall>e\<in>set ys. kinds sm s (fst e) = Some Tcp_Socket" by simp
  have "(\<exists>e\<in>set ys. est sm s (fst e)) \<longleftrightarrow> ?moved \<noteq> []" by (auto simp: filter_empty_conv)
  with r[OF established_process[OF tcp]] obtain pool' where
    "sweep (established_body sm s) 0 pool (q, False) = Some (pool', q @ ?moved, ?moved \<noteq> [])"
    "mset pool' = mset (filter (\<lambda>e. \<not> est sm s (fst e)) ys)" by auto
  then show ?thesis using ys by (intro exI[of _ pool'] exI[of _ ?moved]) simp
qed

lemma top_up_spec:
  assumes "smoltcp_ok sm"
  shows "\<exists>hs s'. top_up sm ep n pool s = (pool @ map (\<lambda>h. (h, None)) hs, s') \<and> length hs = n \<and> distinct hs \<and>
    (\<forall>h\<in>set hs. kinds sm s h = None) \<and>
    (\<forall>h. ss_get sm s' h = (if h \<in> set hs then Some (snd (tcp_listen sm ep (tcp_new sm 65536 65536)))
       else ss_get sm s h))"
proof (induction n arbitrary: pool s)
  case (Suc n)
  let ?k = "snd (tcp_listen sm ep (tcp_new sm 65536 65536))"
  obtain h s1 where a: "ss_add sm ?k s = (h, s1)" by fastforce
  note add = sm_add[OF assms a]
  obtain hs s' where t: "top_up sm ep n (pool @ [(h, None)]) s1 = ((pool @ [(h, None)]) @ map (\<lambda>h. (h, None)) hs, s')"
    "length hs = n" "distinct hs" "\<forall>h\<in>set hs. kinds sm s1 h = None"
    "\<forall>h. ss_get sm s' h = (if h \<in> set hs then Some ?k else ss_get sm s1 h)" using Suc.IH by blast
  have "\<forall>h'\<in>set hs. h' \<noteq> h \<and> kinds sm s h' = None"
    using t(4) add(2) by (auto simp: kinds_def split: if_splits)
  with t a add show ?case
    by (intro exI[of _ "h # hs"] exI[of _ s']) (auto simp: new_listen_socket_def kinds_def)
qed simp

definition entry_handles :: "TcpListenerEntry \<Rightarrow> handle list" where
  "entry_handles e = map fst (listen_pool e) @ accept_queue e"

lemma service_entry_exact:
  assumes ok: "smoltcp_ok sm" and own: "owns sm Tcp_Socket s (entry_handles e)"
  shows "\<exists>moved pool2 hs s2 s'.
    service_entry sm now e s =
      Some (e\<lparr>listen_pool := pool2 @ map (\<lambda>h. (h, None)) hs, accept_queue := accept_queue e @ moved,
              accept_wakers := if moved = [] then accept_wakers e else []\<rparr>,
            if moved = [] then [] else accept_wakers e, s') \<and>
    mset moved = mset (map fst (filter (\<lambda>p. est sm s (fst p)) (listen_pool e))) \<and>
    mset pool2 = mset (List.map_filter (decided sm (handshake_dec sm now) s)
      (filter (\<lambda>p. \<not> est sm s (fst p)) (listen_pool e))) \<and>
    length hs = LISTEN_POOL - in_listen pool2 \<and> distinct hs \<and> (\<forall>h\<in>set hs. kinds sm s2 h = None) \<and>
    kinds sm s2 = (\<lambda>h. if h \<in> set (map fst (filter (\<lambda>p. \<not> est sm s (fst p)) (listen_pool e))) - set (map fst pool2)
                      then None else kinds sm s h) \<and>
    (\<forall>h. ss_get sm s' h =
      (if h \<in> set hs then Some (snd (tcp_listen sm (listen_ep e) (tcp_new sm 65536 65536))) else ss_get sm s2 h))"
proof -
  have d: "distinct (map fst (listen_pool e))" and tcp: "\<forall>p\<in>set (listen_pool e). kinds sm s (fst p) = Some Tcp_Socket"
    using own by (auto simp: owns_def entry_handles_def)
  from established_sweep[OF tcp, of "accept_queue e"] obtain pool1 moved where
    s1: "sweep (established_body sm s) 0 (listen_pool e) (accept_queue e, False) = Some (pool1, accept_queue e @ moved, moved \<noteq> [])"
    and m1: "mset pool1 = mset (filter (\<lambda>p. \<not> est sm s (fst p)) (listen_pool e))"
    and mv: "mset moved = mset (map fst (filter (\<lambda>p. est sm s (fst p)) (listen_pool e)))" by blast
  have "mset (map fst pool1) = mset (map fst (filter (\<lambda>p. \<not> est sm s (fst p)) (listen_pool e)))" using m1 by simp
  from mset_eq_imp_distinct_iff[OF this] mset_eq_setD[OF this] have
    d1: "distinct (map fst pool1)" and f1: "set (map fst pool1) = set (map fst (filter (\<lambda>p. \<not> est sm s (fst p)) (listen_pool e)))"
    using distinct_map_filter[OF d] by blast+
  have tcp1: "\<forall>p\<in>set pool1. kinds sm s (fst p) = Some Tcp_Socket"
    using tcp mset_eq_setD[OF m1] by simp
  from removal_sweep[OF handshake_removal[OF ok] d1 tcp1] obtain pool2 s2 where
    s2: "sweep (handshake_body sm now) 0 pool1 s = Some (pool2, s2)"
    and m2: "mset pool2 = mset (List.map_filter (decided sm (handshake_dec sm now) s) pool1)" by blast
  have k2: "kinds sm s2 = (\<lambda>h. if h \<in> set (map fst pool1) - set (map fst pool2) then None else kinds sm s h)"
    by (rule removal_sweep_kinds(3)[OF handshake_removal[OF ok] d1 tcp1 handshake_dec_fst s2])
  from top_up_spec[OF ok, of "listen_ep e" "LISTEN_POOL - in_listen pool2" pool2 s2] obtain hs s' where
    t: "top_up sm (listen_ep e) (LISTEN_POOL - in_listen pool2) pool2 s2 = (pool2 @ map (\<lambda>h. (h, None)) hs, s')"
    "length hs = LISTEN_POOL - in_listen pool2" "distinct hs" "\<forall>h\<in>set hs. kinds sm s2 h = None"
    "\<forall>h. ss_get sm s' h = (if h \<in> set hs then Some (snd (tcp_listen sm (listen_ep e) (tcp_new sm 65536 65536))) else ss_get sm s2 h)"
    by blast
  have eq: "service_entry sm now e s =
      Some (e\<lparr>listen_pool := pool2 @ map (\<lambda>h. (h, None)) hs, accept_queue := accept_queue e @ moved,
              accept_wakers := if moved = [] then accept_wakers e else []\<rparr>,
            if moved = [] then [] else accept_wakers e, s')"
    by (cases "moved = []") (simp_all add: service_entry_def s1 s2 t(1))
  show ?thesis
    using eq mv m2 t(2-) k2 unfolding f1 mset_map_filter[OF m1, of "decided sm (handshake_dec sm now) s"]
    by blast
qed

lemma service_entry_owns:
  assumes ok: "smoltcp_ok sm" and own: "owns sm Tcp_Socket s (entry_handles e)"
  shows "\<exists>e' ws s'. service_entry sm now e s = Some (e', ws, s') \<and> listen_ep e' = listen_ep e \<and>
    owns sm Tcp_Socket s' (entry_handles e') \<and> frame sm s (entry_handles e) s' (entry_handles e')"
proof -
  let ?A = "filter (\<lambda>p. \<not> est sm s (fst p)) (listen_pool e)"
  let ?k = "snd (tcp_listen sm (listen_ep e) (tcp_new sm 65536 65536))"
  from service_entry_exact[OF assms, of now] obtain moved pool2 hs s2 s' where
    eq: "service_entry sm now e s =
      Some (e\<lparr>listen_pool := pool2 @ map (\<lambda>h. (h, None)) hs, accept_queue := accept_queue e @ moved,
              accept_wakers := if moved = [] then accept_wakers e else []\<rparr>,
            if moved = [] then [] else accept_wakers e, s')"
    and mv: "mset moved = mset (map fst (filter (\<lambda>p. est sm s (fst p)) (listen_pool e)))"
    and m2: "mset pool2 = mset (List.map_filter (decided sm (handshake_dec sm now) s) ?A)"
    and hs: "distinct hs" "\<forall>h\<in>set hs. kinds sm s2 h = None"
    and k2: "kinds sm s2 = (\<lambda>h. if h \<in> set (map fst ?A) - set (map fst pool2) then None else kinds sm s h)"
    and g: "\<forall>h. ss_get sm s' h = (if h \<in> set hs then Some ?k else ss_get sm s2 h)" by blast
  have mf: "mset (map fst pool2) = mset (map fst (filter (\<lambda>p. decided sm (handshake_dec sm now) s p \<noteq> None) ?A))"
  proof -
    have "map fst (List.map_filter (decided sm (handshake_dec sm now) s) ?A) =
        map fst (filter (\<lambda>p. decided sm (handshake_dec sm now) s p \<noteq> None) ?A)"
      by (rule map_filter_fst) (rule handshake_dec_fst)
    then show ?thesis using arg_cong[OF m2, of "image_mset fst"] by (simp only: mset_map[symmetric])
  qed
  have dp: "distinct (map fst (listen_pool e))" "distinct (accept_queue e)"
    "set (map fst (listen_pool e)) \<inter> set (accept_queue e) = {}"
    and tcp: "\<forall>h\<in>set (map fst (listen_pool e)) \<union> set (accept_queue e). kinds sm s h = Some Tcp_Socket"
    using own by (auto simp: owns_def entry_handles_def)
  have sub2: "set (map fst pool2) \<subseteq> set (map fst ?A)" unfolding mset_eq_setD[OF mf] by auto
  have d2: "distinct (map fst pool2)"
    unfolding mset_eq_imp_distinct_iff[OF mf] by (intro distinct_map_filter dp)
  have dm: "distinct moved" unfolding mset_eq_imp_distinct_iff[OF mv] by (intro distinct_map_filter dp)
  have subm: "set moved \<subseteq> set (map fst (listen_pool e))" unfolding mset_eq_setD[OF mv] by auto
  have subA: "set (map fst ?A) \<subseteq> set (map fst (listen_pool e))" by auto
  have Am: "set (map fst ?A) \<inter> set moved = {}"
    unfolding mset_eq_setD[OF mv] by auto
  let ?old = "map fst pool2 @ accept_queue e @ moved"
  have ks: "kinds sm s' = (\<lambda>h. if h \<in> set hs then Some Tcp_Socket else kinds sm s2 h)"
  proof -
    obtain r k where "tcp_listen sm (listen_ep e) (tcp_new sm 65536 65536) = (r, k)" by fastforce
    then have "sk_kind sm ?k = Tcp_Socket" using sm_kinds(1,4)[OF ok] by simp
    with g show ?thesis by (auto simp: kinds_def)
  qed
  have old: "kinds sm s2 h = Some Tcp_Socket" if "h \<in> set ?old" for h
  proof -
    have "h \<in> set (map fst pool2) \<or> h \<in> set (accept_queue e) \<or> h \<in> set moved" using that by simp
    moreover have "set (map fst pool2) \<subseteq> set (map fst (listen_pool e))" using sub2 subA by (rule subset_trans)
    ultimately have "h \<in> set (map fst (listen_pool e)) \<union> set (accept_queue e)"
      "h \<notin> set (map fst ?A) - set (map fst pool2)" using subm subA Am dp(3) by blast+
    with tcp show ?thesis unfolding k2 by (simp only: if_False)
  qed
  then have dis: "set hs \<inter> set ?old = {}" using hs(2) by fastforce
  have "distinct ?old"
  proof -
    have "set (map fst pool2) \<inter> (set (accept_queue e) \<union> set moved) = {}" "set (accept_queue e) \<inter> set moved = {}"
      using sub2 subA subm Am dp(3) by blast+
    then show ?thesis using d2 dp(2) dm by (simp add: distinct_append del: set_map)
  qed
  with dis hs(1) old have own': "owns sm Tcp_Socket s' (?old @ hs)" by (auto simp: owns_def ks)
  have "frame sm s (entry_handles e) s' (?old @ hs)"
  proof -
    have "h \<notin> set (?old @ hs) \<and> kinds sm s' h = kinds sm s h"
      if "kinds sm s h \<noteq> None" "h \<notin> set (entry_handles e)" for h
    proof -
      have "h \<notin> set (map fst (listen_pool e))" "h \<notin> set (accept_queue e)"
        using that(2) by (auto simp: entry_handles_def)
      moreover from this have "kinds sm s2 h = kinds sm s h" using subA by (auto simp: k2)
      moreover from this have "h \<notin> set hs" using that(1) hs(2) by auto
      ultimately show ?thesis using sub2 subA subm by (auto simp: ks)
    qed
    then show ?thesis by (simp add: frame_def)
  qed
  with own' eq show ?thesis
    by (auto simp: entry_handles_def comp_def intro: owns_mset frame_mset)
qed

lemma service_entries_owns:
  assumes "smoltcp_ok sm" and "owns sm Tcp_Socket s (concat (map entry_handles es))"
  shows "\<exists>es' ws s'. service_entries sm now es s = Some (es', ws, s') \<and> map listen_ep es' = map listen_ep es \<and>
    owns sm Tcp_Socket s' (concat (map entry_handles es')) \<and>
    frame sm s (concat (map entry_handles es)) s' (concat (map entry_handles es'))"
  using assms(2)
proof (induction es arbitrary: s)
  case (Cons e es)
  let ?Y = "concat (map entry_handles es)"
  from Cons.prems have own: "owns sm Tcp_Socket s (entry_handles e @ ?Y)" by simp
  then have "owns sm Tcp_Socket s (entry_handles e)" by (simp add: owns_append)
  from service_entry_owns[OF assms(1) this] obtain e' ws s1 where
    e: "service_entry sm now e s = Some (e', ws, s1)" "listen_ep e' = listen_ep e"
    "owns sm Tcp_Socket s1 (entry_handles e')" "frame sm s (entry_handles e) s1 (entry_handles e')" by blast
  from owns_frame[OF own e(4,3)] have own1: "owns sm Tcp_Socket s1 (entry_handles e' @ ?Y)" .
  then have "owns sm Tcp_Socket s1 ?Y" by (simp add: owns_append)
  from Cons.IH[OF this] obtain es' ws' s2 where
    r: "service_entries sm now es s1 = Some (es', ws', s2)" "map listen_ep es' = map listen_ep es"
    "owns sm Tcp_Socket s2 (concat (map entry_handles es'))"
    "frame sm s1 ?Y s2 (concat (map entry_handles es'))" by blast
  have "owns sm Tcp_Socket s2 (concat (map entry_handles es') @ entry_handles e')"
    using own1 by (intro owns_frame[OF _ r(4,3)]) (auto intro: owns_mset)
  then have "owns sm Tcp_Socket s2 (entry_handles e' @ concat (map entry_handles es'))"
    by (rule owns_mset) simp
  moreover have "frame sm s (entry_handles e @ ?Y) s2 (entry_handles e' @ concat (map entry_handles es'))"
    using frame_trans[OF frame_append(1)[OF e(4)] frame_append(2)[OF r(4)]] .
  ultimately show ?case using e(1,2) r(1,2) by simp
qed (simp add: owns_def frame_refl)

section \<open>The poll cycle\<close>

text \<open>The handles the netstack itself owns.\<close>

definition net_tcp :: "('i, 's) NetstackState \<Rightarrow> handle list" where
  "net_tcp st = concat (map entry_handles (listeners st)) @ map fst (closing st)"

lemma poll_loop_returns:
  assumes "smoltcp_ok sm"
  shows "\<exists>i d s. poll_loop sm now st = Some (st\<lparr>iface := i, device := d, sockets := s\<rparr>) \<and>
    rx_queue d = [] \<and> kinds sm s = kinds sm (sockets st)"
proof (induction "length (rx_queue (device st))" arbitrary: st rule: less_induct)
  case less
  obtain i d s where p: "iface_poll sm now (iface st) (device st) (sockets st) = (i, d, s)"
    by (cases "iface_poll sm now (iface st) (device st) (sockets st)") auto
  let ?st = "st\<lparr>iface := i, device := d, sockets := s\<rparr>"
  have k: "kinds sm s = kinds sm (sockets st)" using sm_poll(1)[OF assms p] by (auto simp: kinds_def)
  show ?case
  proof (cases "rx_queue d = []")
    case True
    then have "poll_loop sm now st = Some ?st" by (subst poll_loop.simps) (simp add: p)
    with True k show ?thesis by blast
  next
    case False
    then have "length (rx_queue (device ?st)) < length (rx_queue (device st))"
      using sm_poll(2,3)[OF assms p] by auto
    from less[OF this] obtain i' d' s' where "poll_loop sm now ?st = Some (?st\<lparr>iface := i', device := d', sockets := s'\<rparr>)"
      "rx_queue d' = []" "kinds sm s' = kinds sm s" by auto
    moreover have "poll_loop sm now st = poll_loop sm now ?st" using False by (subst poll_loop.simps) (simp add: p)
    ultimately show ?thesis using k by auto
  qed
qed

lemma process_connects_from_ok:
  assumes "smoltcp_ok sm" and "\<forall>c\<in>set cmds. kinds sm (sockets st) (pc_handle c) = Some Tcp_Socket"
  shows "\<exists>rs i s. process_connects_from sm cmds st = Some (rs, st\<lparr>iface := i, sockets := s\<rparr>) \<and>
    map fst rs = map pc_result_tx cmds \<and> kinds sm s = kinds sm (sockets st)"
  using assms(2)
proof (induction cmds arbitrary: st)
  case Nil
  show ?case by (rule exI[of _ "[]"], rule exI[of _ "iface st"], rule exI[of _ "sockets st"]) simp
next
  case (Cons c cmds)
  obtain k where k: "get_sock sm Tcp_Socket (sockets st) (pc_handle c) = Some k"
    using Cons.prems get_sock_kinds by fastforce
  obtain i r k' where c: "tcp_connect sm (iface st) (pc_remote c) (pc_local_port c) k = (i, r, k')"
    by (cases "tcp_connect sm (iface st) (pc_remote c) (pc_local_port c) k") auto
  let ?st = "st\<lparr>iface := i, sockets := ss_put sm (pc_handle c) k' (sockets st)\<rparr>"
  have ks: "kinds sm (sockets ?st) = kinds sm (sockets st)"
    using kinds_put[OF assms(1) k sm_kinds(5)[OF assms(1) c]] by simp
  with Cons.IH[of ?st] Cons.prems obtain rs i' s' where
    "process_connects_from sm cmds ?st = Some (rs, ?st\<lparr>iface := i', sockets := s'\<rparr>)"
    "map fst rs = map pc_result_tx cmds" "kinds sm s' = kinds sm (sockets ?st)" by auto
  with k c ks show ?case by auto
qed

lemma process_connects_ok:
  assumes "smoltcp_ok sm" and "\<forall>c\<in>set (pending_connects st). kinds sm (sockets st) (pc_handle c) = Some Tcp_Socket"
  shows "\<exists>rs i s. process_connects sm st = Some (rs, st\<lparr>pending_connects := [], iface := i, sockets := s\<rparr>) \<and>
    map fst rs = map pc_result_tx (pending_connects st) \<and> kinds sm s = kinds sm (sockets st)"
  using process_connects_from_ok[OF assms(1), of "pending_connects st" "st\<lparr>pending_connects := []\<rparr>"] assms(2)
  by (simp add: process_connects_def)

lemma reap_closing_owns:
  assumes ok: "smoltcp_ok sm" and own: "owns sm Tcp_Socket (sockets st) (map fst (closing st))"
  shows "\<exists>cl s. reap_closing_sockets sm now st = Some (st\<lparr>closing := cl, sockets := s\<rparr>) \<and>
    owns sm Tcp_Socket s (map fst cl) \<and> frame sm (sockets st) (map fst (closing st)) s (map fst cl)"
proof -
  have d: "distinct (map fst (closing st))" and tcp: "\<forall>e\<in>set (closing st). kinds sm (sockets st) (fst e) = Some Tcp_Socket"
    using own by (auto simp: owns_def)
  from removal_sweep[OF closing_removal[OF ok] d tcp] obtain cl s where
    sw: "sweep (closing_body sm now) 0 (closing st) (sockets st) = Some (cl, s)" by blast
  have k1: "distinct (map fst cl)"
    by (rule removal_sweep_kinds(1)[OF closing_removal[OF ok] d tcp closing_dec_fst sw])
  have k2: "set (map fst cl) \<subseteq> set (map fst (closing st))"
    by (rule removal_sweep_kinds(2)[OF closing_removal[OF ok] d tcp closing_dec_fst sw])
  have k3: "kinds sm s = (\<lambda>h. if h \<in> set (map fst (closing st)) - set (map fst cl) then None else kinds sm (sockets st) h)"
    by (rule removal_sweep_kinds(3)[OF closing_removal[OF ok] d tcp closing_dec_fst sw])
  have "owns sm Tcp_Socket s (map fst cl)" using k1 k2 own unfolding owns_def k3 by (simp del: set_map) blast
  moreover have "frame sm (sockets st) (map fst (closing st)) s (map fst cl)"
    using k2 unfolding frame_def k3 by (simp del: set_map) blast
  moreover have "reap_closing_sockets sm now st = Some (st\<lparr>closing := cl, sockets := s\<rparr>)"
    using sw by (simp add: reap_closing_sockets_def)
  ultimately show ?thesis by blast
qed

lemma run_poll_owns:
  assumes ok: "smoltcp_ok sm" and own: "owns sm Tcp_Socket (sockets st) (net_tcp st)"
  shows "\<exists>tx ws woken st'. run_poll sm t1 t2 t3 st = Some (tx, ws, woken, st') \<and>
    owns sm Tcp_Socket (sockets st') (net_tcp st') \<and> frame sm (sockets st) (net_tcp st) (sockets st') (net_tcp st') \<and>
    pending_connects st' = pending_connects st \<and> closed st' = closed st \<and>
    map listen_ep (listeners st') = map listen_ep (listeners st)"
proof -
  let ?L = "\<lambda>es. concat (map entry_handles es)" and ?C = "map fst (closing st)"
  from poll_loop_returns[OF ok, of t1 st] obtain i d s1 where
    p: "poll_loop sm t1 st = Some (st\<lparr>iface := i, device := d, sockets := s1\<rparr>)" and
    k1: "kinds sm s1 = kinds sm (sockets st)" by blast
  have own1: "owns sm Tcp_Socket s1 (?L (listeners st) @ ?C)"
    using own owns_kinds[OF k1] by (simp add: net_tcp_def)
  from service_entries_owns[OF ok, of s1 "listeners st" t2] own1 obtain es woken s2 where
    e: "service_entries sm t2 (listeners st) s1 = Some (es, woken, s2)"
    "map listen_ep es = map listen_ep (listeners st)" "owns sm Tcp_Socket s2 (?L es)"
    "frame sm s1 (?L (listeners st)) s2 (?L es)" by (auto simp: owns_append)
  from owns_frame[OF own1 e(4,3)] have own2: "owns sm Tcp_Socket s2 (?L es @ ?C)" .
  let ?st2 = "st\<lparr>iface := i, device := d, sockets := s2, listeners := es\<rparr>"
  from reap_closing_owns[OF ok, of ?st2 t3] own2 obtain cl s3 where
    r: "reap_closing_sockets sm t3 ?st2 = Some (?st2\<lparr>closing := cl, sockets := s3\<rparr>)"
    "owns sm Tcp_Socket s3 (map fst cl)" "frame sm s2 ?C s3 (map fst cl)" by (auto simp: owns_append)
  have "owns sm Tcp_Socket s3 (map fst cl @ ?L es)"
    using own2 by (intro owns_frame[OF _ r(3,2)]) (auto intro: owns_mset)
  then have own3: "owns sm Tcp_Socket s3 (?L es @ map fst cl)" by (rule owns_mset) simp
  have "frame sm (sockets st) (?L (listeners st) @ ?C) s1 (?L (listeners st) @ ?C)" using k1 by (rule frame_kinds) simp
  from frame_trans[OF frame_trans[OF this frame_append(1)[OF e(4)]] frame_append(2)[OF r(3)]]
  have fr: "frame sm (sockets st) (?L (listeners st) @ ?C) s3 (?L es @ map fst cl)" .
  have "service_listeners sm t2 (st\<lparr>iface := i, device := d, sockets := s1\<rparr>) = Some (woken, ?st2)"
    by (simp add: service_listeners_def e(1))
  then show ?thesis using p r(1) own3 fr e(2) by (simp add: run_poll_def net_tcp_def)
qed

end
