(* ===== verification/Netstack.thy ===== *)
theory Netstack
  imports Netstack_Poll
begin

text \<open>
  The operations of \<open>YggNetstack\<close>, \<open>TcpStream\<close>, \<open>TcpListener\<close>, \<open>UdpSocket\<close> and \<open>PingSocket\<close>
  (\<open>crates/yggstack/src/netstack/mod.rs\<close>), each as one critical section on the shared state: an
  \<open>async\<close> operation that waits is one call of its \<open>poll_fn\<close>, which is ready or leaves a waker.
  An operation that can panic returns an option.  \<open>exec\<close> runs them in any order for the tasks that
  hold streams, sockets and dials; the main result is that no order makes a handle dangle.
\<close>

section \<open>Model\<close>

record ('i, 's) YggNetstack =
  state :: "('i, 's) NetstackState"
  poll_wakeup :: bool
  our_addr :: ipv6
  ns_mtu :: nat

datatype 'a poll = Ready 'a | Pending

definition upd_state ::
  "(('i, 's) NetstackState \<Rightarrow> ('i, 's) NetstackState) \<Rightarrow> ('i, 's) YggNetstack \<Rightarrow> ('i, 's) YggNetstack" where
  "upd_state f ns = ns\<lparr>state := f (state ns)\<rparr>"

definition notify_one :: "('i, 's) YggNetstack \<Rightarrow> ('i, 's) YggNetstack" where
  "notify_one ns = ns\<lparr>poll_wakeup := True\<rparr>"

definition put_sock ::
  "('i, 's, 'k) smoltcp \<Rightarrow> handle \<Rightarrow> 'k \<Rightarrow> ('i, 's) YggNetstack \<Rightarrow> ('i, 's) YggNetstack" where
  "put_sock sm h k ns = upd_state (\<lambda>s. s\<lparr>sockets := ss_put sm h k (sockets s)\<rparr>) ns"

definition push_waker :: "waker \<Rightarrow> ('i, 's) YggNetstack \<Rightarrow> ('i, 's) YggNetstack" where
  "push_waker w ns = upd_state (\<lambda>s. s\<lparr>wakers := wakers s @ [w]\<rparr>) ns"

abbreviation sock :: "('i, 's, 'k) smoltcp \<Rightarrow> sock_kind \<Rightarrow> ('i, 's) YggNetstack \<Rightarrow> handle \<Rightarrow> 'k option" where
  "sock sm kd ns h \<equiv> get_sock sm kd (sockets (state ns)) h"

text \<open>\<open>YggNetstack::new\<close>, given the configured interface.\<close>

definition netstack_new :: "('i, 's, 'k) smoltcp \<Rightarrow> 'i \<Rightarrow> ipv6 \<Rightarrow> nat \<Rightarrow> ('i, 's) YggNetstack" where
  "netstack_new sm i addr m =
     (let m' = min m 65535
      in \<lparr>state = \<lparr>iface = i, device = new_device m', sockets = ss_empty sm, wakers = [],
                   pending_connects = [], listeners = [], closing = [], closed = False\<rparr>,
          poll_wakeup = False, our_addr = addr, ns_mtu = m'\<rparr>)"

definition ephemeral_port :: "u16 \<Rightarrow> u16" where
  "ephemeral_port r = r mod 16384 + 49152"

text \<open>Dialing: the connect command is queued, answered by the poll task through a one-shot channel,
  and the handshake is then waited for.  \<open>ckr\<close> is the Cargo feature.\<close>

fun remote_endpoint :: "bool \<Rightarrow> socket_addr \<Rightarrow> io_error + ip_endpoint" where
  "remote_endpoint ckr (SockV6 a p f sc) = Inr (V6 a, p)"
| "remote_endpoint ckr (SockV4 a p) =
     (if ckr then Inr (V4 a, p) else Inl (Io InvalidInput ''expected IPv6 address''))"

definition dial_begin ::
  "('i, 's, 'k) smoltcp \<Rightarrow> bool \<Rightarrow> socket_addr \<Rightarrow> u16 \<Rightarrow> chan \<Rightarrow> ('i, 's) YggNetstack \<Rightarrow>
     (io_error + handle) \<times> ('i, 's) YggNetstack" where
  "dial_begin sm ckr remote rnd tx ns =
     (case remote_endpoint ckr remote of
        Inl e \<Rightarrow> (Inl e, ns)
      | Inr ep \<Rightarrow>
          (case new_tcp_socket sm (state ns) of (h, s1) \<Rightarrow>
             (Inr h, notify_one (ns\<lparr>state := s1\<lparr>pending_connects := pending_connects s1 @
                [\<lparr>pc_handle = h, pc_remote = ep, pc_local_port = ephemeral_port rnd, pc_result_tx = tx\<rparr>]\<rparr>\<rparr>))))"

text \<open>What the dialer gets from its channel; \<open>None\<close> when the sender was dropped.\<close>

definition dial_received :: "(string + unit) option \<Rightarrow> io_error + unit" where
  "dial_received r =
     (case r of
        None \<Rightarrow> Inl (Io BrokenPipe ''netstack closed'')
      | Some (Inl e) \<Rightarrow> Inl (Io ConnectionRefused e)
      | Some (Inr _) \<Rightarrow> Inr ())"

definition wait_connected ::
  "('i, 's, 'k) smoltcp \<Rightarrow> handle \<Rightarrow> waker \<Rightarrow> ('i, 's) YggNetstack \<Rightarrow>
     ((io_error + unit) poll \<times> ('i, 's) YggNetstack) option" where
  "wait_connected sm h w ns =
     (case sock sm Tcp_Socket ns h of
        None \<Rightarrow> None
      | Some k \<Rightarrow>
          if tcp_st sm k = St_Established then Some (Ready (Inr ()), ns)
          else if tcp_st sm k \<in> {St_Closed, St_TimeWait, St_CloseWait}
          then Some (Ready (Inl (Io ConnectionRefused ''connection refused'')), ns)
          else Some (Pending, push_waker w ns))"

text \<open>\<open>Drop for TcpStream\<close>\<close>

definition drop_stream ::
  "('i, 's, 'k) smoltcp \<Rightarrow> handle \<Rightarrow> smol_instant \<Rightarrow> ('i, 's) YggNetstack \<Rightarrow> ('i, 's) YggNetstack option" where
  "drop_stream sm h now ns =
     (case sock sm Tcp_Socket ns h of
        None \<Rightarrow> None
      | Some k \<Rightarrow>
          Some (notify_one (upd_state (\<lambda>s. s\<lparr>closing := closing s @ [(h, now)]\<rparr>)
            (put_sock sm h (tcp_close sm k) ns))))"

definition poll_read ::
  "('i, 's, 'k) smoltcp \<Rightarrow> handle \<Rightarrow> nat \<Rightarrow> waker \<Rightarrow> ('i, 's) YggNetstack \<Rightarrow>
     ((io_error + bytes) poll \<times> ('i, 's) YggNetstack) option" where
  "poll_read sm h n w ns =
     (case sock sm Tcp_Socket ns h of
        None \<Rightarrow> None
      | Some k \<Rightarrow>
          (let rest = (\<lambda>k ns. if \<not> may_recv sm k then (Ready (Inr []), ns) else (Pending, push_waker w ns))
           in if can_recv sm k then
                (case tcp_recv sm n k of
                   (Inr b, k') \<Rightarrow> if b = [] then Some (rest k' (put_sock sm h k' ns))
                                 else Some (Ready (Inr b), put_sock sm h k' ns)
                 | (Inl e, k') \<Rightarrow> Some (Ready (Inl (Io BrokenPipe e)), put_sock sm h k' ns))
              else Some (rest k ns)))"

definition poll_write ::
  "('i, 's, 'k) smoltcp \<Rightarrow> handle \<Rightarrow> bytes \<Rightarrow> waker \<Rightarrow> ('i, 's) YggNetstack \<Rightarrow>
     ((io_error + nat) poll \<times> ('i, 's) YggNetstack) option" where
  "poll_write sm h data w ns =
     (case sock sm Tcp_Socket ns h of
        None \<Rightarrow> None
      | Some k \<Rightarrow>
          if \<not> may_send sm k then Some (Ready (Inl (Io BrokenPipe ''socket closed'')), ns)
          else if can_send sm k then
            (case tcp_send sm data k of
               (Inr n, k') \<Rightarrow> Some (Ready (Inr n), notify_one (put_sock sm h k' ns))
             | (Inl e, k') \<Rightarrow> Some (Ready (Inl (Io BrokenPipe e)), put_sock sm h k' ns))
          else Some (Pending, push_waker w ns))"

definition poll_flush :: "('i, 's) YggNetstack \<Rightarrow> (io_error + unit) poll \<times> ('i, 's) YggNetstack" where
  "poll_flush ns = (Ready (Inr ()), notify_one ns)"

definition poll_shutdown ::
  "('i, 's, 'k) smoltcp \<Rightarrow> handle \<Rightarrow> ('i, 's) YggNetstack \<Rightarrow>
     ((io_error + unit) poll \<times> ('i, 's) YggNetstack) option" where
  "poll_shutdown sm h ns =
     (case sock sm Tcp_Socket ns h of
        None \<Rightarrow> None
      | Some k \<Rightarrow> Some (Ready (Inr ()), notify_one (put_sock sm h (tcp_close sm k) ns)))"

text \<open>Listening and accepting.\<close>

fun listen_more ::
  "('i, 's, 'k) smoltcp \<Rightarrow> listen_endpoint \<Rightarrow> nat \<Rightarrow> 's \<Rightarrow> (handle \<times> smol_instant option) list \<times> 's" where
  "listen_more sm ep 0 s = ([], s)"
| "listen_more sm ep (Suc n) s =
     (case new_listen_socket sm ep s of (h, s1) \<Rightarrow>
        (case listen_more sm ep n s1 of (p, s2) \<Rightarrow> ((h, None) # p, s2)))"

definition listen_tcp ::
  "('i, 's, 'k) smoltcp \<Rightarrow> u16 \<Rightarrow> ('i, 's) YggNetstack \<Rightarrow> ((io_error + u16) \<times> ('i, 's) YggNetstack) option" where
  "listen_tcp sm port ns =
     (let ep = \<lparr>ep_addr = Some (V6 (our_addr ns)), ep_port = port\<rparr> in
      case new_tcp_socket sm (state ns) of (first, s1) \<Rightarrow>
        (case get_sock sm Tcp_Socket (sockets s1) first of
           None \<Rightarrow> None
         | Some k \<Rightarrow>
             (case tcp_listen sm ep k of (r, k') \<Rightarrow>
                let s2 = s1\<lparr>sockets := ss_put sm first k' (sockets s1)\<rparr> in
                case r of
                  Inl e \<Rightarrow> Some (Inl (Io AddrInUse e), ns\<lparr>state := s2\<rparr>)
                | Inr _ \<Rightarrow>
                    (case listen_more sm ep (LISTEN_POOL - 1) (sockets s2) of (p, ss3) \<Rightarrow>
                       Some (Inr port, ns\<lparr>state := s2\<lparr>sockets := ss3, listeners := listeners s2 @
                         [\<lparr>listen_ep = ep, listen_pool = (first, None) # p, accept_queue = [], accept_wakers = []\<rparr>]\<rparr>\<rparr>)))))"

fun accept_in ::
  "u16 \<Rightarrow> waker \<Rightarrow> TcpListenerEntry list \<Rightarrow> handle poll \<times> TcpListenerEntry list" where
  "accept_in port w [] = (Pending, [])"
| "accept_in port w (e # es) =
     (if ep_port (listen_ep e) = port then
        (case accept_queue e of
           h # q \<Rightarrow> (Ready h, e\<lparr>accept_queue := q\<rparr> # es)
         | [] \<Rightarrow> (Pending, e\<lparr>accept_wakers := accept_wakers e @ [w]\<rparr> # es))
      else (case accept_in port w es of (r, es') \<Rightarrow> (r, e # es')))"

definition tcp_accept :: "u16 \<Rightarrow> waker \<Rightarrow> ('i, 's) YggNetstack \<Rightarrow> handle poll \<times> ('i, 's) YggNetstack" where
  "tcp_accept port w ns =
     (case accept_in port w (listeners (state ns)) of (r, es) \<Rightarrow> (r, upd_state (\<lambda>s. s\<lparr>listeners := es\<rparr>) ns))"

text \<open>UDP and ICMP sockets.\<close>

definition bind_new_udp ::
  "('i, 's, 'k) smoltcp \<Rightarrow> listen_endpoint \<Rightarrow> ('i, 's) YggNetstack \<Rightarrow>
     ((io_error + handle) \<times> ('i, 's) YggNetstack) option" where
  "bind_new_udp sm ep ns =
     (case new_udp_socket sm (state ns) of (h, s1) \<Rightarrow>
        (case get_sock sm Udp_Socket (sockets s1) h of
           None \<Rightarrow> None
         | Some k \<Rightarrow>
             (case udp_bind sm ep k of (r, k') \<Rightarrow>
                Some (case r of Inl e \<Rightarrow> Inl (Io AddrInUse e) | Inr _ \<Rightarrow> Inr h,
                      ns\<lparr>state := s1\<lparr>sockets := ss_put sm h k' (sockets s1)\<rparr>\<rparr>))))"

definition bind_udp ::
  "('i, 's, 'k) smoltcp \<Rightarrow> u16 \<Rightarrow> ('i, 's) YggNetstack \<Rightarrow> ((io_error + handle) \<times> ('i, 's) YggNetstack) option" where
  "bind_udp sm port ns = bind_new_udp sm \<lparr>ep_addr = Some (V6 (our_addr ns)), ep_port = port\<rparr> ns"

definition open_udp ::
  "('i, 's, 'k) smoltcp \<Rightarrow> u16 \<Rightarrow> ('i, 's) YggNetstack \<Rightarrow> ((io_error + handle) \<times> ('i, 's) YggNetstack) option" where
  "open_udp sm rnd ns = bind_new_udp sm \<lparr>ep_addr = None, ep_port = ephemeral_port rnd\<rparr> ns"

definition udp_recv_from ::
  "('i, 's, 'k) smoltcp \<Rightarrow> handle \<Rightarrow> nat \<Rightarrow> waker \<Rightarrow> ('i, 's) YggNetstack \<Rightarrow>
     ((io_error + bytes \<times> socket_addr) poll \<times> ('i, 's) YggNetstack) option" where
  "udp_recv_from sm h n w ns =
     (case sock sm Udp_Socket ns h of
        None \<Rightarrow> None
      | Some k \<Rightarrow>
          if can_recv sm k then
            (case udp_recv sm n k of
               (Inr (b, V6 a, p), k') \<Rightarrow> Some (Ready (Inr (b, SockV6 a p 0 0)), put_sock sm h k' ns)
             | (Inr (b, V4 a, p), k') \<Rightarrow> Some (Ready (Inl (Io InvalidData ''non-IPv6 source'')), put_sock sm h k' ns)
             | (Inl e, k') \<Rightarrow> Some (Ready (Inl (io_other e)), put_sock sm h k' ns))
          else Some (Pending, push_waker w ns))"

definition udp_send_to ::
  "('i, 's, 'k) smoltcp \<Rightarrow> handle \<Rightarrow> bytes \<Rightarrow> socket_addr \<Rightarrow> waker \<Rightarrow> ('i, 's) YggNetstack \<Rightarrow>
     ((io_error + nat) poll \<times> ('i, 's) YggNetstack) option" where
  "udp_send_to sm h b target w ns =
     (case target of
        SockV4 a p \<Rightarrow> Some (Ready (Inl (Io InvalidInput ''expected IPv6 address'')), ns)
      | SockV6 a p f sc \<Rightarrow>
          (case sock sm Udp_Socket ns h of
             None \<Rightarrow> None
           | Some k \<Rightarrow>
               if can_send sm k then
                 (case udp_send sm b (V6 a, p) k of
                    (Inr _, k') \<Rightarrow> Some (Ready (Inr (length b)), notify_one (put_sock sm h k' ns))
                  | (Inl e, k') \<Rightarrow> Some (Ready (Inl (io_other e)), put_sock sm h k' ns))
               else Some (Pending, push_waker w ns)))"

text \<open>\<open>Drop for UdpSocket\<close> and \<open>Drop for PingSocket\<close>\<close>

definition drop_socket ::
  "('i, 's, 'k) smoltcp \<Rightarrow> handle \<Rightarrow> ('i, 's) YggNetstack \<Rightarrow> ('i, 's) YggNetstack option" where
  "drop_socket sm h ns =
     (case remove_sock sm h (sockets (state ns)) of
        None \<Rightarrow> None
      | Some s' \<Rightarrow> Some (upd_state (\<lambda>s. s\<lparr>sockets := s'\<rparr>) ns))"

definition open_icmp ::
  "('i, 's, 'k) smoltcp \<Rightarrow> u16 \<Rightarrow> ('i, 's) YggNetstack \<Rightarrow> ((io_error + handle) \<times> ('i, 's) YggNetstack) option" where
  "open_icmp sm ident ns =
     (case ss_add sm (icmp_new sm 8 2048) (sockets (state ns)) of (h, s1) \<Rightarrow>
        (case get_sock sm Icmp_Socket s1 h of
           None \<Rightarrow> None
         | Some k \<Rightarrow>
             (case icmp_bind sm ident k of (r, k') \<Rightarrow>
                let ns' = upd_state (\<lambda>s. s\<lparr>sockets := ss_put sm h k' s1\<rparr>) ns in
                Some (case r of Inl e \<Rightarrow> (Inl (Io AddrInUse e), ns') | Inr _ \<Rightarrow> (Inr h, notify_one ns')))))"

definition send_echo ::
  "('i, 's, 'k) smoltcp \<Rightarrow> handle \<Rightarrow> u16 \<Rightarrow> ipv6 \<Rightarrow> u16 \<Rightarrow> bytes \<Rightarrow> waker \<Rightarrow> ('i, 's) YggNetstack \<Rightarrow>
     ((io_error + unit) poll \<times> ('i, 's) YggNetstack) option" where
  "send_echo sm h ident dst seqno payload w ns =
     (if closed (state ns) then Some (Ready (Inl (Io NotConnected ''netstack closed'')), ns)
      else
        (case sock sm Icmp_Socket ns h of
           None \<Rightarrow> None
         | Some k \<Rightarrow>
             if can_send sm k then
               (case icmp_send sm (echo_request sm ident seqno payload (our_addr ns) dst) (V6 dst) k of
                  (Inr _, k') \<Rightarrow> Some (Ready (Inr ()), notify_one (put_sock sm h k' ns))
                | (Inl e, k') \<Rightarrow> Some (Ready (Inl (io_other e)), put_sock sm h k' ns))
             else Some (Pending, push_waker w ns)))"

definition recv_reply ::
  "('i, 's, 'k) smoltcp \<Rightarrow> handle \<Rightarrow> nat \<Rightarrow> waker \<Rightarrow> ('i, 's) YggNetstack \<Rightarrow>
     ((io_error + u16 \<times> ipv6) poll \<times> ('i, 's) YggNetstack) option" where
  "recv_reply sm h n w ns =
     (if closed (state ns) then Some (Ready (Inl (Io NotConnected ''netstack closed'')), ns)
      else
        (case sock sm Icmp_Socket ns h of
           None \<Rightarrow> None
         | Some k \<Rightarrow>
             if can_recv sm k then
               (case icmp_recv sm n k of
                  (Inr (b, V6 a), k') \<Rightarrow> Some (Ready (Inr (echo_seq_no sm b, a)), put_sock sm h k' ns)
                | (Inr (b, V4 a), k') \<Rightarrow> Some (Ready (Inl (Io InvalidData ''non-IPv6 echo reply'')), put_sock sm h k' ns)
                | (Inl e, k') \<Rightarrow> Some (Ready (Inl (io_other e)), put_sock sm h k' ns))
             else Some (Pending, push_waker w ns)))"

text \<open>\<open>YggNetstack::shutdown\<close>, up to joining the background tasks.\<close>

fun abort_tcp :: "('i, 's, 'k) smoltcp \<Rightarrow> handle list \<Rightarrow> 's \<Rightarrow> 's option" where
  "abort_tcp sm [] s = Some s"
| "abort_tcp sm (h # hs) s =
     (case get_sock sm Tcp_Socket s h of
        None \<Rightarrow> None
      | Some k \<Rightarrow> abort_tcp sm hs (ss_put sm h (tcp_abort sm k) s))"

definition tcp_handles :: "('i, 's, 'k) smoltcp \<Rightarrow> 's \<Rightarrow> handle list" where
  "tcp_handles sm s =
     filter (\<lambda>h. case ss_get sm s h of Some k \<Rightarrow> sk_kind sm k = Tcp_Socket | None \<Rightarrow> False) (ss_iter sm s)"

definition netstack_shutdown ::
  "('i, 's, 'k) smoltcp \<Rightarrow> ('i, 's) YggNetstack \<Rightarrow> (waker list \<times> ('i, 's) YggNetstack) option" where
  "netstack_shutdown sm ns =
     (let s = state ns; ws = wakers s @ concat (map accept_wakers (listeners s))
      in case abort_tcp sm (tcp_handles sm (sockets s)) (sockets s) of
           None \<Rightarrow> None
         | Some s' \<Rightarrow>
             Some (ws, notify_one (ns\<lparr>state := s\<lparr>closed := True, pending_connects := [], wakers := [],
               sockets := s', listeners := [], closing := []\<rparr>\<rparr>)))"

text \<open>\<open>parse_ipv4_cidr\<close>\<close>

definition parse_ipv4_cidr :: "string \<Rightarrow> (ipv4 \<times> u8) option" where
  "parse_ipv4_cidr cidr =
     do { (addr_str, prefix_str) \<leftarrow> split_once (CHR ''/'') cidr;
          addr \<leftarrow> parse_ipv4 (trim addr_str);
          prefix \<leftarrow> parse_u8 (trim prefix_str);
          Some (addr, prefix) }"

section \<open>Tasks and interleavings\<close>

text \<open>One round of the poll task: a trigger, further packets, connects, poll.\<close>

datatype trigger = Packet arrival | Sleep | Notified

definition net_cycle ::
  "('i, 's, 'k) smoltcp \<Rightarrow> trigger \<Rightarrow> arrival list \<Rightarrow> smol_instant \<Rightarrow> smol_instant \<Rightarrow> smol_instant \<Rightarrow>
     FragReassembler \<Rightarrow> ('i, 's) YggNetstack \<Rightarrow>
     (bytes list \<times> waker list \<times> (chan \<times> (string + unit)) list \<times> FragReassembler \<times> ('i, 's) YggNetstack) option" where
  "net_cycle sm trig pkts t1 t2 t3 fr ns =
     (let arrived = (case trig of Packet a \<Rightarrow> [a] | _ \<Rightarrow> []) @ pkts;
          (fr', st1) = enqueue_packets arrived fr (state ns)
      in do { (answers, st2) \<leftarrow> process_connects sm st1;
              (tx, ws, woken, st3) \<leftarrow> run_poll sm t1 t2 t3 st2;
              Some (tx, woken @ ws, answers, fr',
                    ns\<lparr>state := st3, poll_wakeup := (if trig = Notified then False else poll_wakeup ns)\<rparr>) })"

text \<open>The values the tasks hold: streams, dials in progress with what their channel has received,
  UDP and ICMP sockets.\<close>

record dial =
  d_handle :: handle
  d_tx :: chan
  d_answer :: "(string + unit) option"

record ('i, 's) world =
  ns :: "('i, 's) YggNetstack"
  reassembler :: FragReassembler
  streams :: "handle list"
  dials :: "dial list"
  udps :: "handle list"
  pings :: "handle list"
  next_tx :: chan

definition new_world :: "('i, 's) YggNetstack \<Rightarrow> ('i, 's) world" where
  "new_world n = \<lparr>ns = n, reassembler = new_reassembler, streams = [], dials = [], udps = [], pings = [], next_tx = 0\<rparr>"

definition answer :: "(chan \<times> (string + unit)) list \<Rightarrow> dial \<Rightarrow> dial" where
  "answer rs d = (case map_of rs (d_tx d) of Some r \<Rightarrow> d\<lparr>d_answer := Some r\<rparr> | None \<Rightarrow> d)"

datatype net_op =
    Cycle trigger "arrival list" smol_instant smol_instant smol_instant
  | Dial bool socket_addr u16
  | Dial_Received handle
  | Dial_Cancelled handle
  | Wait_Connected handle waker
  | Drop_Stream handle smol_instant
  | Read handle nat waker
  | Write handle bytes waker
  | Flush
  | Shutdown_Write handle
  | Listen_Tcp u16
  | Accept u16 waker
  | Bind_Udp u16
  | Open_Udp u16
  | Udp_Recv handle nat waker
  | Udp_Send handle bytes socket_addr waker
  | Drop_Udp handle
  | Open_Icmp u16
  | Echo handle u16 ipv6 u16 bytes waker
  | Recv_Reply handle nat waker
  | Drop_Icmp handle
  | Shutdown

text \<open>An operation needs the value it is called on; a dial is resumed when its channel has a result
  or its sender is gone.\<close>

fun enabled :: "net_op \<Rightarrow> ('i, 's) world \<Rightarrow> bool" where
  "enabled (Cycle trig pkts t1 t2 t3) w \<longleftrightarrow> (trig = Notified \<longrightarrow> poll_wakeup (ns w))"
| "enabled (Dial_Received h) w \<longleftrightarrow>
     list_ex (\<lambda>d. d_handle d = h \<and>
       (d_answer d \<noteq> None \<or> d_tx d \<notin> set (map pc_result_tx (pending_connects (state (ns w)))))) (dials w)"
| "enabled (Dial_Cancelled h) w \<longleftrightarrow> h \<in> set (map d_handle (dials w))"
| "enabled (Wait_Connected h k) w \<longleftrightarrow> h \<in> set (streams w)"
| "enabled (Drop_Stream h t) w \<longleftrightarrow> h \<in> set (streams w)"
| "enabled (Read h n k) w \<longleftrightarrow> h \<in> set (streams w)"
| "enabled (Write h b k) w \<longleftrightarrow> h \<in> set (streams w)"
| "enabled (Shutdown_Write h) w \<longleftrightarrow> h \<in> set (streams w)"
| "enabled (Udp_Recv h n k) w \<longleftrightarrow> h \<in> set (udps w)"
| "enabled (Udp_Send h b a k) w \<longleftrightarrow> h \<in> set (udps w)"
| "enabled (Drop_Udp h) w \<longleftrightarrow> h \<in> set (udps w)"
| "enabled (Echo h i d q b k) w \<longleftrightarrow> h \<in> set (pings w)"
| "enabled (Recv_Reply h n k) w \<longleftrightarrow> h \<in> set (pings w)"
| "enabled (Drop_Icmp h) w \<longleftrightarrow> h \<in> set (pings w)"
| "enabled _ w \<longleftrightarrow> True"

definition on_ns :: "('r \<times> ('i, 's) YggNetstack) option \<Rightarrow> ('i, 's) world \<Rightarrow> ('i, 's) world option" where
  "on_ns r w = map_option (\<lambda>(_, n). w\<lparr>ns := n\<rparr>) r"

fun exec :: "('i, 's, 'k) smoltcp \<Rightarrow> net_op \<Rightarrow> ('i, 's) world \<Rightarrow> ('i, 's) world option" where
  "exec sm (Cycle trig pkts t1 t2 t3) w =
     map_option (\<lambda>(tx, ws, rs, fr, n). w\<lparr>ns := n, reassembler := fr, dials := map (answer rs) (dials w)\<rparr>)
       (net_cycle sm trig pkts t1 t2 t3 (reassembler w) (ns w))"
| "exec sm (Dial ckr remote rnd) w =
     (case dial_begin sm ckr remote rnd (next_tx w) (ns w) of
        (Inl e, n) \<Rightarrow> Some (w\<lparr>ns := n\<rparr>)
      | (Inr h, n) \<Rightarrow> Some (w\<lparr>ns := n, next_tx := Suc (next_tx w),
          dials := dials w @ [\<lparr>d_handle = h, d_tx = next_tx w, d_answer = None\<rparr>]\<rparr>))"
| "exec sm (Dial_Received h) w =
     (case List.find (\<lambda>d. d_handle d = h) (dials w) of
        None \<Rightarrow> Some w
      | Some d \<Rightarrow>
          (let w' = w\<lparr>dials := filter (\<lambda>d. d_handle d \<noteq> h) (dials w)\<rparr>
           in case dial_received (d_answer d) of
                Inr _ \<Rightarrow> Some (w'\<lparr>streams := streams w @ [h]\<rparr>)
              | Inl _ \<Rightarrow> Some w'))"
| "exec sm (Dial_Cancelled h) w = Some (w\<lparr>dials := filter (\<lambda>d. d_handle d \<noteq> h) (dials w)\<rparr>)"
| "exec sm (Wait_Connected h k) w = on_ns (wait_connected sm h k (ns w)) w"
| "exec sm (Drop_Stream h t) w =
     map_option (\<lambda>n. w\<lparr>ns := n, streams := remove1 h (streams w)\<rparr>) (drop_stream sm h t (ns w))"
| "exec sm (Read h n k) w = on_ns (poll_read sm h n k (ns w)) w"
| "exec sm (Write h b k) w = on_ns (poll_write sm h b k (ns w)) w"
| "exec sm Flush w = on_ns (Some (poll_flush (ns w))) w"
| "exec sm (Shutdown_Write h) w = on_ns (poll_shutdown sm h (ns w)) w"
| "exec sm (Listen_Tcp port) w = on_ns (listen_tcp sm port (ns w)) w"
| "exec sm (Accept port k) w =
     (case tcp_accept port k (ns w) of
        (Ready h, n) \<Rightarrow> Some (w\<lparr>ns := n, streams := streams w @ [h]\<rparr>)
      | (Pending, n) \<Rightarrow> Some (w\<lparr>ns := n\<rparr>))"
| "exec sm (Bind_Udp port) w =
     map_option (\<lambda>(r, n). case r of Inr h \<Rightarrow> w\<lparr>ns := n, udps := udps w @ [h]\<rparr> | Inl _ \<Rightarrow> w\<lparr>ns := n\<rparr>)
       (bind_udp sm port (ns w))"
| "exec sm (Open_Udp rnd) w =
     map_option (\<lambda>(r, n). case r of Inr h \<Rightarrow> w\<lparr>ns := n, udps := udps w @ [h]\<rparr> | Inl _ \<Rightarrow> w\<lparr>ns := n\<rparr>)
       (open_udp sm rnd (ns w))"
| "exec sm (Udp_Recv h n k) w = on_ns (udp_recv_from sm h n k (ns w)) w"
| "exec sm (Udp_Send h b a k) w = on_ns (udp_send_to sm h b a k (ns w)) w"
| "exec sm (Drop_Udp h) w =
     map_option (\<lambda>n. w\<lparr>ns := n, udps := remove1 h (udps w)\<rparr>) (drop_socket sm h (ns w))"
| "exec sm (Open_Icmp ident) w =
     map_option (\<lambda>(r, n). case r of Inr h \<Rightarrow> w\<lparr>ns := n, pings := pings w @ [h]\<rparr> | Inl _ \<Rightarrow> w\<lparr>ns := n\<rparr>)
       (open_icmp sm ident (ns w))"
| "exec sm (Echo h i d q b k) w = on_ns (send_echo sm h i d q b k (ns w)) w"
| "exec sm (Recv_Reply h n k) w = on_ns (recv_reply sm h n k (ns w)) w"
| "exec sm (Drop_Icmp h) w =
     map_option (\<lambda>n. w\<lparr>ns := n, pings := remove1 h (pings w)\<rparr>) (drop_socket sm h (ns w))"
| "exec sm Shutdown w = on_ns (netstack_shutdown sm (ns w)) w"

text \<open>A run executes the operations that are enabled when their turn comes.\<close>

fun run_ops :: "('i, 's, 'k) smoltcp \<Rightarrow> net_op list \<Rightarrow> ('i, 's) world \<Rightarrow> ('i, 's) world option" where
  "run_ops sm [] w = Some w"
| "run_ops sm (op # ops) w =
     (if enabled op w then Option.bind (exec sm op w) (run_ops sm ops) else run_ops sm ops w)"

section \<open>Ownership\<close>

definition owned_tcp :: "('i, 's) world \<Rightarrow> handle list" where
  "owned_tcp w = net_tcp (state (ns w)) @ streams w"

definition dial_handles :: "('i, 's) world \<Rightarrow> handle set" where
  "dial_handles w = d_handle ` set (dials w) \<union> pc_handle ` set (pending_connects (state (ns w)))"

definition world_inv :: "('i, 's, 'k) smoltcp \<Rightarrow> ('i, 's) world \<Rightarrow> bool" where
  "world_inv sm w \<longleftrightarrow>
     (let s = sockets (state (ns w)) in
      owns sm Tcp_Socket s (owned_tcp w) \<and> owns sm Udp_Socket s (udps w) \<and> owns sm Icmp_Socket s (pings w) \<and>
      (\<forall>h\<in>dial_handles w. kinds sm s h = Some Tcp_Socket \<and> h \<notin> set (owned_tcp w)) \<and>
      distinct (map d_handle (dials w)) \<and>
      (\<forall>d\<in>set (dials w). d_answer d \<noteq> None \<longrightarrow> d_handle d \<notin> pc_handle ` set (pending_connects (state (ns w)))))"

text \<open>Operations that touch only the contents of one socket.\<close>

definition same_net :: "('i, 's, 'k) smoltcp \<Rightarrow> ('i, 's) YggNetstack \<Rightarrow> ('i, 's) YggNetstack \<Rightarrow> bool" where
  "same_net sm n n' \<longleftrightarrow> kinds sm (sockets (state n')) = kinds sm (sockets (state n)) \<and>
     net_tcp (state n') = net_tcp (state n) \<and> pending_connects (state n') = pending_connects (state n)"

lemma same_net_inv: "world_inv sm w \<Longrightarrow> same_net sm (ns w) n \<Longrightarrow> world_inv sm (w\<lparr>ns := n\<rparr>)"
  by (simp add: world_inv_def Let_def same_net_def owned_tcp_def dial_handles_def owns_def)

lemma same_net_refl [simp]: "same_net sm n n"
  by (simp add: same_net_def)

lemma same_net_notify [simp]: "same_net sm n (notify_one n') = same_net sm n n'"
  by (simp add: same_net_def notify_one_def)

lemma same_net_waker [simp]: "same_net sm n (push_waker w n') = same_net sm n n'"
  by (simp add: same_net_def push_waker_def upd_state_def net_tcp_def)

lemma same_net_put:
  "smoltcp_ok sm \<Longrightarrow> sock sm kd n h = Some k \<Longrightarrow> sk_kind sm k' = sk_kind sm k \<Longrightarrow> same_net sm n (put_sock sm h k' n)"
  by (simp add: same_net_def put_sock_def upd_state_def net_tcp_def kinds_put)

definition runs_same ::
  "('i, 's, 'k) smoltcp \<Rightarrow> ('i, 's) YggNetstack \<Rightarrow> ('r \<times> ('i, 's) YggNetstack) option \<Rightarrow> bool" where
  "runs_same sm n r \<longleftrightarrow> (\<exists>x n'. r = Some (x, n') \<and> same_net sm n n')"

lemma runs_same_Some [simp]: "runs_same sm n (Some (x, n')) = same_net sm n n'"
  by (simp add: runs_same_def)

lemma runs_same_on_ns: "world_inv sm w \<Longrightarrow> runs_same sm (ns w) r \<Longrightarrow> \<exists>w'. on_ns r w = Some w' \<and> world_inv sm w'"
  by (auto simp: runs_same_def on_ns_def intro: same_net_inv)

lemma stream_ops_same:
  assumes ok: "smoltcp_ok sm" and k: "sock sm Tcp_Socket n h = Some k"
  shows "runs_same sm n (wait_connected sm h w n)" "runs_same sm n (poll_read sm h m w n)"
    "runs_same sm n (poll_write sm h b w n)" "runs_same sm n (poll_shutdown sm h n)"
proof -
  note put = same_net_put[OF ok k]
  show "runs_same sm n (wait_connected sm h w n)" by (simp add: wait_connected_def k)
  show "runs_same sm n (poll_shutdown sm h n)" by (simp add: poll_shutdown_def k put sm_kinds[OF ok])
  obtain r k' where "tcp_recv sm m k = (r, k')" by fastforce
  with put sm_kinds(8)[OF ok this] show "runs_same sm n (poll_read sm h m w n)"
    by (simp add: poll_read_def k Let_def split: sum.split)
  obtain r k' where "tcp_send sm b k = (r, k')" by fastforce
  with put sm_kinds(9)[OF ok this] show "runs_same sm n (poll_write sm h b w n)"
    by (simp add: poll_write_def k split: sum.split)
qed

lemma udp_ops_same:
  assumes ok: "smoltcp_ok sm" and k: "sock sm Udp_Socket n h = Some k"
  shows "runs_same sm n (udp_recv_from sm h m w n)" "runs_same sm n (udp_send_to sm h b a w n)"
proof -
  note put = same_net_put[OF ok k]
  obtain r k' where "udp_recv sm m k = (r, k')" by fastforce
  with put sm_kinds(11)[OF ok this] show "runs_same sm n (udp_recv_from sm h m w n)"
    by (simp add: udp_recv_from_def k split: sum.split ip_addr.split prod.split)
  show "runs_same sm n (udp_send_to sm h b a w n)"
  proof (cases a)
    case (SockV6 ip p f sc)
    obtain r k' where "udp_send sm b (V6 ip, p) k = (r, k')" by fastforce
    with put sm_kinds(12)[OF ok this] SockV6 show ?thesis by (simp add: udp_send_to_def k split: sum.split)
  qed (simp add: udp_send_to_def)
qed

lemma icmp_ops_same:
  assumes ok: "smoltcp_ok sm" and k: "sock sm Icmp_Socket n h = Some k"
  shows "runs_same sm n (send_echo sm h ident dst q b w n)" "runs_same sm n (recv_reply sm h m w n)"
proof -
  note put = same_net_put[OF ok k]
  obtain r k' where "icmp_recv sm m k = (r, k')" by fastforce
  with put sm_kinds(14)[OF ok this] show "runs_same sm n (recv_reply sm h m w n)"
    by (simp add: recv_reply_def k split: sum.split ip_addr.split prod.split)
  obtain r k' where "icmp_send sm (echo_request sm ident q b (our_addr n) dst) (V6 dst) k = (r, k')" by fastforce
  with put sm_kinds(15)[OF ok this] show "runs_same sm n (send_echo sm h ident dst q b w n)"
    by (simp add: send_echo_def k split: sum.split)
qed

lemma flush_same: "runs_same sm n (Some (poll_flush n))"
  by (simp add: poll_flush_def)

text \<open>Operations that change what is owned, by kind of socket.\<close>

definition dials_ok :: "('i, 's) world \<Rightarrow> bool" where
  "dials_ok w \<longleftrightarrow> distinct (map d_handle (dials w)) \<and>
     (\<forall>d\<in>set (dials w). d_answer d \<noteq> None \<longrightarrow> d_handle d \<notin> pc_handle ` set (pending_connects (state (ns w))))"

lemma world_inv_alt:
  "world_inv sm w \<longleftrightarrow>
     owns sm Tcp_Socket (sockets (state (ns w))) (owned_tcp w) \<and>
     owns sm Udp_Socket (sockets (state (ns w))) (udps w) \<and> owns sm Icmp_Socket (sockets (state (ns w))) (pings w) \<and>
     (\<forall>h\<in>dial_handles w. kinds sm (sockets (state (ns w))) h = Some Tcp_Socket \<and> h \<notin> set (owned_tcp w)) \<and>
     dials_ok w"
  by (simp add: world_inv_def Let_def dials_ok_def)

lemma frame_owns_other:
  assumes "frame sm s X s' X'" and "owns sm kd s Y" and "\<forall>h\<in>set X. kinds sm s h = Some kd'" and "kd \<noteq> kd'"
  shows "owns sm kd s' Y"
proof -
  have "kinds sm s' h = Some kd" if "h \<in> set Y" for h
  proof -
    have k: "kinds sm s h = Some kd" using that assms(2) by (simp add: owns_def)
    then have "h \<notin> set X" using assms(3,4) by auto
    from frameD(2)[OF assms(1) k this] show ?thesis .
  qed
  then show ?thesis using assms(2) by (simp add: owns_def)
qed

lemma inv_tcp_frame:
  assumes inv: "world_inv sm w"
    and fr: "frame sm (sockets (state (ns w))) X (sockets (state (ns w'))) X'"
    and own: "owns sm Tcp_Socket (sockets (state (ns w'))) X'"
    and m: "mset (owned_tcp w) = mset (X @ Y)" "mset (owned_tcp w') = mset (X' @ Y)"
    and rest: "udps w' = udps w" "pings w' = pings w" "dial_handles w' \<subseteq> dial_handles w" "dials_ok w'"
  shows "world_inv sm w'"
proof -
  let ?s = "sockets (state (ns w))" and ?s' = "sockets (state (ns w'))"
  have own0: "owns sm Tcp_Socket ?s (X @ Y)"    by (rule owns_mset[OF _ m(1)]) (use inv in \<open>simp add: world_inv_alt\<close>)
  then have X: "\<forall>h\<in>set X. kinds sm ?s h = Some Tcp_Socket" by (simp add: owns_def)
  have "owns sm Tcp_Socket ?s' (owned_tcp w')"
    by (rule owns_mset[OF owns_frame[OF own0 fr own] m(2)[symmetric]])
  moreover have "kinds sm ?s' h = Some Tcp_Socket \<and> h \<notin> set (owned_tcp w')" if "h \<in> dial_handles w'" for h
  proof -
    have h: "kinds sm ?s h = Some Tcp_Socket" "h \<notin> set (X @ Y)"
      using that inv rest(3) mset_eq_setD[OF m(1)] unfolding world_inv_alt by auto
    then have "h \<notin> set X'" "kinds sm ?s' h = Some Tcp_Socket" using frameD[OF fr h(1)] by simp_all
    with h show ?thesis using mset_eq_setD[OF m(2)] by auto
  qed
  moreover have "owns sm Udp_Socket ?s' (udps w')" "owns sm Icmp_Socket ?s' (pings w')"
    using frame_owns_other[OF fr _ X] inv rest(1,2) unfolding world_inv_alt by auto
  ultimately show ?thesis using rest(4) unfolding world_inv_alt by blast
qed

lemma inv_other_frame:
  assumes inv: "world_inv sm w" and kd: "kd = Udp_Socket \<or> kd = Icmp_Socket"
    and fr: "frame sm (sockets (state (ns w))) X (sockets (state (ns w'))) X'"
    and X: "\<forall>h\<in>set X. kinds sm (sockets (state (ns w))) h = Some kd"
    and own: "owns sm kd (sockets (state (ns w'))) (if kd = Udp_Socket then udps w' else pings w')"
    and rest: "kd = Udp_Socket \<Longrightarrow> pings w' = pings w" "kd = Icmp_Socket \<Longrightarrow> udps w' = udps w"
      "streams w' = streams w" "dials w' = dials w" "net_tcp (state (ns w')) = net_tcp (state (ns w))"
      "pending_connects (state (ns w')) = pending_connects (state (ns w))"
  shows "world_inv sm w'"
proof -
  let ?s = "sockets (state (ns w))" and ?s' = "sockets (state (ns w'))"
  have eq: "owned_tcp w' = owned_tcp w" "dial_handles w' = dial_handles w" "dials_ok w' = dials_ok w"
    using rest by (simp_all add: owned_tcp_def dial_handles_def dials_ok_def)
  have "kinds sm ?s' h = Some Tcp_Socket" if "kinds sm ?s h = Some Tcp_Socket" for h
  proof -
    have "h \<notin> set X" using that X kd by auto
    from frameD(2)[OF fr that this] show ?thesis .
  qed
  moreover have "owns sm kd' ?s' Y" if "owns sm kd' ?s Y" "kd' \<noteq> kd" for kd' Y
    using frame_owns_other[OF fr that(1) X that(2)] .
  ultimately show ?thesis using inv own rest kd unfolding world_inv_alt eq by auto
qed

section \<open>Every operation keeps the invariant\<close>

lemma enqueue_packets_device: "\<exists>fr' d. enqueue_packets xs fr st = (fr', st\<lparr>device := d\<rparr>)"
proof (induction xs fr st rule: enqueue_packets.induct)
  case (1 fr st)
  show ?case by (rule exI[of _ fr], rule exI[of _ "device st"]) simp
next
  case (2 now created_at pkt xs fr st)
  then show ?case by (cases "feed now created_at pkt fr"; cases "snd (feed now created_at pkt fr)") fastforce+
qed

lemma answer_handle [simp]: "d_handle (answer rs d) = d_handle d"
  by (simp add: answer_def split: option.split)

lemma cycle_inv:
  assumes ok: "smoltcp_ok sm" and inv: "world_inv sm w"
  shows "\<exists>w'. exec sm (Cycle trig pkts t1 t2 t3) w = Some w' \<and> world_inv sm w'"
proof -
  let ?st = "state (ns w)"
  define arrived where "arrived = (case trig of Packet a \<Rightarrow> [a] | _ \<Rightarrow> []) @ pkts"
  from enqueue_packets_device obtain fr d where
    e: "enqueue_packets arrived (reassembler w) ?st = (fr, ?st\<lparr>device := d\<rparr>)" by blast
  have "\<forall>c\<in>set (pending_connects ?st). kinds sm (sockets ?st) (pc_handle c) = Some Tcp_Socket"
    using inv by (auto simp: world_inv_alt dial_handles_def)
  with process_connects_ok[OF ok, of "?st\<lparr>device := d\<rparr>"] obtain rs i s where
    p: "process_connects sm (?st\<lparr>device := d\<rparr>) = Some (rs, ?st\<lparr>device := d, pending_connects := [], iface := i, sockets := s\<rparr>)"
    and ks: "kinds sm s = kinds sm (sockets ?st)" by auto
  let ?st2 = "?st\<lparr>device := d, pending_connects := [], iface := i, sockets := s\<rparr>"
  have own: "owns sm Tcp_Socket (sockets ?st) (net_tcp ?st @ streams w)"
    using inv by (simp add: world_inv_alt owned_tcp_def)
  have "net_tcp ?st2 = net_tcp ?st" by (simp add: net_tcp_def)
  moreover have "owns sm Tcp_Socket (sockets ?st) (net_tcp ?st)" using own unfolding owns_append by blast
  ultimately have "owns sm Tcp_Socket (sockets ?st2) (net_tcp ?st2)" using owns_kinds[OF ks] by simp
  from run_poll_owns[OF ok this, of t1 t2 t3] obtain tx ws woken st3 where
    r: "run_poll sm t1 t2 t3 ?st2 = Some (tx, ws, woken, st3)" "owns sm Tcp_Socket (sockets st3) (net_tcp st3)"
    "frame sm s (net_tcp ?st2) (sockets st3) (net_tcp st3)" "pending_connects st3 = []" by auto
  let ?n = "(ns w)\<lparr>state := st3, poll_wakeup := (if trig = Notified then False else poll_wakeup (ns w))\<rparr>"
  let ?w = "w\<lparr>ns := ?n, reassembler := fr, dials := map (answer rs) (dials w)\<rparr>"
  have fr: "frame sm (sockets ?st) (net_tcp ?st) (sockets st3) (net_tcp st3)"
    by (rule frame_trans[OF frame_kinds[OF ks] r(3)]) (simp add: net_tcp_def)
  have "world_inv sm ?w"
  proof (rule inv_tcp_frame[OF inv, of "net_tcp ?st" _ "net_tcp st3" "streams w"])
    show "dial_handles ?w \<subseteq> dial_handles w" using r(4) by (auto simp: dial_handles_def)
    show "dials_ok ?w" using inv r(4) by (auto simp: dials_ok_def world_inv_alt comp_def)
  qed (use fr r(2) in \<open>simp_all add: owned_tcp_def\<close>)
  moreover have "exec sm (Cycle trig pkts t1 t2 t3) w = Some ?w"
    by (simp add: net_cycle_def Let_def arrived_def[symmetric] e p r(1))
  ultimately show ?thesis by blast
qed

lemma dial_inv:
  assumes ok: "smoltcp_ok sm" and inv: "world_inv sm w"
  shows "\<exists>w'. exec sm (Dial ckr remote rnd) w = Some w' \<and> world_inv sm w'"
proof (cases "remote_endpoint ckr remote")
  case (Inl e)
  with inv show ?thesis by (simp add: dial_begin_def)
next
  case (Inr ep)
  let ?s = "sockets (state (ns w))"
  obtain h s' where a: "ss_add sm (tcp_new sm 65536 65536) ?s = (h, s')" by fastforce
  note ka = kinds_add[OF ok a]
  have new: "kinds sm ?s h = None" and ks: "kinds sm s' = (kinds sm ?s)(h \<mapsto> Tcp_Socket)"
    using ka sm_kinds(1)[OF ok] by auto
  define w' where "w' = the (exec sm (Dial ckr remote rnd) w)"
  have ex: "exec sm (Dial ckr remote rnd) w = Some w'"
    by (simp add: w'_def dial_begin_def Inr new_tcp_socket_def a)
  have w': "sockets (state (ns w')) = s'" "net_tcp (state (ns w')) = net_tcp (state (ns w))"
    "streams w' = streams w" "udps w' = udps w" "pings w' = pings w"
    "dials w' = dials w @ [\<lparr>d_handle = h, d_tx = next_tx w, d_answer = None\<rparr>]"
    "pc_handle ` set (pending_connects (state (ns w'))) = insert h (pc_handle ` set (pending_connects (state (ns w))))"
    by (simp_all add: w'_def dial_begin_def Inr new_tcp_socket_def a notify_one_def net_tcp_def)
  have old: "x \<noteq> h" if "kinds sm ?s x = Some kd" for x kd using that new by auto
  have "owns sm kd s' X" if "owns sm kd ?s X" for kd X using that old by (auto simp: owns_def ks)
  moreover have "h \<notin> set (owned_tcp w)" "h \<notin> dial_handles w"
    using inv old by (fastforce simp: world_inv_alt owns_def)+
  moreover have "dial_handles w' = insert h (dial_handles w)" "owned_tcp w' = owned_tcp w"
    using w' by (auto simp: dial_handles_def owned_tcp_def)
  ultimately have "world_inv sm w'" using inv w' old
    by (auto simp: world_inv_alt dials_ok_def ks dial_handles_def)
  with ex show ?thesis by blast
qed

lemma find_handle:
  "h \<in> set (map d_handle ds) \<Longrightarrow> \<exists>d\<in>set ds. List.find (\<lambda>d. d_handle d = h) ds = Some d \<and> d_handle d = h"
  by (induction ds) auto

lemma filter_dials:
  "distinct (map d_handle ds) \<Longrightarrow> distinct (map d_handle (filter P ds))"
  "d_handle ` set (filter (\<lambda>d. d_handle d \<noteq> h) ds) = d_handle ` set ds - {h}"
  by (auto intro: distinct_map_filter)

lemma dial_received_inv:
  assumes inv: "world_inv sm w" and en: "enabled (Dial_Received h) w"
  shows "\<exists>w'. exec sm (Dial_Received h) w = Some w' \<and> world_inv sm w'"
proof -
  have "h \<in> set (map d_handle (dials w))" using en by (auto simp: list_ex_iff)
  from find_handle[OF this] obtain d where d: "List.find (\<lambda>d. d_handle d = h) (dials w) = Some d"
    "d \<in> set (dials w)" "d_handle d = h" by blast
  let ?w = "w\<lparr>dials := filter (\<lambda>d. d_handle d \<noteq> h) (dials w)\<rparr>"
  have ok: "dials_ok ?w" using inv by (auto simp: world_inv_alt dials_ok_def intro: distinct_map_filter)
  have inv1: "world_inv sm ?w"
    using inv ok by (auto simp: world_inv_alt dial_handles_def owned_tcp_def)
  show ?thesis
  proof (cases "dial_received (d_answer d)")
    case (Inl e)
    then show ?thesis using d inv1 by (simp add: Let_def)
  next
    case (Inr u)
    then have "d_answer d \<noteq> None" by (auto simp: dial_received_def split: option.splits)
    then have pc: "h \<notin> pc_handle ` set (pending_connects (state (ns w)))"
      using inv d(2,3) by (auto simp: world_inv_alt dials_ok_def)
    have "h \<in> dial_handles w" using d by (auto simp: dial_handles_def)
    then have h: "kinds sm (sockets (state (ns w))) h = Some Tcp_Socket" "h \<notin> set (owned_tcp w)"
      using inv by (auto simp: world_inv_alt)
    have "world_inv sm (?w\<lparr>streams := streams w @ [h]\<rparr>)"
      using inv inv1 h pc
      by (auto simp: world_inv_alt owned_tcp_def dial_handles_def dials_ok_def owns_def)
    then show ?thesis using d Inr by (simp add: Let_def)
  qed
qed

lemma dial_cancelled_inv:
  assumes "world_inv sm w"
  shows "\<exists>w'. exec sm (Dial_Cancelled h) w = Some w' \<and> world_inv sm w'"
  using assms by (auto simp: world_inv_alt dials_ok_def dial_handles_def owned_tcp_def intro: distinct_map_filter)

lemma drop_stream_inv:
  assumes ok: "smoltcp_ok sm" and inv: "world_inv sm w" and h: "h \<in> set (streams w)"
  shows "\<exists>w'. exec sm (Drop_Stream h t) w = Some w' \<and> world_inv sm w'"
proof -
  have "owns sm Tcp_Socket (sockets (state (ns w))) (owned_tcp w)" using inv by (simp add: world_inv_alt)
  from owns_get[OF this, of h] h obtain k where k: "sock sm Tcp_Socket (ns w) h = Some k"
    by (auto simp: owned_tcp_def)
  define w' where "w' = the (exec sm (Drop_Stream h t) w)"
  have ex: "exec sm (Drop_Stream h t) w = Some w'" by (simp add: w'_def drop_stream_def k)
  have ks: "kinds sm (sockets (state (ns w'))) = kinds sm (sockets (state (ns w)))"
    using kinds_put[OF ok k] sm_kinds(6)[OF ok]
    by (simp add: w'_def drop_stream_def k notify_one_def upd_state_def put_sock_def)
  have m: "mset (owned_tcp w') = mset (owned_tcp w)"
    using h by (simp add: w'_def drop_stream_def k notify_one_def upd_state_def put_sock_def owned_tcp_def net_tcp_def)
  have w': "udps w' = udps w" "pings w' = pings w" "dial_handles w' = dial_handles w" "dials_ok w' = dials_ok w"
    by (simp_all add: w'_def drop_stream_def k notify_one_def upd_state_def put_sock_def dial_handles_def dials_ok_def)
  have "world_inv sm w'"
    using inv_tcp_frame[OF inv frame_kinds[OF ks], of "[]" "[]" "owned_tcp w"] m w' inv
    by (simp add: owns_def world_inv_alt)
  with ex show ?thesis by blast
qed

lemma listen_more_owns:
  assumes ok: "smoltcp_ok sm" and own: "owns sm Tcp_Socket s X"
  shows "\<exists>p s'. listen_more sm ep n s = (p, s') \<and> owns sm Tcp_Socket s' (X @ map fst p) \<and>
    frame sm s X s' (X @ map fst p)"
  using own
proof (induction n arbitrary: s X)
  case (Suc n)
  let ?k = "snd (tcp_listen sm ep (tcp_new sm 65536 65536))"
  obtain h s1 where a: "ss_add sm ?k s = (h, s1)" by fastforce
  obtain r k where "tcp_listen sm ep (tcp_new sm 65536 65536) = (r, k)" by fastforce
  then have kd: "sk_kind sm ?k = Tcp_Socket" using sm_kinds(1,4)[OF ok] by simp
  from Suc.IH[OF owns_add(2)[OF ok a kd Suc.prems]] obtain p s' where
    "listen_more sm ep n s1 = (p, s')" "owns sm Tcp_Socket s' ((X @ [h]) @ map fst p)"
    "frame sm s1 (X @ [h]) s' ((X @ [h]) @ map fst p)" by blast
  moreover from this(3) have "frame sm s X s' ((X @ [h]) @ map fst p)"
    by (rule frame_trans[OF frame_add(2)[OF ok a]])
  ultimately show ?case using a by (simp add: new_listen_socket_def)
qed (simp add: frame_refl)

lemma listen_inv:
  assumes ok: "smoltcp_ok sm" and inv: "world_inv sm w"
  shows "\<exists>w'. exec sm (Listen_Tcp port) w = Some w' \<and> world_inv sm w'"
proof -
  let ?s = "sockets (state (ns w))" and ?ep = "\<lparr>ep_addr = Some (V6 (our_addr (ns w))), ep_port = port\<rparr>"
  let ?k = "tcp_new sm 65536 65536"
  obtain h s1 where a: "ss_add sm ?k ?s = (h, s1)" by fastforce
  obtain r k' where l: "tcp_listen sm ?ep ?k = (r, k')" by fastforce
  have g: "get_sock sm Tcp_Socket s1 h = Some ?k"
    using sm_add(2)[OF ok a, of h] sm_kinds(1)[OF ok] by (simp add: get_sock_def)
  define s2 where "s2 = ss_put sm h k' s1"
  have k2: "kinds sm s2 = kinds sm s1" unfolding s2_def by (rule kinds_put[OF ok g sm_kinds(4)[OF ok l]])
  have own2: "owns sm Tcp_Socket s2 [h]" and fr2: "frame sm ?s [] s2 [h]"
    using owns_add(1)[OF ok a sm_kinds(1)[OF ok], of "[]"] frame_add(1)[OF ok a, of "[]"]
    by (simp_all add: owns_def frame_def k2)
  show ?thesis
  proof (cases r)
    case (Inl e)
    let ?w = "w\<lparr>ns := (ns w)\<lparr>state := (state (ns w))\<lparr>sockets := s2\<rparr>\<rparr>\<rparr>"
    have "frame sm ?s [] s2 []" using fr2 by (simp add: frame_def)
    with inv have "world_inv sm ?w"
      by (intro inv_tcp_frame[OF inv, of "[]" _ "[]" "owned_tcp w"])
        (simp_all add: owns_def owned_tcp_def net_tcp_def dial_handles_def world_inv_alt dials_ok_def)
    moreover have "exec sm (Listen_Tcp port) w = Some ?w"
      by (simp add: listen_tcp_def new_tcp_socket_def a g l Inl Let_def on_ns_def s2_def)
    ultimately show ?thesis by blast
  next
    case (Inr u)
    from listen_more_owns[OF ok own2, of ?ep "LISTEN_POOL - 1"] obtain p s3 where
      p: "listen_more sm ?ep (LISTEN_POOL - 1) s2 = (p, s3)" "owns sm Tcp_Socket s3 (h # map fst p)"
      "frame sm s2 [h] s3 (h # map fst p)" by auto
    let ?e = "\<lparr>listen_ep = ?ep, listen_pool = (h, None) # p, accept_queue = [], accept_wakers = []\<rparr>"
    let ?w = "w\<lparr>ns := (ns w)\<lparr>state := (state (ns w))\<lparr>sockets := s3, listeners := listeners (state (ns w)) @ [?e]\<rparr>\<rparr>\<rparr>"
    have "world_inv sm ?w"
      using p(2) frame_trans[OF fr2 p(3)] inv
      by (intro inv_tcp_frame[OF inv, of "[]" _ "h # map fst p" "owned_tcp w"])
        (simp_all add: owned_tcp_def net_tcp_def dial_handles_def world_inv_alt dials_ok_def entry_handles_def)
    moreover have "exec sm (Listen_Tcp port) w = Some ?w"
      using p(1) by (simp add: listen_tcp_def new_tcp_socket_def a g l Inr Let_def on_ns_def s2_def)
    ultimately show ?thesis by blast
  qed
qed

lemma accept_in_handles:
  "accept_in port k es = (r, es') \<Longrightarrow>
   mset (concat (map entry_handles es)) =
     mset ((case r of Ready h \<Rightarrow> [h] | Pending \<Rightarrow> []) @ concat (map entry_handles es'))"
  by (induction es arbitrary: r es')
    (auto simp: entry_handles_def split: if_splits list.splits prod.splits poll.splits)

lemma accept_inv:
  assumes inv: "world_inv sm w"
  shows "\<exists>w'. exec sm (Accept port k) w = Some w' \<and> world_inv sm w'"
proof -
  obtain r es where a: "accept_in port k (listeners (state (ns w))) = (r, es)" by fastforce
  note m = accept_in_handles[OF a]
  define w' where "w' = the (exec sm (Accept port k) w)"
  have ex: "exec sm (Accept port k) w = Some w'" by (simp add: w'_def tcp_accept_def a split: poll.split)
  have ks: "kinds sm (sockets (state (ns w'))) = kinds sm (sockets (state (ns w)))"
    by (simp add: w'_def tcp_accept_def a upd_state_def split: poll.split)
  have "mset (owned_tcp w') = mset (owned_tcp w)"
    using m by (simp add: w'_def tcp_accept_def a upd_state_def owned_tcp_def net_tcp_def split: poll.split_asm poll.split)
  moreover have "udps w' = udps w" "pings w' = pings w" "dial_handles w' = dial_handles w" "dials_ok w' = dials_ok w"
    by (simp_all add: w'_def tcp_accept_def a upd_state_def dial_handles_def dials_ok_def split: poll.split)
  ultimately have "world_inv sm w'"
    using inv_tcp_frame[OF inv frame_kinds[OF ks], of "[]" "[]" "owned_tcp w"] inv
    by (simp add: owns_def world_inv_alt)
  with ex show ?thesis by blast
qed

lemma bind_new_udp_spec:
  assumes ok: "smoltcp_ok sm" and own: "owns sm Udp_Socket (sockets (state n)) X"
  shows "\<exists>r s. bind_new_udp sm ep n = Some (r, n\<lparr>state := (state n)\<lparr>sockets := s\<rparr>\<rparr>) \<and>
    (case r of Inr h \<Rightarrow> owns sm Udp_Socket s (X @ [h]) | Inl _ \<Rightarrow> owns sm Udp_Socket s X) \<and>
    frame sm (sockets (state n)) [] s []"
proof -
  let ?k = "udp_new sm 64 65536"
  obtain h s1 where a: "ss_add sm ?k (sockets (state n)) = (h, s1)" by fastforce
  obtain r k' where b: "udp_bind sm ep ?k = (r, k')" by fastforce
  have g: "get_sock sm Udp_Socket s1 h = Some ?k"
    using sm_add(2)[OF ok a, of h] sm_kinds(2)[OF ok] by (simp add: get_sock_def)
  have k2: "kinds sm (ss_put sm h k' s1) = kinds sm s1" by (rule kinds_put[OF ok g sm_kinds(10)[OF ok b]])
  have "owns sm Udp_Socket (ss_put sm h k' s1) (X @ [h])" "frame sm (sockets (state n)) [] (ss_put sm h k' s1) []"
    using owns_add(2)[OF ok a sm_kinds(2)[OF ok] own] frame_add(1)[OF ok a, of "[]"]
    by (simp_all add: owns_def frame_def k2)
  then show ?thesis using a g b
    by (auto simp: bind_new_udp_def new_udp_socket_def owns_append split: sum.split)
qed

lemma open_icmp_spec:
  assumes ok: "smoltcp_ok sm" and own: "owns sm Icmp_Socket (sockets (state n)) X"
  shows "\<exists>r n'. open_icmp sm ident n = Some (r, n') \<and>
    (case r of Inr h \<Rightarrow> owns sm Icmp_Socket (sockets (state n')) (X @ [h]) | Inl _ \<Rightarrow> owns sm Icmp_Socket (sockets (state n')) X) \<and>
    frame sm (sockets (state n)) [] (sockets (state n')) [] \<and> net_tcp (state n') = net_tcp (state n) \<and>
    pending_connects (state n') = pending_connects (state n)"
proof -
  let ?k = "icmp_new sm 8 2048"
  obtain h s1 where a: "ss_add sm ?k (sockets (state n)) = (h, s1)" by fastforce
  obtain r k' where b: "icmp_bind sm ident ?k = (r, k')" by fastforce
  have g: "get_sock sm Icmp_Socket s1 h = Some ?k"
    using sm_add(2)[OF ok a, of h] sm_kinds(3)[OF ok] by (simp add: get_sock_def)
  have k2: "kinds sm (ss_put sm h k' s1) = kinds sm s1" by (rule kinds_put[OF ok g sm_kinds(13)[OF ok b]])
  have "owns sm Icmp_Socket (ss_put sm h k' s1) (X @ [h])" "frame sm (sockets (state n)) [] (ss_put sm h k' s1) []"
    using owns_add(2)[OF ok a sm_kinds(3)[OF ok] own] frame_add(1)[OF ok a, of "[]"]
    by (simp_all add: owns_def frame_def k2)
  then show ?thesis using a g b
    by (auto simp: open_icmp_def upd_state_def notify_one_def net_tcp_def owns_append Let_def split: sum.split)
qed

lemma bind_udp_inv:
  assumes ok: "smoltcp_ok sm" and inv: "world_inv sm w"
  shows "\<exists>w'. map_option (\<lambda>(r, n). case r of Inr h \<Rightarrow> w\<lparr>ns := n, udps := udps w @ [h]\<rparr> | Inl _ \<Rightarrow> w\<lparr>ns := n\<rparr>)
      (bind_new_udp sm ep (ns w)) = Some w' \<and> world_inv sm w'"
proof -
  have "owns sm Udp_Socket (sockets (state (ns w))) (udps w)" using inv by (simp add: world_inv_alt)
  from bind_new_udp_spec[OF ok this, of ep] obtain r s where
    b: "bind_new_udp sm ep (ns w) = Some (r, (ns w)\<lparr>state := (state (ns w))\<lparr>sockets := s\<rparr>\<rparr>)" and
    o: "case r of Inr h \<Rightarrow> owns sm Udp_Socket s (udps w @ [h]) | Inl _ \<Rightarrow> owns sm Udp_Socket s (udps w)" and
    f: "frame sm (sockets (state (ns w))) [] s []" by blast
  define w' where "w' = (case r of Inr h \<Rightarrow> w\<lparr>ns := (ns w)\<lparr>state := (state (ns w))\<lparr>sockets := s\<rparr>\<rparr>, udps := udps w @ [h]\<rparr>
    | Inl _ \<Rightarrow> w\<lparr>ns := (ns w)\<lparr>state := (state (ns w))\<lparr>sockets := s\<rparr>\<rparr>\<rparr>)"
  have "world_inv sm w'"
    using o f by (intro inv_other_frame[OF inv, of Udp_Socket "[]" w' "[]"])
      (auto simp: w'_def net_tcp_def split: sum.splits)
  then show ?thesis using b by (auto simp: w'_def split: sum.splits)
qed

lemma open_icmp_inv:
  assumes ok: "smoltcp_ok sm" and inv: "world_inv sm w"
  shows "\<exists>w'. exec sm (Open_Icmp ident) w = Some w' \<and> world_inv sm w'"
proof -
  have "owns sm Icmp_Socket (sockets (state (ns w))) (pings w)" using inv by (simp add: world_inv_alt)
  from open_icmp_spec[OF ok this, of ident] obtain r n where
    b: "open_icmp sm ident (ns w) = Some (r, n)" and
    o: "case r of Inr h \<Rightarrow> owns sm Icmp_Socket (sockets (state n)) (pings w @ [h])
        | Inl _ \<Rightarrow> owns sm Icmp_Socket (sockets (state n)) (pings w)" and
    f: "frame sm (sockets (state (ns w))) [] (sockets (state n)) []" "net_tcp (state n) = net_tcp (state (ns w))"
      "pending_connects (state n) = pending_connects (state (ns w))" by blast
  define w' where "w' = (case r of Inr h \<Rightarrow> w\<lparr>ns := n, pings := pings w @ [h]\<rparr> | Inl _ \<Rightarrow> w\<lparr>ns := n\<rparr>)"
  have "world_inv sm w'"
    using o f by (intro inv_other_frame[OF inv, of Icmp_Socket "[]" w' "[]"]) (auto simp: w'_def split: sum.splits)
  then show ?thesis using b by (auto simp: w'_def split: sum.splits)
qed

lemma drop_socket_spec:
  assumes ok: "smoltcp_ok sm" and own: "owns sm kd (sockets (state n)) X" and h: "h \<in> set X"
  shows "\<exists>s. drop_socket sm h n = Some (n\<lparr>state := (state n)\<lparr>sockets := s\<rparr>\<rparr>) \<and>
    owns sm kd s (remove1 h X) \<and> frame sm (sockets (state n)) [h] s []"
proof -
  let ?s = "sockets (state n)"
  have "ss_get sm ?s h \<noteq> None" using own h by (auto simp: owns_def kinds_def)
  then have "drop_socket sm h n = Some (n\<lparr>state := (state n)\<lparr>sockets := ss_remove sm h ?s\<rparr>\<rparr>)"
    by (auto simp: drop_socket_def remove_sock_def upd_state_def)
  moreover have "owns sm kd ?s (h # remove1 h X)" using h by (intro owns_mset[OF own]) simp
  ultimately show ?thesis using owns_remove[OF ok] frame_remove[OF ok, of ?s h "[]"] by blast
qed

lemma drop_udp_inv:
  assumes ok: "smoltcp_ok sm" and inv: "world_inv sm w" and h: "h \<in> set (udps w)"
  shows "\<exists>w'. exec sm (Drop_Udp h) w = Some w' \<and> world_inv sm w'"
proof -
  have own: "owns sm Udp_Socket (sockets (state (ns w))) (udps w)" using inv by (simp add: world_inv_alt)
  from drop_socket_spec[OF ok this h] obtain s where
    d: "drop_socket sm h (ns w) = Some ((ns w)\<lparr>state := (state (ns w))\<lparr>sockets := s\<rparr>\<rparr>)"
    "owns sm Udp_Socket s (remove1 h (udps w))" "frame sm (sockets (state (ns w))) [h] s []" by blast
  have k: "\<forall>x\<in>set [h]. kinds sm (sockets (state (ns w))) x = Some Udp_Socket" using own h by (simp add: owns_def)
  have "world_inv sm (w\<lparr>ns := (ns w)\<lparr>state := (state (ns w))\<lparr>sockets := s\<rparr>\<rparr>, udps := remove1 h (udps w)\<rparr>)"
    by (rule inv_other_frame[OF inv, of Udp_Socket "[h]" _ "[]"]) (use d k in \<open>simp_all add: net_tcp_def\<close>)
  then show ?thesis using d(1) by simp
qed

lemma drop_icmp_inv:
  assumes ok: "smoltcp_ok sm" and inv: "world_inv sm w" and h: "h \<in> set (pings w)"
  shows "\<exists>w'. exec sm (Drop_Icmp h) w = Some w' \<and> world_inv sm w'"
proof -
  have own: "owns sm Icmp_Socket (sockets (state (ns w))) (pings w)" using inv by (simp add: world_inv_alt)
  from drop_socket_spec[OF ok this h] obtain s where
    d: "drop_socket sm h (ns w) = Some ((ns w)\<lparr>state := (state (ns w))\<lparr>sockets := s\<rparr>\<rparr>)"
    "owns sm Icmp_Socket s (remove1 h (pings w))" "frame sm (sockets (state (ns w))) [h] s []" by blast
  have k: "\<forall>x\<in>set [h]. kinds sm (sockets (state (ns w))) x = Some Icmp_Socket" using own h by (simp add: owns_def)
  have "world_inv sm (w\<lparr>ns := (ns w)\<lparr>state := (state (ns w))\<lparr>sockets := s\<rparr>\<rparr>, pings := remove1 h (pings w)\<rparr>)"
    by (rule inv_other_frame[OF inv, of Icmp_Socket "[h]" _ "[]"]) (use d k in \<open>simp_all add: net_tcp_def\<close>)
  then show ?thesis using d(1) by simp
qed

lemma abort_tcp_ok:
  assumes "smoltcp_ok sm" and "\<forall>h\<in>set hs. kinds sm s h = Some Tcp_Socket"
  shows "\<exists>s'. abort_tcp sm hs s = Some s' \<and> kinds sm s' = kinds sm s"
  using assms(2)
proof (induction hs arbitrary: s)
  case (Cons h hs)
  obtain k where k: "get_sock sm Tcp_Socket s h = Some k" using Cons.prems get_sock_kinds by fastforce
  have ks: "kinds sm (ss_put sm h (tcp_abort sm k) s) = kinds sm s"
    by (rule kinds_put[OF assms(1) k sm_kinds(7)[OF assms(1)]])
  have "\<forall>x\<in>set hs. kinds sm (ss_put sm h (tcp_abort sm k) s) x = Some Tcp_Socket" using Cons.prems ks by simp
  from Cons.IH[OF this] k ks show ?case by simp
qed simp

lemma tcp_handles_kinds: "h \<in> set (tcp_handles sm s) \<Longrightarrow> kinds sm s h = Some Tcp_Socket"
  by (auto simp: tcp_handles_def kinds_def split: option.splits)

lemma shutdown_inv:
  assumes ok: "smoltcp_ok sm" and inv: "world_inv sm w"
  shows "\<exists>w'. exec sm Shutdown w = Some w' \<and> world_inv sm w'"
proof -
  let ?s = "sockets (state (ns w))"
  from abort_tcp_ok[OF ok, of "tcp_handles sm ?s" ?s] tcp_handles_kinds[of _ sm ?s] obtain s' where
    a: "abort_tcp sm (tcp_handles sm ?s) ?s = Some s'" "kinds sm s' = kinds sm ?s" by blast
  define w' where "w' = the (exec sm Shutdown w)"
  have ex: "exec sm Shutdown w = Some w'" by (simp add: w'_def netstack_shutdown_def Let_def a on_ns_def)
  have w': "sockets (state (ns w')) = s'" "net_tcp (state (ns w')) = []" "pending_connects (state (ns w')) = []"
    "streams w' = streams w" "dials w' = dials w" "udps w' = udps w" "pings w' = pings w"
    by (simp_all add: w'_def netstack_shutdown_def Let_def a on_ns_def notify_one_def net_tcp_def)
  have "world_inv sm w'"
    by (rule inv_tcp_frame[OF inv, of "net_tcp (state (ns w))" _ "[]" "streams w"])
      (use a(2) inv in \<open>auto simp: w' owned_tcp_def dial_handles_def dials_ok_def owns_def world_inv_alt intro!: frame_kinds\<close>)
  with ex show ?thesis by blast
qed

lemma exec_inv:
  assumes ok: "smoltcp_ok sm" and inv: "world_inv sm w" and en: "enabled op w"
  shows "\<exists>w'. exec sm op w = Some w' \<and> world_inv sm w'"
proof -
  have s: "\<exists>k. sock sm Tcp_Socket (ns w) h = Some k" if "h \<in> set (streams w)" for h
    using inv that by (auto simp: world_inv_alt owned_tcp_def intro: owns_get)
  have u: "\<exists>k. sock sm Udp_Socket (ns w) h = Some k" if "h \<in> set (udps w)" for h
    using inv that by (auto simp: world_inv_alt intro: owns_get)
  have i: "\<exists>k. sock sm Icmp_Socket (ns w) h = Some k" if "h \<in> set (pings w)" for h
    using inv that by (auto simp: world_inv_alt intro: owns_get)
  note on = runs_same_on_ns[OF inv]
  show ?thesis
  proof (cases op)
    case Cycle then show ?thesis using cycle_inv[OF ok inv] by simp
  next case Dial then show ?thesis using dial_inv[OF ok inv] by simp
  next case Dial_Received then show ?thesis using dial_received_inv[OF inv] en by simp
  next case Dial_Cancelled then show ?thesis using dial_cancelled_inv[OF inv] by simp
  next case (Wait_Connected h k) then show ?thesis using s[of h] en on stream_ops_same(1)[OF ok] by fastforce
  next case Drop_Stream then show ?thesis using drop_stream_inv[OF ok inv] en by simp
  next case (Read h n k) then show ?thesis using s[of h] en on stream_ops_same(2)[OF ok] by fastforce
  next case (Write h b k) then show ?thesis using s[of h] en on stream_ops_same(3)[OF ok] by fastforce
  next case Flush then show ?thesis using on[OF flush_same] by simp
  next case (Shutdown_Write h) then show ?thesis using s[of h] en on stream_ops_same(4)[OF ok] by fastforce
  next case Listen_Tcp then show ?thesis using listen_inv[OF ok inv] by simp
  next case Accept then show ?thesis using accept_inv[OF inv] by simp
  next case Bind_Udp then show ?thesis using bind_udp_inv[OF ok inv] by (simp add: bind_udp_def)
  next case Open_Udp then show ?thesis using bind_udp_inv[OF ok inv] by (simp add: open_udp_def)
  next case (Udp_Recv h n k) then show ?thesis using u[of h] en on udp_ops_same(1)[OF ok] by fastforce
  next case (Udp_Send h b a k) then show ?thesis using u[of h] en on udp_ops_same(2)[OF ok] by fastforce
  next case Drop_Udp then show ?thesis using drop_udp_inv[OF ok inv] en by simp
  next case Open_Icmp then show ?thesis using open_icmp_inv[OF ok inv] by simp
  next case (Echo h id d q b k) then show ?thesis using i[of h] en on icmp_ops_same(1)[OF ok] by fastforce
  next case (Recv_Reply h n k) then show ?thesis using i[of h] en on icmp_ops_same(2)[OF ok] by fastforce
  next case Drop_Icmp then show ?thesis using drop_icmp_inv[OF ok inv] en by simp
  next case Shutdown then show ?thesis using shutdown_inv[OF ok inv] by simp
  qed
qed

lemma run_ops_inv:
  "smoltcp_ok sm \<Longrightarrow> world_inv sm w \<Longrightarrow> \<exists>w'. run_ops sm ops w = Some w' \<and> world_inv sm w'"
proof (induction ops arbitrary: w)
  case (Cons op ops)
  then show ?case using exec_inv[of sm w op] by (cases "enabled op w") fastforce+
qed simp

lemma new_world_inv: "smoltcp_ok sm \<Longrightarrow> world_inv sm (new_world (netstack_new sm i addr m))"
  by (simp add: world_inv_alt new_world_def netstack_new_def Let_def owned_tcp_def net_tcp_def dial_handles_def
      dials_ok_def owns_def)

section \<open>Properties\<close>

text \<open>C5. Whatever the tasks of a node do, in whatever order (dials,
  cancelled dials, accepts, reads, writes, drops, UDP and ICMP sockets, poll cycles on any packets,
  shutdown), no operation uses a socket handle that names no socket or one of another kind, so
  \<open>SocketSet::get\<close> and \<open>remove\<close> never panic and the poll loop always returns; and every handle has
  one owner.\<close>

theorem netstack_never_panics:
  assumes "smoltcp_ok sm"
  shows "\<exists>w. run_ops sm ops (new_world (netstack_new sm i addr m)) = Some w \<and>
    distinct (owned_tcp w @ udps w @ pings w)"
proof -
  from run_ops_inv[OF assms new_world_inv[OF assms]] obtain w where
    w: "run_ops sm ops (new_world (netstack_new sm i addr m)) = Some w" "world_inv sm w" by blast
  then have o: "owns sm Tcp_Socket (sockets (state (ns w))) (owned_tcp w)"
    "owns sm Udp_Socket (sockets (state (ns w))) (udps w)" "owns sm Icmp_Socket (sockets (state (ns w))) (pings w)"
    by (simp_all add: world_inv_alt)
  have "distinct (owned_tcp w @ udps w @ pings w)"
    using o owns_kinds_disjoint[OF o(1,2)] owns_kinds_disjoint[OF o(1,3)] owns_kinds_disjoint[OF o(2,3)]
    by (auto simp: owns_def)
  with w show ?thesis by blast
qed

theorem netstack_never_panics_witness:
  "\<exists>w. run_ops slot_smoltcp
      [Listen_Tcp 80, Cycle (Packet (0, 0, [0, 1])) [(0, 0, [0, 2])] 0 0 0, Accept 80 7, Read 0 100 7,
       Dial True (SockV6 1 80 0 0) 5, Cycle Notified [] 0 0 0, Dial_Received 1, Drop_Stream 0 0, Open_Udp 3,
       Shutdown, Drop_Stream 1 0]
      (new_world (netstack_new slot_smoltcp () 1 65535)) = Some w \<and>
    distinct (owned_tcp w @ udps w @ pings w)"
  by (rule netstack_never_panics[OF slot_smoltcp_ok])


definition demo_entry :: TcpListenerEntry where
  "demo_entry = \<lparr>listen_ep = \<lparr>ep_addr = None, ep_port = 80\<rparr>, listen_pool = [(0, None)], accept_queue = [], accept_wakers = [5]\<rparr>"

definition demo_sockets :: "slot_socket option list" where
  "demo_sockets = [Some \<lparr>slot_kind = Tcp_Socket, slot_state = St_Established\<rparr>]"

lemma demo_owns: "owns slot_smoltcp Tcp_Socket demo_sockets (entry_handles demo_entry)"
  by (simp add: owns_def entry_handles_def demo_entry_def kinds_def slot_smoltcp_def slot_get_def demo_sockets_def)


lemma map_filter_keep:
  "(\<And>e. e \<in> set xs \<Longrightarrow> f e = (if P e then Some e else None)) \<Longrightarrow> List.map_filter f xs = filter P xs"
  by (induction xs) auto

text \<open>C24. Reaping removes exactly the closed streams whose close handshake is
  complete or that have waited longer than the grace period, from the list and from the socket set,
  and touches no other socket: a dropped stream is gone after the grace period, whatever the peer
  does.\<close>

theorem closing_reaped:
  assumes ok: "smoltcp_ok sm" and own: "owns sm Tcp_Socket (sockets st) (map fst (closing st))"
  shows "\<exists>st'. reap_closing_sockets sm now st = Some st' \<and>
    mset (closing st') = mset (filter (\<lambda>(h, t). tcp_st sm (the (ss_get sm (sockets st) h)) \<noteq> St_Closed \<and>
      since sm now t \<le> CLOSE_GRACE) (closing st)) \<and>
    (\<forall>h. ss_get sm (sockets st') h =
      (if \<exists>t. (h, t) \<in> set (closing st) \<and>
           (tcp_st sm (the (ss_get sm (sockets st) h)) = St_Closed \<or> CLOSE_GRACE < since sm now t)
       then None else ss_get sm (sockets st) h))"
proof -
  let ?s = "sockets st" and ?dec = "decided sm (closing_dec sm now) (sockets st)"
  let ?keep = "\<lambda>(h, t). tcp_st sm (the (ss_get sm ?s h)) \<noteq> St_Closed \<and> since sm now t \<le> CLOSE_GRACE"
  have d: "distinct (map fst (closing st))" and tcp: "\<forall>e\<in>set (closing st). kinds sm ?s (fst e) = Some Tcp_Socket"
    using own by (auto simp: owns_def)
  have dec: "?dec e = (if ?keep e then Some e else None)" if "e \<in> set (closing st)" for e
  proof -
    have "kinds sm ?s (fst e) = Some Tcp_Socket" using tcp that by blast
    from get_sock_kinds[OF this] obtain k where k: "get_sock sm Tcp_Socket ?s (fst e) = Some k" by blast
    from get_sockD[OF k] k show ?thesis by (cases e) (auto simp: closing_dec_def)
  qed
  from removal_sweep[OF closing_removal[OF ok] d tcp] obtain cl s' where
    sw: "sweep (closing_body sm now) 0 (closing st) ?s = Some (cl, s')" and m: "mset cl = mset (List.map_filter ?dec (closing st))"
    and g: "\<forall>h. ss_get sm s' h = (if \<exists>e\<in>set (closing st). fst e = h \<and> ?dec e = None then None else ss_get sm ?s h)"
    by blast
  have "List.map_filter ?dec (closing st) = filter ?keep (closing st)" by (rule map_filter_keep) (rule dec)
  with m have "mset cl = mset (filter ?keep (closing st))" by (simp only:)
  moreover have "(\<exists>e\<in>set (closing st). fst e = h \<and> ?dec e = None) \<longleftrightarrow>
      (\<exists>t. (h, t) \<in> set (closing st) \<and> (tcp_st sm (the (ss_get sm ?s h)) = St_Closed \<or> CLOSE_GRACE < since sm now t))" for h
  proof -
    have "(\<exists>e\<in>set (closing st). fst e = h \<and> ?dec e = None) \<longleftrightarrow> (\<exists>e\<in>set (closing st). fst e = h \<and> \<not> ?keep e)"
      by (rule bex_cong) (simp_all add: dec)
    also have "\<dots> \<longleftrightarrow> (\<exists>t. (h, t) \<in> set (closing st) \<and> \<not> ?keep (h, t))" by force
    finally show ?thesis by (simp add: not_le)
  qed
  ultimately show ?thesis using sw g
    by (intro exI[of _ "st\<lparr>closing := cl, sockets := s'\<rparr>"]) (simp add: reap_closing_sockets_def)
qed

definition demo_closing :: "(unit, slot_socket option list) NetstackState" where
  "demo_closing = \<lparr>iface = (), device = new_device 65535,
     sockets = [Some \<lparr>slot_kind = Tcp_Socket, slot_state = St_FinWait1\<rparr>, Some \<lparr>slot_kind = Tcp_Socket, slot_state = St_FinWait1\<rparr>],
     wakers = [], pending_connects = [], listeners = [], closing = [(0, 0), (1, 50000000)], closed = False\<rparr>"

theorem closing_reaped_witness:
  "\<exists>st'. reap_closing_sockets slot_smoltcp 70000000 demo_closing = Some st' \<and>
    mset (closing st') = {#(1, 50000000)#} \<and> ss_get slot_smoltcp (sockets st') 0 = None"
proof -
  have "owns slot_smoltcp Tcp_Socket (sockets demo_closing) (map fst (closing demo_closing))"
    by (auto simp: owns_def kinds_def slot_smoltcp_def slot_get_def demo_closing_def)
  from closing_reaped[OF slot_smoltcp_ok this, of 70000000] obtain st' where
    r: "reap_closing_sockets slot_smoltcp 70000000 demo_closing = Some st'" and
    m: "mset (closing st') = mset (filter (\<lambda>(h, t). tcp_st slot_smoltcp (the (ss_get slot_smoltcp (sockets demo_closing) h)) \<noteq> St_Closed \<and>
      since slot_smoltcp 70000000 t \<le> CLOSE_GRACE) (closing demo_closing))" and
    g: "ss_get slot_smoltcp (sockets st') 0 =
      (if \<exists>t. (0, t) \<in> set (closing demo_closing) \<and>
           (tcp_st slot_smoltcp (the (ss_get slot_smoltcp (sockets demo_closing) 0)) = St_Closed \<or> CLOSE_GRACE < since slot_smoltcp 70000000 t)
       then None else ss_get slot_smoltcp (sockets demo_closing) 0)" by blast
  have "mset (closing st') = {#(1, 50000000)#}"
    using m by (simp add: slot_smoltcp_simps demo_closing_def CLOSE_GRACE_def slot_get_def)
  moreover have "ss_get slot_smoltcp (sockets st') 0 = None"
    unfolding g by (simp add: slot_smoltcp_simps demo_closing_def CLOSE_GRACE_def)
  ultimately show ?thesis using r by blast
qed

text \<open>The inner loop of a poll cycle, which has no bound of its own,
  ends with the receive queue empty, for any packets.\<close>

theorem poll_loop_terminates:
  assumes "smoltcp_ok sm"
  shows "\<exists>st'. poll_loop sm now st = Some st' \<and> rx_queue (device st') = [] \<and>
    listeners st' = listeners st \<and> closing st' = closing st"
  using poll_loop_returns[OF assms, of now st] by auto

theorem poll_loop_terminates_witness:
  "\<exists>st'. poll_loop slot_smoltcp 0 (demo_closing\<lparr>device := \<lparr>rx_queue = [[0, 4], [1, 4]], tx_queue = [], dev_mtu = 1280\<rparr>\<rparr>) = Some st' \<and>
    rx_queue (device st') = [] \<and> listeners st' = [] \<and> closing st' = [(0, 0), (1, 50000000)]"
  using poll_loop_terminates[OF slot_smoltcp_ok, of 0 "demo_closing\<lparr>device := \<lparr>rx_queue = [[0, 4], [1, 4]], tx_queue = [], dev_mtu = 1280\<rparr>\<rparr>"]
  by (simp add: demo_closing_def)

section \<open>Where the code falls short\<close>

lemma map_filter_all: "(\<And>e. e \<in> set xs \<Longrightarrow> f e = Some (g e)) \<Longrightarrow> List.map_filter f xs = map g xs"
  by (induction xs) auto

lemma service_entry_uniform:
  assumes ok: "smoltcp_ok sm" and own: "owns sm Tcp_Socket s (entry_handles e)"
    and no: "\<forall>p\<in>set (listen_pool e). \<not> est sm s (fst p)"
    and dec: "\<And>p. p \<in> set (listen_pool e) \<Longrightarrow> decided sm (handshake_dec sm now) s p = Some (g p)"
  shows "\<exists>e' ws s'. service_entry sm now e s = Some (e', ws, s') \<and>
    length (listen_pool e') = length (listen_pool e) + (LISTEN_POOL - in_listen (map g (listen_pool e)))"
proof -
  from service_entry_exact[OF ok own, of now] obtain moved pool2 hs s' where
    eq: "service_entry sm now e s =
      Some (e\<lparr>listen_pool := pool2 @ map (\<lambda>h. (h, None)) hs, accept_queue := accept_queue e @ moved,
              accept_wakers := if moved = [] then accept_wakers e else []\<rparr>,
            if moved = [] then [] else accept_wakers e, s')"
    and m2: "mset pool2 = mset (List.map_filter (decided sm (handshake_dec sm now) s)
      (filter (\<lambda>p. \<not> est sm s (fst p)) (listen_pool e)))"
    and hs: "length hs = LISTEN_POOL - in_listen pool2" by blast
  have "filter (\<lambda>p. \<not> est sm s (fst p)) (listen_pool e) = listen_pool e" using no by (simp add: filter_id_conv)
  moreover have "List.map_filter (decided sm (handshake_dec sm now) s) (listen_pool e) = map g (listen_pool e)"
    by (rule map_filter_all) (rule dec)
  ultimately have m: "mset pool2 = mset (map g (listen_pool e))" using m2 by (simp only:)
  have "in_listen pool2 = size (filter_mset (\<lambda>(h, t). t = None) (mset pool2))"
    unfolding in_listen_def mset_filter[symmetric] size_mset ..
  also have "\<dots> = in_listen (map g (listen_pool e))"
    unfolding m in_listen_def mset_filter[symmetric] size_mset ..
  finally have i: "in_listen pool2 = in_listen (map g (listen_pool e))" .
  have "length pool2 = length (listen_pool e)" using mset_eq_length[OF m] by simp
  with eq hs i show ?thesis by auto
qed

text \<open>The listen pool has no upper bound: when every socket of the pool
  has received a SYN, servicing adds \<open>LISTEN_POOL\<close> new ones, and when all of them are back in
  LISTEN (the peers sent RST), servicing keeps them all.\<close>

theorem listen_pool_grows:
  assumes "smoltcp_ok sm" and "owns sm Tcp_Socket s (entry_handles e)"
    and "\<forall>(h, t)\<in>set (listen_pool e). t = None \<and> \<not> est sm s h \<and> tcp_st sm (the (get_sock sm Tcp_Socket s h)) \<noteq> St_Listen"
  shows "\<exists>e' ws s'. service_entry sm now e s = Some (e', ws, s') \<and>
    length (listen_pool e') = length (listen_pool e) + 8 \<and>
    (\<forall>s2 now2. owns sm Tcp_Socket s2 (entry_handles e') \<longrightarrow>
       (\<forall>(h, t)\<in>set (listen_pool e'). \<not> est sm s2 h \<and> tcp_st sm (the (get_sock sm Tcp_Socket s2 h)) = St_Listen) \<longrightarrow>
       (\<exists>e'' ws' s3. service_entry sm now2 e' s2 = Some (e'', ws', s3) \<and>
          length (listen_pool e) + 8 \<le> length (listen_pool e'')))"
proof -
  have dec: "decided sm (handshake_dec sm now) s p = Some (fst p, Some now)" if "p \<in> set (listen_pool e)" for p
    using that assms(3) by (auto simp: handshake_dec_def)
  have no: "\<forall>p\<in>set (listen_pool e). \<not> est sm s (fst p)" using assms(3) by auto
  have "in_listen (map (\<lambda>p. (fst p, Some now)) (listen_pool e)) = 0" by (simp add: in_listen_def filter_map comp_def)
  with service_entry_uniform[OF assms(1,2) no dec] obtain e' ws s' where
    e': "service_entry sm now e s = Some (e', ws, s')" "length (listen_pool e') = length (listen_pool e) + 8"
    by (auto simp: LISTEN_POOL_def)
  have "\<exists>e'' ws' s3. service_entry sm now2 e' s2 = Some (e'', ws', s3) \<and> length (listen_pool e) + 8 \<le> length (listen_pool e'')"
    if o: "owns sm Tcp_Socket s2 (entry_handles e')" and
      l: "\<forall>(h, t)\<in>set (listen_pool e'). \<not> est sm s2 h \<and> tcp_st sm (the (get_sock sm Tcp_Socket s2 h)) = St_Listen" for s2 now2
  proof -
    have dec2: "decided sm (handshake_dec sm now2) s2 p = Some (fst p, None)" if "p \<in> set (listen_pool e')" for p
      using that l by (auto simp: handshake_dec_def)
    have no2: "\<forall>p\<in>set (listen_pool e'). \<not> est sm s2 (fst p)" using l by auto
    from service_entry_uniform[OF assms(1) o no2 dec2] e'(2) show ?thesis by fastforce
  qed
  with e' show ?thesis by blast
qed

definition demo_syn :: "slot_socket option list" where
  "demo_syn = [Some \<lparr>slot_kind = Tcp_Socket, slot_state = St_SynReceived\<rparr>]"

theorem listen_pool_grows_witness:
  "\<exists>e' ws s'. service_entry slot_smoltcp 0 demo_entry demo_syn = Some (e', ws, s') \<and> length (listen_pool e') = 9"
proof -
  have "owns slot_smoltcp Tcp_Socket demo_syn (entry_handles demo_entry)"
    by (simp add: owns_def entry_handles_def demo_entry_def kinds_def slot_smoltcp_simps slot_get_def demo_syn_def)
  moreover have "\<forall>(h, t)\<in>set (listen_pool demo_entry). t = None \<and> \<not> est slot_smoltcp demo_syn h \<and>
      tcp_st slot_smoltcp (the (get_sock slot_smoltcp Tcp_Socket demo_syn h)) \<noteq> St_Listen"
    by (simp add: demo_entry_def est_def get_sock_def slot_smoltcp_simps slot_get_def demo_syn_def)
  ultimately show ?thesis
    using listen_pool_grows[OF slot_smoltcp_ok, of demo_syn demo_entry 0] by (auto simp: demo_entry_def)
qed

text \<open>Listening again on a port whose first listener is gone
  (dropping a \<open>TcpListener\<close> leaves its entry behind) makes a second entry, but \<open>accept\<close> looks only at
  the first entry of the port: connections established on the second are never accepted.\<close>

theorem second_listener_starves:
  assumes "listeners (state n) = es1 @ e1 # es2" and "port \<notin> ep_port ` listen_ep ` set es1"
    and "ep_port (listen_ep e1) = port" and "accept_queue e1 = []"
  shows "tcp_accept port w n =
    (Pending, upd_state (\<lambda>s. s\<lparr>listeners := es1 @ e1\<lparr>accept_wakers := accept_wakers e1 @ [w]\<rparr> # es2\<rparr>) n)"
proof -
  have "accept_in port w (es1 @ e1 # es2) = (Pending, es1 @ e1\<lparr>accept_wakers := accept_wakers e1 @ [w]\<rparr> # es2)"
    using assms(2-) by (induction es1) auto
  then show ?thesis using assms(1) by (simp add: tcp_accept_def)
qed

definition demo_twice :: "(unit, slot_socket option list) YggNetstack" where
  "demo_twice = \<lparr>state = demo_closing\<lparr>listeners := [demo_entry, demo_entry\<lparr>accept_queue := [7]\<rparr>]\<rparr>,
     poll_wakeup = False, our_addr = 1, ns_mtu = 65535\<rparr>"

theorem second_listener_starves_witness:
  "fst (tcp_accept 80 3 demo_twice) = Pending"
  using second_listener_starves[of demo_twice "[]" demo_entry "[demo_entry\<lparr>accept_queue := [7]\<rparr>]" 80 3]
  by (simp add: demo_twice_def demo_entry_def)

text \<open>Shutting the netstack down does not fail a waiting accept:
  woken by the shutdown it finds no listener, stays pending and leaves no waker, so nothing wakes it
  again.  Echo sockets do fail, with \<open>NotConnected\<close>.\<close>

theorem accept_pends_after_shutdown:
  assumes "netstack_shutdown sm n = Some (ws, n')"
  shows "tcp_accept port w n' = (Pending, n') \<and>
    send_echo sm h ident dst q b w n' = Some (Ready (Inl (Io NotConnected ''netstack closed'')), n')"
  using assms
  by (auto simp: netstack_shutdown_def Let_def tcp_accept_def notify_one_def upd_state_def send_echo_def split: option.splits)

theorem accept_pends_after_shutdown_witness:
  "fst (tcp_accept 80 3 (snd (the (netstack_shutdown slot_smoltcp (netstack_new slot_smoltcp () 1 65535))))) = Pending"
proof -
  obtain ws n' where s: "netstack_shutdown slot_smoltcp (netstack_new slot_smoltcp () 1 65535) = Some (ws, n')"
    by (simp add: netstack_shutdown_def netstack_new_def Let_def tcp_handles_def slot_smoltcp_def)
  from accept_pends_after_shutdown[OF s, of 80 3] s show ?thesis by simp
qed

end
