(* ===== verification/Netstack_Tasks.thy ===== *)
theory Netstack_Tasks
  imports Netstack
begin

text \<open>
  The background tasks of the netstack and the configuration of its interface
  (\<open>YggNetstack::new\<close> and \<open>spawn_tasks\<close> in \<open>crates/yggstack/src/netstack/mod.rs\<close>).  The reader task
  takes packets from the overlay and passes them on; the poll task waits for a packet, a timer
  or a wake-up, takes whatever else has arrived, and runs one poll cycle.  The rounds of the poll
  task are given as a list, each with the operations other tasks perform before it looks at the
  closed flag and while it waits.  The main result joins the two components behind it: every
  packet that is not a fragment, and every datagram rebuilt from fragments, is handed to smoltcp
  exactly once and in order.
\<close>

section \<open>Model\<close>

text \<open>The interface's addresses and routes.  \<open>Ipv4Cidr::new\<close> panics on a prefix longer than 32
  bits: \<open>None\<close>.  \<open>ckr\<close> is the IPv4 address of the tunnel routing, if that is enabled.\<close>

record iface_config =
  ip_addrs :: "(ip_addr \<times> nat) list"
  default_v6_route :: "ipv6 option"
  default_v4_route :: "ipv4 option"

definition configure_iface :: "ipv6 \<Rightarrow> string option \<Rightarrow> iface_config option" where
  "configure_iface addr ckr =
     (let c = \<lparr>ip_addrs = [(V6 addr, 128)], default_v6_route = Some addr, default_v4_route = None\<rparr>
      in case ckr of
           None \<Rightarrow> Some c
         | Some cidr \<Rightarrow>
             if cidr = [] then Some c
             else (case parse_ipv4_cidr cidr of
                 None \<Rightarrow> Some c
               | Some (ip4, prefix) \<Rightarrow>
                   if 32 < unat prefix then None
                   else Some (c\<lparr>ip_addrs := ip_addrs c @ [(V4 ip4, unat prefix)], default_v4_route := Some ip4\<rparr>)))"

text \<open>The reader task: what each read returns, and whether the poll task still holds the other end
  of the channel.  The packets passed on, and whether the task has ended.\<close>

fun reader_task :: "((io_error + bytes) \<times> bool) list \<Rightarrow> bytes list \<times> bool" where
  "reader_task [] = ([], False)"
| "reader_task ((Inl e, held) # rs) = ([], True)"
| "reader_task ((Inr pkt, held) # rs) =
     (if pkt \<noteq> [] \<and> \<not> held then ([], True)
      else if pkt = [] then reader_task rs
      else (case reader_task rs of (ps, ended) \<Rightarrow> (pkt # ps, ended)))"

text \<open>One round of the poll task.  \<open>wake\<close> is \<open>None\<close> when the channel is closed.\<close>

record poll_round =
  pr_before :: "net_op list"
  pr_waiting :: "net_op list"
  pr_wake :: "trigger option"
  pr_drained :: "arrival list"
  pr_times :: "smol_instant \<times> smol_instant \<times> smol_instant"

fun is_cycle :: "net_op \<Rightarrow> bool" where
  "is_cycle (Cycle trig pkts t1 t2 t3) = True"
| "is_cycle _ = False"

abbreviation others :: "('i, 's, 'k) smoltcp \<Rightarrow> net_op list \<Rightarrow> ('i, 's) world \<Rightarrow> ('i, 's) world option" where
  "others sm ops \<equiv> run_ops sm (filter (\<lambda>x. \<not> is_cycle x) ops)"

definition round_packets :: "trigger \<Rightarrow> arrival list \<Rightarrow> arrival list" where
  "round_packets trig pkts = (case trig of Packet a \<Rightarrow> [a] | _ \<Rightarrow> []) @ pkts"

text \<open>What the receive queue holds when the poll starts.\<close>

definition handed :: "trigger \<Rightarrow> arrival list \<Rightarrow> ('i, 's) world \<Rightarrow> bytes list" where
  "handed trig pkts w =
     rx_queue (device (snd (enqueue_packets (round_packets trig pkts) (reassembler w) (state (ns w)))))"

text \<open>The poll task: the packets handed to smoltcp in each round, whether the task has ended, and
  the state it leaves.\<close>

fun poll_task ::
  "('i, 's, 'k) smoltcp \<Rightarrow> poll_round list \<Rightarrow> ('i, 's) world \<Rightarrow> (bytes list list \<times> bool \<times> ('i, 's) world) option" where
  "poll_task sm [] w = Some ([], False, w)"
| "poll_task sm (r # rs) w =
     do { w1 \<leftarrow> others sm (pr_before r) w;
          if closed (state (ns w1)) then Some ([], True, w1)
          else do {
            w2 \<leftarrow> others sm (pr_waiting r) w1;
            case pr_wake r of
              None \<Rightarrow> Some ([], True, w2)
            | Some trig \<Rightarrow> do {
                w3 \<leftarrow> (case pr_times r of (t1, t2, t3) \<Rightarrow> exec sm (Cycle trig (pr_drained r) t1 t2 t3) w2);
                (log, ended, w4) \<leftarrow> poll_task sm rs w3;
                Some (handed trig (pr_drained r) w2 # log, ended, w4) } } }"

text \<open>\<open>dial_context\<close>: the address is parsed first, then the network is looked at.\<close>

definition dial_context ::
  "(socket_addr \<Rightarrow> 'r) \<Rightarrow> (string \<Rightarrow> string) \<Rightarrow> string \<Rightarrow> string \<Rightarrow> io_error + 'r" where
  "dial_context dial parse_error network address =
     (case parse_socket address of
        None \<Rightarrow> Inl (Io InvalidInput (parse_error address))
      | Some addr \<Rightarrow>
          if network = ''tcp'' \<or> network = ''tcp6'' then Inr (dial addr)
          else Inl (Io Unsupported (''unsupported network '' @ network)))"

section \<open>The reader\<close>

definition goes_on :: "(io_error + bytes) \<times> bool \<Rightarrow> bool" where
  "goes_on x \<longleftrightarrow> (\<exists>pkt. fst x = Inr pkt \<and> (pkt = [] \<or> snd x))"

text \<open>The reader passes on exactly the non-empty packets it reads before the first error or the
  first packet nobody takes, in order, and ends there.\<close>

lemma reader_passes_all:
  "reader_task rs = (filter (\<lambda>p. p \<noteq> []) (map (projr \<circ> fst) (takeWhile goes_on rs)), \<not> list_all goes_on rs)"
  by (induction rs rule: reader_task.induct) (auto simp: goes_on_def)

lemma dial_context_cases:
  assumes "flow_free a"
  shows "dial_context dial perr network (show_socket a) =
    (if network \<in> {''tcp'', ''tcp6''} then Inr (dial a) else Inl (Io Unsupported (''unsupported network '' @ network)))"
  using assms by (simp add: dial_context_def parse_socket_show)

section \<open>Only the poll task feeds the device\<close>

lemma upd_device [simp]:
  "device (state (notify_one n)) = device (state n)" "device (state (push_waker k n)) = device (state n)"
  "device (state (put_sock sm h s n)) = device (state n)"
  by (simp_all add: notify_one_def push_waker_def put_sock_def upd_state_def)

definition keeps_device :: "('i, 's) YggNetstack \<Rightarrow> ('r \<times> ('i, 's) YggNetstack) option \<Rightarrow> bool" where
  "keeps_device n r \<longleftrightarrow> (\<forall>x n'. r = Some (x, n') \<longrightarrow> device (state n') = device (state n))"

lemma keeps_device_simps [simp]:
  "keeps_device n None" "keeps_device n (Some (x, n')) \<longleftrightarrow> device (state n') = device (state n)"
  by (simp_all add: keeps_device_def)

lemma stream_ops_device:
  "keeps_device n (wait_connected sm h k n)" "keeps_device n (poll_read sm h m k n)"
  "keeps_device n (poll_write sm h b k n)" "keeps_device n (poll_shutdown sm h n)" "keeps_device n (Some (poll_flush n))"
  by (simp_all add: wait_connected_def poll_read_def poll_write_def poll_shutdown_def poll_flush_def Let_def
      split: option.split sum.split prod.split)

lemma datagram_ops_device:
  "keeps_device n (udp_recv_from sm h m k n)" "keeps_device n (udp_send_to sm h b a k n)"
  "keeps_device n (send_echo sm h i d q b k n)" "keeps_device n (recv_reply sm h m k n)"
  by (simp_all add: udp_recv_from_def udp_send_to_def send_echo_def recv_reply_def
      split: option.split sum.split prod.split ip_addr.split socket_addr.split)

lemma socket_ops_device:
  "keeps_device n (listen_tcp sm port n)" "keeps_device n (bind_udp sm port n)"
  "keeps_device n (open_udp sm rnd n)" "keeps_device n (open_icmp sm ident n)" "keeps_device n (netstack_shutdown sm n)"
  by (simp_all add: listen_tcp_def bind_udp_def open_udp_def bind_new_udp_def open_icmp_def netstack_shutdown_def
      new_tcp_socket_def new_udp_socket_def upd_state_def Let_def split: option.split sum.split prod.split)

lemma on_ns_device:
  "on_ns r w = Some w' \<Longrightarrow> keeps_device (ns w) r \<Longrightarrow>
   device (state (ns w')) = device (state (ns w)) \<and> reassembler w' = reassembler w"
  by (auto simp: on_ns_def)

lemmas ops_device = stream_ops_device datagram_ops_device socket_ops_device

lemma opened_device:
  assumes "map_option (\<lambda>(r, n). case r of Inr h \<Rightarrow> f h n | Inl _ \<Rightarrow> w\<lparr>ns := n\<rparr>) res = Some w'"
    and "keeps_device (ns w) res" and "\<And>h n. ns (f h n) = n \<and> reassembler (f h n) = reassembler w"
  shows "device (state (ns w')) = device (state (ns w)) \<and> reassembler w' = reassembler w"
  using assms by (cases res) (auto split: sum.splits prod.splits)

lemma other_op_device:
  assumes x: "exec sm op w = Some w'" and "\<not> is_cycle op"
  shows "device (state (ns w')) = device (state (ns w)) \<and> reassembler w' = reassembler w"
proof (cases op)
  case (Dial ckr remote rnd)
  with assms show ?thesis
    by (auto simp: dial_begin_def new_tcp_socket_def split: sum.splits prod.splits)
next
  case Accept
  with x show ?thesis by (auto simp: tcp_accept_def upd_state_def split: prod.splits poll.splits)
next
  case Dial_Cancelled
  with x show ?thesis by auto
next
  case Dial_Received
  with x show ?thesis by (auto simp: Let_def split: option.splits sum.splits)
next
  case Drop_Stream
  with x show ?thesis by (auto simp: drop_stream_def upd_state_def put_sock_def notify_one_def split: option.splits)
next
  case Drop_Udp
  with x show ?thesis by (auto simp: drop_socket_def upd_state_def split: option.splits)
next
  case Drop_Icmp
  with x show ?thesis by (auto simp: drop_socket_def upd_state_def split: option.splits)
next
  case Bind_Udp
  show ?thesis by (rule opened_device[OF x[unfolded Bind_Udp exec.simps] socket_ops_device(2)]) simp
next
  case Open_Udp
  show ?thesis by (rule opened_device[OF x[unfolded Open_Udp exec.simps] socket_ops_device(3)]) simp
next
  case Open_Icmp
  show ?thesis by (rule opened_device[OF x[unfolded Open_Icmp exec.simps] socket_ops_device(4)]) simp
qed (use x assms(2) in \<open>simp_all\<close>, (rule on_ns_device, assumption, rule ops_device)+)

lemma others_device:
  "others sm ops w = Some w' \<Longrightarrow>
   device (state (ns w')) = device (state (ns w)) \<and> reassembler w' = reassembler w"
proof (induction ops arbitrary: w)
  case (Cons op ops)
  show ?case
  proof (cases "\<not> is_cycle op \<and> enabled op w")
    case True
    with Cons.prems obtain w1 where "exec sm op w = Some w1" "others sm ops w1 = Some w'"
      by (cases "exec sm op w") auto
    with Cons.IH[of w1] other_op_device[of sm op w w1] True show ?thesis by simp
  next
    case False
    with Cons.prems have "others sm ops w = Some w'" by (cases "is_cycle op") simp_all
    with Cons.IH show ?thesis by blast
  qed
qed simp

lemma others_inv:
  assumes "smoltcp_ok sm" and "world_inv sm w"
  obtains w' where "others sm ops w = Some w'" "world_inv sm w'"
    "device (state (ns w')) = device (state (ns w))" "reassembler w' = reassembler w"
  using run_ops_inv[OF assms, of "filter (\<lambda>x. \<not> is_cycle x) ops"] others_device[of sm ops w] by auto

section \<open>Delivery\<close>

definition outputs :: "bytes option list \<Rightarrow> bytes list" where
  "outputs os = List.map_filter id os"

lemma outputs_simps [simp]:
  "outputs [] = []" "outputs (None # os) = outputs os" "outputs (Some p # os) = p # outputs os"
  "outputs (os @ os') = outputs os @ outputs os'"
  by (simp_all add: outputs_def List.map_filter_def)

lemma enqueue_feeds:
  "enqueue_packets xs fr st = (fst (feed_all fr xs),
     st\<lparr>device := (device st)\<lparr>rx_queue := rx_queue (device st) @ outputs (snd (feed_all fr xs))\<rparr>\<rparr>)"
  by (induction xs fr st rule: enqueue_packets.induct) (auto split: prod.splits option.splits)

lemma feed_all_append:
  "feed_all r (xs @ ys) = (fst (feed_all (fst (feed_all r xs)) ys), snd (feed_all r xs) @ snd (feed_all (fst (feed_all r xs)) ys))"
  by (induction xs arbitrary: r) (auto simp: case_prod_beta Let_def)

lemma run_poll_empties:
  assumes "smoltcp_ok sm" and "run_poll sm t1 t2 t3 st = Some (tx, ws, woken, st')"
  shows "rx_queue (device st') = [] \<and> closed st' = closed st"
proof -
  obtain i d s where "poll_loop sm t1 st = Some (st\<lparr>iface := i, device := d, sockets := s\<rparr>)" "rx_queue d = []"
    using poll_loop_returns[OF assms(1)] by blast
  with assms(2) show ?thesis
    by (auto simp: run_poll_def service_listeners_def reap_closing_sockets_def bind_eq_Some_conv)
qed

lemma process_connects_closed:
  "process_connects_from sm cmds st = Some (rs, st') \<Longrightarrow> closed st' = closed st"
  by (induction sm cmds st arbitrary: rs st' rule: process_connects_from.induct)
    (auto split: option.splits prod.splits)

lemma cycle_feeds:
  assumes ok: "smoltcp_ok sm" and "exec sm (Cycle trig pkts t1 t2 t3) w = Some w'"
  shows "rx_queue (device (state (ns w'))) = [] \<and> closed (state (ns w')) = closed (state (ns w)) \<and>
    reassembler w' = fst (feed_all (reassembler w) (round_packets trig pkts))"
  using assms(2)
  by (auto simp: net_cycle_def Let_def enqueue_feeds round_packets_def process_connects_def bind_eq_Some_conv
      dest!: run_poll_empties[OF ok] process_connects_closed)

text \<open>The packets of the rounds the task has completed.\<close>

fun fed :: "poll_round list \<Rightarrow> arrival list" where
  "fed [] = []"
| "fed (r # rs) = (case pr_wake r of Some trig \<Rightarrow> round_packets trig (pr_drained r) | None \<Rightarrow> []) @ fed rs"

lemma poll_task_feeds:
  assumes "smoltcp_ok sm" and "world_inv sm w" and "rx_queue (device (state (ns w))) = []"
  shows "\<exists>log ended w'. poll_task sm rs w = Some (log, ended, w') \<and> world_inv sm w' \<and>
    (ended \<or> length log = length rs) \<and>
    concat log = outputs (snd (feed_all (reassembler w) (fed (take (length log) rs)))) \<and>
    rx_queue (device (state (ns w'))) = []"
  using assms(2,3)
proof (induction rs arbitrary: w)
  case (Cons r rs)
  obtain w1 where w1: "others sm (pr_before r) w = Some w1" "world_inv sm w1"
    "device (state (ns w1)) = device (state (ns w))" "reassembler w1 = reassembler w"
    using others_inv[OF assms(1) Cons.prems(1)] .
  obtain w2 where w2: "others sm (pr_waiting r) w1 = Some w2" "world_inv sm w2"
    "device (state (ns w2)) = device (state (ns w1))" "reassembler w2 = reassembler w1"
    using others_inv[OF assms(1) w1(2)] .
  obtain t1 t2 t3 where t: "pr_times r = (t1, t2, t3)" by (cases "pr_times r") auto
  show ?case
  proof (cases "closed (state (ns w1)) \<or> pr_wake r = None")
    case True
    with w1 w2 Cons.prems show ?thesis by (auto split: option.splits)
  next
    case False
    then obtain trig where trig: "pr_wake r = Some trig" "\<not> closed (state (ns w1))" by auto
    obtain w3 where w3: "exec sm (Cycle trig (pr_drained r) t1 t2 t3) w2 = Some w3" "world_inv sm w3"
      using cycle_inv[OF assms(1) w2(2)] by blast
    let ?ps = "round_packets trig (pr_drained r)"
    have f: "rx_queue (device (state (ns w3))) = []" "reassembler w3 = fst (feed_all (reassembler w) ?ps)"
      using cycle_feeds[OF assms(1) w3(1)] w2(4) w1(4) by simp_all
    from Cons.IH[OF w3(2) f(1)] obtain log ended w4 where ih: "poll_task sm rs w3 = Some (log, ended, w4)"
      "world_inv sm w4" "ended \<or> length log = length rs"
      "concat log = outputs (snd (feed_all (reassembler w3) (fed (take (length log) rs))))"
      "rx_queue (device (state (ns w4))) = []" by blast
    have h: "handed trig (pr_drained r) w2 = outputs (snd (feed_all (reassembler w) ?ps))"
      using w1(3,4) w2(3,4) Cons.prems(2) by (simp add: handed_def enqueue_feeds)
    have "poll_task sm (r # rs) w = Some (handed trig (pr_drained r) w2 # log, ended, w4)"
      using w1(1) w2(1) trig t w3(1) ih(1) by (simp del: exec.simps)
    moreover have "concat (handed trig (pr_drained r) w2 # log) =
        outputs (snd (feed_all (reassembler w) (fed (take (length (handed trig (pr_drained r) w2 # log)) (r # rs)))))"
      using h ih(4) f(2) trig(1) by (simp add: feed_all_append)
    moreover have "ended \<or> length (handed trig (pr_drained r) w2 # log) = length (r # rs)" using ih(3) by simp
    ultimately show ?thesis using ih(2,5) by blast
  qed
qed (auto intro: exI[of _ False])

lemma poll_task_new:
  assumes "smoltcp_ok sm"
  shows "\<exists>log ended w. poll_task sm rs (new_world (netstack_new sm i addr m)) = Some (log, ended, w) \<and>
    (ended \<or> length log = length rs) \<and>
    concat log = outputs (snd (feed_all new_reassembler (fed (take (length log) rs))))"
  using poll_task_feeds[OF assms new_world_inv[OF assms, of i addr m], of rs]
  by (auto simp: new_world_def netstack_new_def Let_def new_device_def)



section \<open>A quiet run\<close>

definition quiet :: "trigger \<Rightarrow> poll_round" where
  "quiet trig = \<lparr>pr_before = [], pr_waiting = [], pr_wake = Some trig, pr_drained = [], pr_times = (0, 0, 0)\<rparr>"

lemma quiet_simps [simp]:
  "pr_before (quiet trig) = []" "pr_waiting (quiet trig) = []" "pr_wake (quiet trig) = Some trig"
  "pr_drained (quiet trig) = []" "pr_times (quiet trig) = (0, 0, 0)"
  by (simp_all add: quiet_def)

lemma quiet_goes_on:
  assumes "smoltcp_ok sm" and "\<not> closed (state (ns w))"
    and "poll_task sm (map quiet ts) w = Some (log, ended, w')"
  shows "\<not> ended \<and> length log = length ts"
  using assms(2,3)
proof (induction ts arbitrary: w log)
  case (Cons t ts)
  have step: "exec sm (Cycle t [] 0 0 0) w \<bind> (\<lambda>w3. poll_task sm (map quiet ts) w3 \<bind>
      (\<lambda>(log, ended, w4). Some (handed t [] w # log, ended, w4))) = Some (log, ended, w')"
    using Cons.prems by (simp del: exec.simps)
  then obtain w1 where e: "exec sm (Cycle t [] 0 0 0) w = Some w1"
    by (cases "exec sm (Cycle t [] 0 0 0) w") (simp_all del: exec.simps)
  with step obtain log1 where "poll_task sm (map quiet ts) w1 = Some (log1, ended, w')" "length log = Suc (length log1)"
    by (cases "poll_task sm (map quiet ts) w1") (auto simp del: exec.simps poll_task.simps)
  with Cons.IH[of w1 log1] cycle_feeds[OF assms(1) e] Cons.prems(1) show ?case by simp
qed simp

text \<open>The second fragment arrives first, then an unrelated packet, then a timer, then the first
  fragment.\<close>

definition demo_rounds :: "poll_round list" where
  "demo_rounds = map quiet [Packet (3, 3, mk_frag demo_key 17 (8, False, [4, 5])), Packet (4, 4, [1, 2]), Sleep,
     Packet (5, 5, mk_frag demo_key 17 (0, True, replicate 8 9))]"

lemma demo_rounds_run:
  "\<exists>log w. poll_task slot_smoltcp demo_rounds (new_world (netstack_new slot_smoltcp () 1 1280)) = Some (log, False, w) \<and>
     length log = 4"
proof -
  let ?w = "new_world (netstack_new slot_smoltcp () 1 1280)"
  obtain log ended w where p: "poll_task slot_smoltcp demo_rounds ?w = Some (log, ended, w)"
    using poll_task_new[OF slot_smoltcp_ok] by blast
  moreover have "\<not> closed (state (ns ?w))" by (simp add: new_world_def netstack_new_def Let_def)
  ultimately show ?thesis
    using quiet_goes_on[OF slot_smoltcp_ok, of ?w] unfolding demo_rounds_def by fastforce
qed



section \<open>Configuration\<close>

text \<open>The interface gets the node's address as a host address with
  the IPv6 default route, and the tunnel's IPv4 address with its route exactly when one is given
  that parses; configuring it panics exactly when such an address has a prefix longer than 32
  bits, which the parser accepts.\<close>
theorem interface_configured:
  "(configure_iface addr (Some cidr) = None \<longleftrightarrow> (\<exists>ip4 prefix. parse_ipv4_cidr cidr = Some (ip4, prefix) \<and> 32 < unat prefix)) \<and>
   (\<exists>c. configure_iface addr None = Some c \<and> ip_addrs c = [(V6 addr, 128)] \<and> default_v6_route c = Some addr) \<and>
   {ip4. \<exists>c p. configure_iface addr (Some cidr) = Some c \<and> (V4 ip4, p) \<in> set (ip_addrs c)} =
     {ip4. \<exists>p. parse_ipv4_cidr cidr = Some (ip4, p) \<and> unat p \<le> 32}"
proof -
  have "parse_ipv4_cidr [] = None" by (simp add: parse_ipv4_cidr_def split_once_def)
  then show ?thesis
    by (cases "parse_ipv4_cidr cidr") (auto simp: configure_iface_def Let_def not_less[symmetric] split: if_splits)
qed

lemma long_prefix_accepted: "parse_ipv4_cidr (show_ipv4 a @ ''/33'') = Some (a, 33)"
proof -
  have "list_all graphic (show_ipv4 a)"
    by (rule list_all_mono_pred[OF show_ipv4_chars addr_char_graphic])
  moreover have "CHR ''/'' \<notin> set (show_ipv4 a)"
    using show_ipv4_digits[of a] by (auto simp: list_all_iff is_radix_digit_def digit_val_def)
  moreover have "trim ''33'' = ''33''" by (rule trim_list_graphic) (simp add: graphic_def)
  moreover have "parse_u8 ''33'' = Some 33"
    by (simp add: parse_u8_def parse_unsigned_def is_radix_digit_def digits_value_def digit_val_def)
  ultimately show ?thesis
    by (simp add: parse_ipv4_cidr_def trim_list_graphic split_once_def str_find_append)
qed

end
