(* ===== verification/Netstack_Ends.thy ===== *)
theory Netstack_Ends
  imports Netstack
begin

text \<open>
  How a dial ends and how the netstack ends (\<open>dial_tcp\<close>, \<open>shutdown\<close> and \<open>join_with_grace\<close> in
  \<open>crates/yggstack/src/netstack/mod.rs\<close>).  A dial that has got as far as the handshake owns its
  socket through a stream, whose drop closes it.  Before that nothing owns it: a dial that is
  refused by \<open>connect()\<close> or abandoned while it waits leaves its socket in the socket set.  The
  second part waits for the two background tasks, in milliseconds.
\<close>

section \<open>Model\<close>

definition CONNECT_TIMEOUT :: duration where
  "CONNECT_TIMEOUT = from_secs 10"

text \<open>The end of \<open>dial_tcp\<close>.  \<open>waited\<close> is what waiting for the handshake gives and after how long,
  \<open>None\<close> when it never ends; the stream is dropped unless it is returned.\<close>

definition dial_finish ::
  "('i, 's, 'k) smoltcp \<Rightarrow> handle \<Rightarrow> (duration \<times> (io_error + unit)) option \<Rightarrow> smol_instant \<Rightarrow> ('i, 's) YggNetstack \<Rightarrow>
     ((io_error + handle) \<times> ('i, 's) YggNetstack) option" where
  "dial_finish sm h waited now n =
     (let failed = (\<lambda>e. map_option (Pair (Inl e)) (drop_stream sm h now n)) in
      case waited of
        None \<Rightarrow> failed (Io TimedOut ''netstack connect timed out'')
      | Some (t, r) \<Rightarrow>
          if CONNECT_TIMEOUT < t then failed (Io TimedOut ''netstack connect timed out'')
          else (case r of Inr _ \<Rightarrow> Some (Inr h, n) | Inl e \<Rightarrow> failed e))"

text \<open>A background task: when it ends by itself, counted from the shutdown, and how long it runs on
  after it is told to abort.\<close>

record background =
  bg_ends :: "duration option"
  bg_abort :: duration

text \<open>\<open>join_with_grace\<close>: the time it returns, and whether it aborted the task.\<close>

definition join_with_grace :: "background \<Rightarrow> duration \<Rightarrow> duration \<times> bool" where
  "join_with_grace b now =
     (let limit = now + from_secs 2; over = limit + bg_abort b in
      case bg_ends b of
        None \<Rightarrow> (over, True)
      | Some t \<Rightarrow> if t \<le> limit then (max now t, False) else (min t over, True))"

fun join_all :: "background list \<Rightarrow> duration \<Rightarrow> duration \<times> bool list" where
  "join_all [] now = (now, [])"
| "join_all (b # bs) now =
     (case join_with_grace b now of (t, aborted) \<Rightarrow> (case join_all bs t of (t', rest) \<Rightarrow> (t', aborted # rest)))"

text \<open>The end of \<open>shutdown\<close>: the first call takes the tasks, a later one finds none.\<close>

definition shutdown_join :: "background list option \<Rightarrow> duration \<times> bool list \<times> background list option" where
  "shutdown_join tasks =
     (case tasks of
        None \<Rightarrow> (0, [], None)
      | Some bs \<Rightarrow> (case join_all bs 0 of (t, aborted) \<Rightarrow> (t, aborted, None)))"

section \<open>A dial that waited for the handshake\<close>

text \<open>A dial that waited for the handshake returns its stream if the
  handshake is complete within \<open>CONNECT_TIMEOUT\<close>; otherwise it returns an error, a timeout if there
  was no answer in time, and its socket is queued for removal.\<close>
theorem failed_handshake_reclaimed:
  assumes "smoltcp_ok sm" and "sock sm Tcp_Socket n h = Some k"
  shows "\<exists>r n'. dial_finish sm h waited now n = Some (r, n') \<and>
    (if \<exists>t. waited = Some (t, Inr ()) \<and> t \<le> CONNECT_TIMEOUT then r = Inr h \<and> n' = n
     else closing (state n') = closing (state n) @ [(h, now)] \<and> poll_wakeup n' \<and>
       r = Inl (case waited of
           Some (t, Inl e) \<Rightarrow> if t \<le> CONNECT_TIMEOUT then e else Io TimedOut ''netstack connect timed out''
         | _ \<Rightarrow> Io TimedOut ''netstack connect timed out''))"
proof -
  obtain n' where d: "drop_stream sm h now n = Some n'" "closing (state n') = closing (state n) @ [(h, now)]" "poll_wakeup n'"
    using assms(2) by (simp add: drop_stream_def notify_one_def upd_state_def put_sock_def)
  show ?thesis
  proof (cases waited)
    case (Some tr)
    then obtain t r where tr: "waited = Some (t, r)" by fastforce
    then show ?thesis by (cases r) (auto simp: dial_finish_def d)
  qed (simp add: dial_finish_def d)
qed

section \<open>A dial that did not get there\<close>

text \<open>An abandoned dial leaves no trace among the dials of the world.  The invariant still accounts for
  its socket if the dial is put back as a ghost, which no operation can resume.\<close>

definition ghost :: "dial \<Rightarrow> ('i, 's) world \<Rightarrow> ('i, 's) world" where
  "ghost d w = w\<lparr>dials := d # dials w\<rparr>"

lemma ghost_enabled: "enabled op w \<Longrightarrow> enabled op (ghost d w)"
  by (cases op) (auto simp: ghost_def)

lemma on_ns_ghost: "on_ns r (ghost d w) = map_option (ghost d) (on_ns r w)"
  by (cases r) (auto simp: on_ns_def ghost_def)

lemma ghost_sel [simp]:
  "ns (ghost d w) = ns w" "reassembler (ghost d w) = reassembler w" "streams (ghost d w) = streams w"
  "dials (ghost d w) = d # dials w" "udps (ghost d w) = udps w" "pings (ghost d w) = pings w"
  "next_tx (ghost d w) = next_tx w"
  by (simp_all add: ghost_def)

lemma ghost_exec:
  assumes "enabled op w" and "d_handle d \<notin> set (map d_handle (dials w))"
  shows "\<exists>d'. d_handle d' = d_handle d \<and> exec sm op (ghost d w) = map_option (ghost d') (exec sm op w)"
proof (cases op)
  case (Cycle trig pkts t1 t2 t3)
  show ?thesis
  proof (cases "net_cycle sm trig pkts t1 t2 t3 (reassembler w) (ns w)")
    case (Some x)
    obtain tx ws rs fr n where "x = (tx, ws, rs, fr, n)" by (metis prod_cases5)
    with Some Cycle show ?thesis by (intro exI[of _ "answer rs d"]) (simp add: ghost_def)
  qed (use Cycle in auto)
next
  case (Dial_Received h)
  with assms have "h \<noteq> d_handle d" by (auto simp: list_ex_iff image_iff)
  with Dial_Received show ?thesis
    by (intro exI[of _ d]) (auto simp: ghost_def Let_def split: option.split sum.split)
next
  case (Dial_Cancelled h)
  with assms show ?thesis by (intro exI[of _ d]) (auto simp: ghost_def)
qed (((rule exI[of _ d], simp add: on_ns_ghost; fail) | (rule exI[of _ d],
     force simp: ghost_def option.map_comp comp_def split: prod.split sum.split poll.split intro!: option.map_cong0))+)

lemma ghost_kept:
  "smoltcp_ok sm \<Longrightarrow> world_inv sm (ghost d w) \<Longrightarrow>
   \<exists>w' d'. run_ops sm ops w = Some w' \<and> d_handle d' = d_handle d \<and> world_inv sm (ghost d' w')"
proof (induction ops arbitrary: d w)
  case (Cons op ops)
  show ?case
  proof (cases "enabled op w")
    case True
    have "d_handle d \<notin> set (map d_handle (dials w))" using Cons.prems(2) by (simp add: world_inv_def Let_def)
    from ghost_exec[OF True this, of sm] obtain d1 where
      d1: "d_handle d1 = d_handle d" "exec sm op (ghost d w) = map_option (ghost d1) (exec sm op w)" by blast
    from exec_inv[OF Cons.prems ghost_enabled[OF True]] d1 obtain w1 where
      w1: "exec sm op w = Some w1" "world_inv sm (ghost d1 w1)" by auto
    from Cons.IH[OF Cons.prems(1) w1(2)] d1(1) show ?thesis using True w1(1) by auto
  qed (use Cons in auto)
qed auto

lemma ghost_insert:
  assumes inv: "world_inv sm w" and d: "d \<in> set (dials w)"
  shows "world_inv sm (ghost d (w\<lparr>dials := filter (\<lambda>x. d_handle x \<noteq> d_handle d) (dials w)\<rparr>))"
proof -
  let ?g = "ghost d (w\<lparr>dials := filter (\<lambda>x. d_handle x \<noteq> d_handle d) (dials w)\<rparr>)"
  have dist: "distinct (map d_handle (dials w))" using inv by (simp add: world_inv_def Let_def)
  then have "set (dials ?g) = set (dials w)" using d by (auto simp: distinct_map dest: inj_onD)
  moreover have "distinct (map d_handle (dials ?g))" using dist by (auto simp: distinct_map intro: inj_on_subset)
  ultimately show ?thesis using inv
    by (simp add: world_inv_def Let_def owned_tcp_def dial_handles_def del: ghost_sel(4))
qed

lemma ghost_leaks:
  "world_inv sm (ghost d w) \<Longrightarrow> kinds sm (sockets (state (ns w))) (d_handle d) = Some Tcp_Socket \<and>
     d_handle d \<notin> set (owned_tcp w) \<and> d_handle d \<notin> set (map d_handle (dials w))"
  by (simp add: world_inv_def Let_def owned_tcp_def dial_handles_def)

text \<open>C19. A dial that is cancelled while it waits for its connect command, or
  whose \<open>connect()\<close> is refused, leaves its socket in the socket set: whatever the tasks of the node
  do afterwards, the socket stays there, and no stream, listener, dial or closing list has it.\<close>
theorem abandoned_dial_leaks:
  assumes "smoltcp_ok sm" and "run_ops sm before (new_world (netstack_new sm i addr m)) = Some w"
    and "d \<in> set (dials w)"
    and "op = Dial_Cancelled (d_handle d) \<or> op = Dial_Received (d_handle d) \<and> d_answer d = Some (Inl e)"
  shows "\<exists>w'. run_ops sm (op # after) w = Some w' \<and>
    kinds sm (sockets (state (ns w'))) (d_handle d) = Some Tcp_Socket \<and>
    d_handle d \<notin> set (owned_tcp w') \<and> d_handle d \<notin> set (map d_handle (dials w'))"
proof -
  let ?w1 = "w\<lparr>dials := filter (\<lambda>x. d_handle x \<noteq> d_handle d) (dials w)\<rparr>"
  have inv: "world_inv sm w"
    using run_ops_inv[OF assms(1) new_world_inv[OF assms(1), of i addr m], of before] assms(2) by simp
  then have dist: "distinct (map d_handle (dials w))" by (simp add: world_inv_def Let_def)
  have "List.find (\<lambda>x. d_handle x = d_handle d) (dials w) = Some d"
    using find_handle[of "d_handle d" "dials w"] dist assms(3) by (auto simp: distinct_map dest: inj_onD)
  then have "enabled op w \<and> exec sm op w = Some ?w1"
    using assms(3,4) by (auto simp: Let_def dial_received_def list_ex_iff intro!: bexI[of _ d])
  moreover from ghost_kept[OF assms(1) ghost_insert[OF inv assms(3)], of after] obtain w' d' where
    w': "run_ops sm after ?w1 = Some w'" "d_handle d' = d_handle d" "world_inv sm (ghost d' w')" by blast
  ultimately show ?thesis using ghost_leaks[OF w'(3)] by simp
qed

definition demo_dial :: dial where
  "demo_dial = \<lparr>d_handle = 0, d_tx = 0, d_answer = None\<rparr>"

theorem abandoned_dial_leaks_witness:
  "\<exists>w w'. run_ops slot_smoltcp [Dial True (SockV6 1 80 0 0) 5] (new_world (netstack_new slot_smoltcp () 1 65535)) = Some w \<and>
     run_ops slot_smoltcp [Dial_Cancelled 0, Cycle Notified [] 0 0 0] w = Some w' \<and>
     kinds slot_smoltcp (sockets (state (ns w'))) 0 = Some Tcp_Socket \<and> 0 \<notin> set (owned_tcp w')"
proof -
  obtain w where w: "run_ops slot_smoltcp [Dial True (SockV6 1 80 0 0) 5] (new_world (netstack_new slot_smoltcp () 1 65535)) = Some w"
    "dials w = [demo_dial]"
    by (simp add: new_world_def netstack_new_def dial_begin_def new_tcp_socket_def slot_smoltcp_def slot_add_def Let_def notify_one_def demo_dial_def)
  from abandoned_dial_leaks[OF slot_smoltcp_ok w(1), of demo_dial "Dial_Cancelled 0" "[]" "[Cycle Notified [] 0 0 0]"] w
  show ?thesis by (auto simp: demo_dial_def)
qed

theorem failed_handshake_reclaimed_witness:
  "\<exists>r n'. dial_finish slot_smoltcp 0 None 5
      ((netstack_new slot_smoltcp () 1 65535)\<lparr>state := demo_closing\<lparr>closing := []\<rparr>\<rparr>) = Some (r, n') \<and>
     closing (state n') = [(0, 5)]"
proof -
  let ?n = "(netstack_new slot_smoltcp () 1 65535)\<lparr>state := demo_closing\<lparr>closing := []\<rparr>\<rparr>"
  have "sock slot_smoltcp Tcp_Socket ?n 0 = Some \<lparr>slot_kind = Tcp_Socket, slot_state = St_FinWait1\<rparr>"
    by (simp add: get_sock_def slot_smoltcp_simps demo_closing_def slot_get_def)
  from failed_handshake_reclaimed[OF slot_smoltcp_ok this, of None 5] show ?thesis by auto
qed

section \<open>Joining the tasks\<close>

lemma join_with_grace_bounds:
  "join_with_grace b now = (t, aborted) \<Longrightarrow>
   now \<le> t \<and> t \<le> now + from_secs 2 + bg_abort b \<and>
   (aborted \<longleftrightarrow> (case bg_ends b of Some e \<Rightarrow> now + from_secs 2 < e | None \<Rightarrow> True)) \<and>
   (\<not> aborted \<longrightarrow> (\<exists>e. bg_ends b = Some e \<and> e \<le> t))"
  by (auto simp: join_with_grace_def Let_def split: option.splits if_splits)

lemma join_all_bounds:
  "join_all bs now = (t, aborted) \<Longrightarrow>
   now \<le> t \<and> t \<le> now + (\<Sum>b\<leftarrow>bs. from_secs 2 + bg_abort b) \<and> length aborted = length bs \<and>
   (\<forall>i<length bs. \<not> aborted ! i \<longrightarrow> (\<exists>e. bg_ends (bs ! i) = Some e \<and> e \<le> t))"
proof (induction bs arbitrary: now t aborted)
  case (Cons b bs)
  obtain t1 a where 1: "join_with_grace b now = (t1, a)" by fastforce
  obtain t2 as where 2: "join_all bs t1 = (t2, as)" by fastforce
  from Cons.prems 1 2 have r: "t = t2" "aborted = a # as" by simp_all
  from join_with_grace_bounds[OF 1] Cons.IH[OF 2] show ?case
    by (auto simp: r nth_Cons less_Suc_eq_0_disj split: nat.split intro: order_trans)
qed simp

text \<open>Shutting down waits at most two seconds for each background task
  beyond the time an aborted task takes to stop; when it returns every task has ended by itself or
  has been aborted, and a second shutdown returns at once.\<close>
theorem shutdown_joins_bounded:
  "\<exists>t aborted. shutdown_join (Some bs) = (t, aborted, None) \<and>
     t \<le> length bs * from_secs 2 + (\<Sum>b\<leftarrow>bs. bg_abort b) \<and> length aborted = length bs \<and>
     list_all2 (\<lambda>b a. a \<or> (\<exists>e. bg_ends b = Some e \<and> e \<le> t)) bs aborted \<and>
     shutdown_join None = (0, [], None)"
proof -
  obtain t aborted where j: "join_all bs 0 = (t, aborted)" by fastforce
  have "(\<Sum>b\<leftarrow>bs. from_secs 2 + bg_abort b) = length bs * from_secs 2 + (\<Sum>b\<leftarrow>bs. bg_abort b)"
    by (induction bs) simp_all
  with join_all_bounds[OF j] j show ?thesis by (auto simp: shutdown_join_def list_all2_conv_all_nth)
qed

end
