(* ===== verification/Ping.thy ===== *)
theory Ping
  imports Std_Io Std_Net
begin

text \<open>
  Ping sessions, \<open>ping.rs\<close>.  \<open>run_ping\<close> is a loop over three kinds of awaits: the echo request
  it sends, the wait for its reply (a \<open>select!\<close> of the stop signal and a reply with a time
  limit), and the pause between probes (a \<open>select!\<close> of the timer and the stop signal).  The
  model takes the outcome of every await from a script, one record per probe, and logs the
  echo requests and the reported events in order; a script that ends before the session does
  leaves the session running.  The results: the log alternates requests and results with
  consecutive sequence numbers and ends in exactly one \<open>Done\<close> event, a bounded session
  completes, and the range check is membership in \<open>200::/7\<close>.
\<close>

section \<open>Events\<close>

definition PING_PAYLOAD_LEN :: nat where "PING_PAYLOAD_LEN = 56"

datatype PingDoneReason = Completed | Stopped | Failed

datatype PingEvent =
    Probe u16 "duration option" "string option"
  | Done PingDoneReason

definition is_ygg_address :: "ipv6 \<Rightarrow> bool" where
  "is_ygg_address addr \<longleftrightarrow> segments addr ! 0 AND 0xFE00 = 0x0200"

text \<open>The payload: the pattern repeated until it is long enough, then cut.\<close>

definition ping_pattern :: bytes where
  "ping_pattern = str_bytes ''yggstack-ng ping ''"

function extend_payload :: "bytes \<Rightarrow> bytes" where
  "extend_payload p =
     (if length p < PING_PAYLOAD_LEN then extend_payload (p @ ping_pattern) else p)"
  by pat_completeness auto

lemma length_ping_pattern [simp]: "length ping_pattern = 17"
  by (simp add: ping_pattern_def str_bytes_def)

termination extend_payload
  by (relation "measure (\<lambda>p. PING_PAYLOAD_LEN - length p)") auto

declare extend_payload.simps [simp del]

definition ping_payload :: bytes where
  "ping_payload = take PING_PAYLOAD_LEN (extend_payload [])"

section \<open>One session\<close>

text \<open>What ended one wait for a reply, with the time since the probe was sent: the stop
  signal, a reply (its sequence number and source), a socket error, or the time limit.\<close>

datatype wake = Stop_Fired | Reply u16 ipv6 | Recv_Error io_error | Time_Limit

record ping_script =
  send_result :: "io_error + unit"
  wakes :: "(wake \<times> duration) list"
  stop_in_pause :: bool

datatype ping_act = Echo ipv6 u16 bytes | Report PingEvent

datatype recv_outcome = Got_Reply duration | No_Reply | Wait_Stopped | Wait_Failed io_error

text \<open>The inner loop \<open>'recv\<close>.  \<open>checked_sub\<close> fails once more than \<open>timeout\<close> has elapsed; a
  reply with another sequence number is drained.  \<open>None\<close>: the script ends while waiting.\<close>

fun recv_loop :: "duration \<Rightarrow> u16 \<Rightarrow> duration \<Rightarrow> (wake \<times> duration) list \<Rightarrow> recv_outcome option" where
  "recv_loop timeout seq elapsed ws =
     (if timeout < elapsed then Some No_Reply
      else case ws of
          [] \<Rightarrow> None
        | (Stop_Fired, t) # _ \<Rightarrow> Some Wait_Stopped
        | (Recv_Error e, t) # _ \<Rightarrow> Some (Wait_Failed e)
        | (Time_Limit, t) # _ \<Rightarrow> Some No_Reply
        | (Reply reply_seq src, t) # ws' \<Rightarrow>
            if reply_seq = seq then Some (Got_Reply t) else recv_loop timeout seq t ws')"

declare recv_loop.simps [simp del]

definition probe_event :: "u16 \<Rightarrow> duration option \<Rightarrow> PingEvent" where
  "probe_event seq rtt =
     (case rtt of
        Some t \<Rightarrow> Probe seq (Some t) None
      | None \<Rightarrow> Probe seq None (Some ''timeout''))"

text \<open>The outer loop.  \<open>sent\<close> counts at 32 bits, \<open>seq\<close> at 16.\<close>

fun ping_loop ::
  "ipv6 \<Rightarrow> u32 \<Rightarrow> duration \<Rightarrow> u16 \<Rightarrow> u32 \<Rightarrow> ping_script list \<Rightarrow> ping_act list" where
  "ping_loop dst cnt timeout seq sent scripts =
     (if cnt \<noteq> 0 \<and> cnt \<le> sent then [Report (Done Completed)]
      else case scripts of
          [] \<Rightarrow> []
        | p # ps \<Rightarrow>
            let seq = seq + 1 in
            (case send_result p of
               Inl e \<Rightarrow> [Echo dst seq ping_payload, Report (Done Failed)]
             | Inr _ \<Rightarrow>
                 let sent = sent + 1;
                     finish = (\<lambda>rtt. Report (probe_event seq rtt) #
                       (if (cnt = 0 \<or> sent < cnt) \<and> stop_in_pause p
                        then [Report (Done Stopped)]
                        else ping_loop dst cnt timeout seq sent ps))
                 in Echo dst seq ping_payload #
                    (case recv_loop timeout seq 0 (wakes p) of
                       None \<Rightarrow> []
                     | Some Wait_Stopped \<Rightarrow> [Report (Done Stopped)]
                     | Some (Wait_Failed e) \<Rightarrow> [Report (Done Failed)]
                     | Some (Got_Reply t) \<Rightarrow> finish (Some t)
                     | Some No_Reply \<Rightarrow> finish None)))"

declare ping_loop.simps [simp del]

definition run_ping ::
  "io_error + unit \<Rightarrow> ipv6 \<Rightarrow> u32 \<Rightarrow> duration \<Rightarrow> ping_script list \<Rightarrow> ping_act list" where
  "run_ping opened dst cnt timeout scripts =
     (case opened of
        Inl e \<Rightarrow> [Report (Done Failed)]
      | Inr _ \<Rightarrow> ping_loop dst cnt timeout 0 0 scripts)"

section \<open>The payload and the range check\<close>



lemma extend_payload_long: "PING_PAYLOAD_LEN \<le> length (extend_payload p)"
  by (induction p rule: extend_payload.induct) (subst extend_payload.simps, simp)

lemma length_ping_payload [simp]: "length ping_payload = 56"
  using extend_payload_long[of "[]"] by (simp add: ping_payload_def PING_PAYLOAD_LEN_def)

lemma segment0: "segments a ! 0 = ucast (drop_bit 112 a)"
  by (simp add: segments_def split_be_def)

lemma mask_7_of_16: "(w :: u16) AND 0xFE00 = 0x0200 \<longleftrightarrow> drop_bit 9 w = 1"
proof -
  have "w AND 0xFE00 = push_bit 9 (drop_bit 9 w)"
  proof (rule bit_word_eqI)
    fix n assume "n < LENGTH(16)"
    then have "n \<in> {0,1,2,3,4,5,6,7,8,9,10,11,12,13,14,15}"
      by (simp, presburger)
    then show "bit (w AND 0xFE00) n = bit (push_bit 9 (drop_bit 9 w)) n"
      by (auto simp: bit_and_iff bit_push_bit_iff bit_drop_bit_eq bit_numeral_rec)
  qed
  moreover have "push_bit 9 (drop_bit 9 w) = 0x0200 \<longleftrightarrow> drop_bit 9 w = 1"
  proof
    assume a: "push_bit 9 (drop_bit 9 w) = 0x0200"
    have "drop_bit 9 (push_bit 9 (drop_bit 9 w)) = drop_bit 9 w"
      by (rule bit_word_eqI) (auto simp: bit_push_bit_iff bit_drop_bit_eq dest: bit_imp_le_length)
    with a show "drop_bit 9 w = 1" by (simp add: drop_bit_numeral_bit0)
  qed simp
  ultimately show ?thesis by simp
qed

text \<open>C27. \<open>is_ygg_address\<close> tests the first 16-bit segment under a mask; an
  address passes exactly when its leading seven bits are \<open>0000001\<close>, that is, when it lies in
  \<open>200::/7\<close>.\<close>
theorem ygg_range_is_200_7: "is_ygg_address a \<longleftrightarrow> drop_bit 121 a = 1"
proof -
  have "drop_bit 9 (segments a ! 0) = ucast (drop_bit 121 a)"
    unfolding segment0
    by (rule bit_word_eqI) (auto simp: bit_drop_bit_eq bit_ucast_iff add.commute dest: bit_imp_le_length)
  moreover have "(ucast (drop_bit 121 a) :: u16) = 1 \<longleftrightarrow> drop_bit 121 a = 1"
  proof
    assume e: "(ucast (drop_bit 121 a) :: u16) = 1"
    show "drop_bit 121 a = 1"
    proof (rule bit_word_eqI)
      fix n assume n: "n < LENGTH(128)"
      show "bit (drop_bit 121 a) n = bit (1 :: ipv6) n"
      proof (cases "n < 16")
        case True
        with n arg_cong[OF e, of "\<lambda>w. bit w n"] show ?thesis by (simp add: bit_ucast_iff bit_1_iff)
      next
        case False
        then have "\<not> bit a (121 + n)" by (auto dest: bit_imp_le_length)
        with False show ?thesis by (simp add: bit_drop_bit_eq bit_1_iff)
      qed
    qed
  qed simp
  ultimately show ?thesis by (simp add: is_ygg_address_def mask_7_of_16)
qed

section \<open>Waiting for a reply\<close>

lemma recv_loop_Cons:
  "elapsed \<le> timeout \<Longrightarrow> recv_loop timeout seq elapsed ((Reply q src, t) # ws) =
     (if q = seq then Some (Got_Reply t) else recv_loop timeout seq t ws)"
  by (subst recv_loop.simps) simp

lemma recv_loop_ends:
  assumes "(w, t) \<in> set ws" and "timeout < t \<or> (\<forall>q src. w \<noteq> Reply q src)"
  shows "\<exists>r. recv_loop timeout seq elapsed ws = Some r"
  using assms
proof (induction timeout seq elapsed ws rule: recv_loop.induct)
  case (1 timeout seq elapsed ws)
  show ?case
  proof (cases ws)
    case (Cons v vs)
    obtain u d where v: "v = (u, d)" by fastforce
    show ?thesis
    proof (cases "elapsed \<le> timeout")
      case True
      show ?thesis
      proof (cases u)
        case (Reply q src)
        show ?thesis
        proof (cases "q \<noteq> seq \<and> d \<le> timeout")
          case in_time: True
          with "1.prems" Cons v Reply have "(w, t) \<in> set vs" by auto
          with "1.IH"[of v vs u d q src] Cons v Reply in_time True "1.prems"
          show ?thesis by (simp add: recv_loop_Cons)
        next
          case False
          with True Cons v Reply show ?thesis
            by (auto simp: recv_loop_Cons) (simp add: recv_loop.simps)
        qed
      qed (use True Cons v in \<open>simp_all add: recv_loop.simps\<close>)
    qed (simp add: recv_loop.simps)
  qed (use "1.prems" in simp)
qed

lemma late_replies_drained:
  assumes "list_all (\<lambda>(w, t). t \<le> timeout \<and> (\<exists>q src. w = Reply q src \<and> q \<noteq> seq)) pre"
    and "elapsed \<le> timeout"
  shows "recv_loop timeout seq elapsed (pre @ (Reply seq src, t) # post) = Some (Got_Reply t)"
  using assms by (induction pre arbitrary: elapsed) (auto simp: recv_loop_Cons)

lemma reply_found:
  assumes "recv_loop timeout seq elapsed ws = Some (Got_Reply t)"
  shows "\<exists>pre src post. ws = pre @ (Reply seq src, t) # post \<and>
    list_all (\<lambda>(w, t). t \<le> timeout \<and> (\<exists>q src. w = Reply q src \<and> q \<noteq> seq)) pre"
  using assms
proof (induction timeout seq elapsed ws rule: recv_loop.induct)
  case (1 timeout seq elapsed ws)
  from "1.prems" obtain q src u vs where ws: "ws = (Reply q src, u) # vs" and le: "elapsed \<le> timeout"
    by (subst (asm) recv_loop.simps) (auto split: if_splits list.splits wake.splits)
  show ?case
  proof (cases "q = seq")
    case True
    with "1.prems" ws le show ?thesis by (intro exI[of _ "[]"]) (auto simp: recv_loop_Cons)
  next
    case False
    with "1.prems" ws le have r: "recv_loop timeout seq u vs = Some (Got_Reply t)"
      by (simp add: recv_loop_Cons)
    then have "u \<le> timeout" by (subst (asm) recv_loop.simps) (auto split: if_splits)
    moreover from "1.IH"[of "(Reply q src, u)" vs "Reply q src" u q src] False ws le r obtain pre s post
      where "vs = pre @ (Reply seq s, t) # post"
        "list_all (\<lambda>(w, t). t \<le> timeout \<and> (\<exists>q src. w = Reply q src \<and> q \<noteq> seq)) pre"
      by auto
    ultimately show ?thesis using False ws
      by (intro exI[of _ "(Reply q src, u) # pre"]) auto
  qed
qed

text \<open>A probe is answered by the first reply that carries its
  sequence number; replies to earlier probes that arrive before it are drained without ending
  the wait, as long as the time limit has not passed, and nothing else yields a round-trip
  time.\<close>
theorem first_matching_reply_counts:
  "recv_loop timeout seq 0 ws = Some (Got_Reply t) \<longleftrightarrow>
     (\<exists>pre src post. ws = pre @ (Reply seq src, t) # post \<and>
        list_all (\<lambda>(w, t). t \<le> timeout \<and> (\<exists>q src. w = Reply q src \<and> q \<noteq> seq)) pre)"
  using late_replies_drained[of timeout seq _ 0] reply_found[of timeout seq 0 ws t] by auto

section \<open>The log of a session\<close>

text \<open>The part of a log that belongs to finished probes, the first of them numbered \<open>k\<close>, and
  the ways a log can end after \<open>n\<close> finished probes.\<close>

fun probe_log :: "ipv6 \<Rightarrow> nat \<Rightarrow> duration option list \<Rightarrow> ping_act list" where
  "probe_log dst k [] = []"
| "probe_log dst k (r # rs) =
     Echo dst (of_nat k) ping_payload # Report (probe_event (of_nat k) r) # probe_log dst (Suc k) rs"

definition may_probe :: "u32 \<Rightarrow> nat \<Rightarrow> bool" where
  "may_probe cnt n \<longleftrightarrow> cnt = 0 \<or> n < unat cnt"

definition log_ending :: "ipv6 \<Rightarrow> u32 \<Rightarrow> nat \<Rightarrow> ping_act list \<Rightarrow> bool" where
  "log_ending dst cnt n tail \<longleftrightarrow>
     tail = [Report (Done Completed)] \<and> cnt \<noteq> 0 \<and> n = unat cnt \<or>
     tail = [] \<and> may_probe cnt n \<or>
     tail = [Report (Done Stopped)] \<and> 0 < n \<and> may_probe cnt n \<or>
     may_probe cnt n \<and>
       tail \<in> Cons (Echo dst (of_nat (Suc n)) ping_payload) `
         {[], [Report (Done Stopped)], [Report (Done Failed)]}"

definition counts_ok :: "u32 \<Rightarrow> u32 \<Rightarrow> nat \<Rightarrow> bool" where
  "counts_ok cnt sent n \<longleftrightarrow> (cnt \<noteq> 0 \<longrightarrow> sent = of_nat n \<and> n \<le> unat cnt)"

lemma counts_ok_sent: "counts_ok cnt sent n \<Longrightarrow> cnt \<noteq> 0 \<Longrightarrow> unat sent = n"
  using unsigned_less[of cnt, where 'a = nat]
  by (auto simp: counts_ok_def unat_of_nat take_bit_nat_eq_self)

lemma counts_ok_step:
  assumes "counts_ok cnt sent n" and "\<not> (cnt \<noteq> 0 \<and> cnt \<le> sent)"
  shows "counts_ok cnt (sent + 1) (Suc n)" and "may_probe cnt n"
proof -
  from assms have "cnt \<noteq> 0 \<Longrightarrow> n < unat cnt"
    using counts_ok_sent[OF assms(1)] by (auto simp: word_le_nat_alt)
  with assms(1) show "counts_ok cnt (sent + 1) (Suc n)" "may_probe cnt n"
    by (auto simp: counts_ok_def may_probe_def)
qed

lemma counts_ok_pause:
  "counts_ok cnt sent n \<Longrightarrow> (cnt = 0 \<or> sent < cnt) \<longleftrightarrow> may_probe cnt n"
  using counts_ok_sent[of cnt sent n] by (auto simp: may_probe_def word_less_nat_alt)

text \<open>The shape of every log, with the number of finished probes.\<close>

definition log_shape :: "ipv6 \<Rightarrow> u32 \<Rightarrow> nat \<Rightarrow> ping_act list \<Rightarrow> bool" where
  "log_shape dst cnt n acts \<longleftrightarrow>
     (\<exists>rtts tail. acts = probe_log dst (Suc n) rtts @ tail \<and> log_ending dst cnt (n + length rtts) tail)"

lemma log_shape_end: "log_ending dst cnt n acts \<Longrightarrow> log_shape dst cnt n acts"
  unfolding log_shape_def by (intro exI[of _ "[]"] exI[of _ acts]) simp

lemma log_shape_probe:
  assumes "log_shape dst cnt (Suc n) acts"
  shows "log_shape dst cnt n (Echo dst (of_nat (Suc n)) ping_payload #
    Report (probe_event (of_nat (Suc n)) r) # acts)"
proof -
  from assms obtain rtts tail where "acts = probe_log dst (Suc (Suc n)) rtts @ tail"
    "log_ending dst cnt (Suc n + length rtts) tail"
    unfolding log_shape_def by blast
  then show ?thesis
    unfolding log_shape_def by (intro exI[of _ "r # rtts"] exI[of _ tail]) simp
qed

lemma ping_loop_shape:
  assumes "counts_ok cnt sent n"
  shows "log_shape dst cnt n (ping_loop dst cnt timeout (of_nat n) sent scripts)"
  using assms
proof (induction scripts arbitrary: n sent)
  case Nil
  show ?case
  proof (cases "cnt \<noteq> 0 \<and> cnt \<le> sent")
    case True
    with Nil counts_ok_sent[OF Nil] show ?thesis
      by (intro log_shape_end) (auto simp: ping_loop.simps log_ending_def counts_ok_def word_le_nat_alt)
  next
    case False
    with counts_ok_step(2)[OF Nil False] show ?thesis
      by (intro log_shape_end) (subst ping_loop.simps, auto simp: log_ending_def)
  qed
next
  case (Cons p ps)
  show ?case
  proof (cases "cnt \<noteq> 0 \<and> cnt \<le> sent")
    case True
    with Cons.prems counts_ok_sent[OF Cons.prems] show ?thesis
      by (intro log_shape_end) (auto simp: ping_loop.simps log_ending_def counts_ok_def word_le_nat_alt)
  next
    case False
    note st = counts_ok_step[OF Cons.prems False]
    have seq: "of_nat n + 1 = (of_nat (Suc n) :: u16)" by simp
    have loop: "log_shape dst cnt n (Echo dst (of_nat (Suc n)) ping_payload #
        Report (probe_event (of_nat (Suc n)) r) #
        ping_loop dst cnt timeout (of_nat (Suc n)) (sent + 1) ps)" for r
      by (rule log_shape_probe[OF Cons.IH[OF st(1)]])
    have paused: "log_shape dst cnt n (Echo dst (of_nat (Suc n)) ping_payload #
        Report (probe_event (of_nat (Suc n)) r) # [Report (Done Stopped)])"
      if "cnt = 0 \<or> sent + 1 < cnt" for r
      using counts_ok_pause[OF st(1)] that
      by (intro log_shape_probe log_shape_end) (simp add: log_ending_def)
    have ended: "log_shape dst cnt n (Echo dst (of_nat (Suc n)) ping_payload # rest)"
      if "rest \<in> {[], [Report (Done Stopped)], [Report (Done Failed)]}" for rest
      using st(2) that by (intro log_shape_end) (auto simp: log_ending_def)
    show ?thesis
      using False loop paused ended
      by (subst ping_loop.simps)
        (auto simp: Let_def seq simp del: of_nat_Suc split: sum.splits option.splits recv_outcome.splits)
  qed
qed

text \<open>Whatever the network and the caller do, the log of a session that got
  its socket is: the probes \<open>1, 2, \<dots>\<close> in order (numbered modulo \<open>2^16\<close>), each an echo request
  with the fixed payload followed by its one result, then one of the endings: \<open>Completed\<close>
  exactly after \<open>count\<close> results of a bounded session, \<open>Stopped\<close> in the pause after a result,
  or a further request, never beyond \<open>count\<close>, whose wait is still open, was stopped or
  failed.  So no result follows \<open>Done\<close>, and an interrupted probe reports none.\<close>
theorem ping_log_shape:
  "\<exists>rtts tail. run_ping (Inr ()) dst cnt timeout scripts = probe_log dst 1 rtts @ tail \<and>
     log_ending dst cnt (length rtts) tail"
  using ping_loop_shape[of cnt 0 0 dst timeout scripts]
  by (simp add: run_ping_def log_shape_def counts_ok_def)

section \<open>Completion\<close>

text \<open>A probe that is sent, whose wait ends without a stop or an error, and whose pause is not
  interrupted.\<close>

definition probe_settles :: "duration \<Rightarrow> ping_script \<Rightarrow> bool" where
  "probe_settles timeout p \<longleftrightarrow> send_result p = Inr () \<and> \<not> stop_in_pause p \<and>
     list_all (\<lambda>(w, t). w = Time_Limit \<or> (\<exists>q src. w = Reply q src)) (wakes p) \<and>
     list_ex (\<lambda>(w, t). w = Time_Limit \<or> timeout < t) (wakes p)"

lemma recv_loop_quiet:
  assumes "list_all (\<lambda>(w, t). w = Time_Limit \<or> (\<exists>q src. w = Reply q src)) ws"
  shows "recv_loop timeout seq elapsed ws = None \<or> recv_loop timeout seq elapsed ws = Some No_Reply \<or>
    (\<exists>t. recv_loop timeout seq elapsed ws = Some (Got_Reply t))"
  using assms
proof (induction ws arbitrary: elapsed)
  case (Cons w ws)
  obtain u t where w: "w = (u, t)" by fastforce
  have ws: "list_all (\<lambda>(w, t). w = Time_Limit \<or> (\<exists>q src. w = Reply q src)) ws" using Cons.prems by simp
  show ?case
  proof (cases u)
    case (Reply q src)
    show ?thesis
    proof (cases "elapsed \<le> timeout \<and> q \<noteq> seq")
      case True
      with w Reply Cons.IH[OF ws, of t] show ?thesis by (simp add: recv_loop_Cons)
    next
      case False
      with w Reply show ?thesis by (auto simp: recv_loop_Cons recv_loop.simps)
    qed
  qed (use w Cons.prems in \<open>simp_all add: recv_loop.simps\<close>)
qed (simp add: recv_loop.simps)

lemma probe_settles_recv:
  assumes "probe_settles timeout p"
  shows "recv_loop timeout seq 0 (wakes p) = Some No_Reply \<or>
    (\<exists>t. recv_loop timeout seq 0 (wakes p) = Some (Got_Reply t))"
proof -
  from assms obtain w t where "(w, t) \<in> set (wakes p)" "timeout < t \<or> (\<forall>q src. w \<noteq> Reply q src)"
    by (auto simp: probe_settles_def list_ex_iff)
  from recv_loop_ends[OF this, of seq 0] recv_loop_quiet[of "wakes p" timeout seq 0] assms
  show ?thesis by (auto simp: probe_settles_def)
qed

lemma ping_loop_completes:
  assumes "list_all (probe_settles timeout) scripts" and "cnt \<noteq> 0"
    and "counts_ok cnt sent n" and "unat cnt - n \<le> length scripts"
  shows "\<exists>rtts. length rtts = unat cnt - n \<and>
    ping_loop dst cnt timeout (of_nat n) sent scripts =
      probe_log dst (Suc n) rtts @ [Report (Done Completed)]"
  using assms
proof (induction scripts arbitrary: n sent)
  case Nil
  with counts_ok_sent[of cnt sent n] show ?case by (subst ping_loop.simps) (simp add: word_le_nat_alt)
next
  case (Cons p ps)
  show ?case
  proof (cases "cnt \<le> sent")
    case True
    with Cons.prems counts_ok_sent[of cnt sent n] show ?thesis
      by (subst ping_loop.simps) (simp add: word_le_nat_alt)
  next
    case False
    with counts_ok_step[OF Cons.prems(3)] have st: "counts_ok cnt (sent + 1) (Suc n)" "n < unat cnt"
      using Cons.prems(2) by (auto simp: may_probe_def)
    then have "unat cnt - Suc n \<le> length ps" using Cons.prems(4) by simp
    with Cons.IH[OF _ Cons.prems(2) st(1)] Cons.prems(1) obtain rtts where rtts:
      "length rtts = unat cnt - Suc n"
      "ping_loop dst cnt timeout (of_nat (Suc n)) (sent + 1) ps =
         probe_log dst (Suc (Suc n)) rtts @ [Report (Done Completed)]" by (auto simp del: of_nat_Suc)
    have seq: "of_nat n + 1 = (of_nat (Suc n) :: u16)" by simp
    from Cons.prems(1) have p: "send_result p = Inr ()" "\<not> stop_in_pause p"
      and "probe_settles timeout p" by (simp_all add: probe_settles_def)
    from probe_settles_recv[OF this(3), of "of_nat (Suc n)"]
    have "\<exists>r. ping_loop dst cnt timeout (of_nat n) sent (p # ps) =
         Echo dst (of_nat (Suc n)) ping_payload # Report (probe_event (of_nat (Suc n)) r) #
         ping_loop dst cnt timeout (of_nat (Suc n)) (sent + 1) ps"
      using False p Cons.prems(2)
      by (subst ping_loop.simps) (auto simp: Let_def seq simp del: of_nat_Suc)
    then obtain r where "ping_loop dst cnt timeout (of_nat n) sent (p # ps) =
         Echo dst (of_nat (Suc n)) ping_payload # Report (probe_event (of_nat (Suc n)) r) #
         ping_loop dst cnt timeout (of_nat (Suc n)) (sent + 1) ps" ..
    with rtts st(2) show ?thesis by (intro exI[of _ "r # rtts"]) simp
  qed
qed

text \<open>C22. A session of \<open>count > 0\<close> probes that is not stopped, whose requests
  are sent and whose waits meet no error, each ending by the time limit or by a reply past it
  at the latest, finishes: it reports exactly \<open>count\<close> results and then \<open>Completed\<close>.\<close>
theorem bounded_ping_completes:
  assumes "cnt \<noteq> 0" and "unat cnt \<le> length scripts"
    and "list_all (probe_settles timeout) scripts"
  shows "\<exists>rtts. length rtts = unat cnt \<and>
    run_ping (Inr ()) dst cnt timeout scripts = probe_log dst 1 rtts @ [Report (Done Completed)]"
  using ping_loop_completes[of timeout scripts cnt 0 0 dst] assms
  by (simp add: run_ping_def counts_ok_def)

definition demo_probe :: "(wake \<times> duration) list \<Rightarrow> ping_script" where
  "demo_probe ws = \<lparr>send_result = Inr (), wakes = ws, stop_in_pause = False\<rparr>"

text \<open>Two probes: the first times out, its late reply is drained while the second waits.\<close>
theorem bounded_ping_completes_witness:
  "\<exists>rtts. length rtts = 2 \<and>
    run_ping (Inr ()) 5 2 100
      [demo_probe [(Time_Limit, 100)], demo_probe [(Reply 1 5, 7), (Reply 2 5, 9), (Time_Limit, 100)]] =
      probe_log 5 1 rtts @ [Report (Done Completed)]"
  using bounded_ping_completes[of 2
      "[demo_probe [(Time_Limit, 100)], demo_probe [(Reply 1 5, 7), (Reply 2 5, 9), (Time_Limit, 100)]]" 100 5]
  by (simp add: probe_settles_def demo_probe_def)

lemma demo_ping:
  "run_ping (Inr ()) 5 2 100
      [demo_probe [(Time_Limit, 100)], demo_probe [(Reply 1 5, 7), (Reply 2 5, 9), (Time_Limit, 100)]] =
   [Echo 5 1 ping_payload, Report (Probe 1 None (Some ''timeout'')),
    Echo 5 2 ping_payload, Report (Probe 2 (Some 9) None), Report (Done Completed)]"
  by (simp add: run_ping_def ping_loop.simps recv_loop.simps probe_event_def demo_probe_def
      word_le_nat_alt word_less_nat_alt)

end
