(* ===== verification/Quic_Check.thy ===== *)
theory Quic_Check
  imports Std_Net "HOL-Library.List_Lexorder"
begin

text \<open>
  The QUIC round-trip check, \<open>crates/yggstack-mobile/src/quic_check.rs\<close>: the target parser,
  the dial loop over the resolved addresses, and the time budget around it.  Name resolution
  and the QUIC/TLS stack are parameters: the outcome of the lookup and of the attempt on each
  address, with the time each takes.  \<open>SocketAddr\<close> gets the order \<open>derive(Ord)\<close> gives it, so that
  \<open>sort_unstable\<close> is the library's \<open>sort\<close>.
\<close>

section \<open>The order of socket addresses\<close>

text \<open>The derived order compares the variants first (\<open>V4\<close> before \<open>V6\<close>), then the fields in
  order: address, port, and for IPv6 the flow label and the scope.\<close>

fun sock_key :: "socket_addr \<Rightarrow> nat list" where
  "sock_key (SockV4 a p) = [0, unat a, unat p]"
| "sock_key (SockV6 a p f sc) = [1, unat a, unat p, unat f, unat sc]"

lemma sock_key_inject: "sock_key a = sock_key b \<longleftrightarrow> a = b"
  by (cases a; cases b) (auto intro: unsigned_word_eqI)

instantiation socket_addr :: linorder
begin

definition less_eq_socket_addr :: "socket_addr \<Rightarrow> socket_addr \<Rightarrow> bool" where
  "a \<le> b \<longleftrightarrow> sock_key a \<le> sock_key b"

definition less_socket_addr :: "socket_addr \<Rightarrow> socket_addr \<Rightarrow> bool" where
  "a < b \<longleftrightarrow> sock_key a < sock_key b"

instance
  by standard
    (auto simp: less_eq_socket_addr_def less_socket_addr_def sock_key_inject[symmetric])

end

fun is_ipv6 :: "socket_addr \<Rightarrow> bool" where
  "is_ipv6 (SockV6 a p f sc) = True"
| "is_ipv6 (SockV4 a p) = False"

lemma v4_before_v6: "a \<le> b \<Longrightarrow> is_ipv6 a \<Longrightarrow> is_ipv6 b"
  by (cases a; cases b) (auto simp: less_eq_socket_addr_def Cons_le_Cons)

section \<open>Model\<close>

definition CHECK_TIMEOUT :: duration where "CHECK_TIMEOUT = from_secs 5"

definition bracketed :: "string \<Rightarrow> (string \<times> string) option" where
  "bracketed rest = Option.bind (strip_prefix ''['' rest) (split_once (CHR '']''))"

definition host_part :: "string \<Rightarrow> string option" where
  "host_part rest =
     (case bracketed rest of
        Some inner \<Rightarrow>
          (case strip_prefix '':'' (snd inner) of
             Some (c # p) \<Rightarrow> Some (''['' @ fst inner @ '']:'' @ (c # p))
           | _ \<Rightarrow> Some (''['' @ fst inner @ '']:443''))
      | None \<Rightarrow>
          (case rsplit_once (CHR '':'') rest of
             Some (host, port) \<Rightarrow>
               if port \<noteq> [] \<and> list_all (is_radix_digit 10) port then Some rest
               else Some (rest @ '':443'')
           | None \<Rightarrow> Some (rest @ '':443'')))"

definition parse_target :: "string \<Rightarrow> string option" where
  "parse_target uri =
     (let rest = (case strip_prefix ''quic://'' uri of Some r \<Rightarrow> r | None \<Rightarrow> uri);
          rest = trim (hd (str_split (CHR ''?'') rest))
      in if rest = [] then None else host_part rest)"

text \<open>One attempt: the endpoint cannot be bound, the connect call fails, or the handshake fails
  or succeeds after some time.\<close>

datatype 'conn attempt =
    Bind_Error string
  | Connect_Error string
  | Handshake_Error string duration
  | Connected 'conn duration

record 'conn quic_env =
  lookup_host :: "string \<Rightarrow> (string + socket_addr list) \<times> duration"
  tls13_config :: "string + unit"
  quic_config :: "string + unit"
  attempt_on :: "socket_addr \<Rightarrow> string \<Rightarrow> socket_addr \<Rightarrow> 'conn attempt"

definition bind_for :: "socket_addr \<Rightarrow> socket_addr" where
  "bind_for addr = (if is_ipv6 addr then SockV6 0 0 0 0 else SockV4 0 0)"

text \<open>The loop over the addresses, with the last error and the time spent so far.\<close>

fun dial_all ::
  "'conn quic_env \<Rightarrow> string \<Rightarrow> string \<Rightarrow> duration \<Rightarrow> socket_addr list \<Rightarrow> (string + 'conn) \<times> duration" where
  "dial_all env server_name last_err t [] = (Inl last_err, t)"
| "dial_all env server_name last_err t (addr # addrs) =
     (case attempt_on env (bind_for addr) server_name addr of
        Bind_Error e \<Rightarrow> (Inl (''bind: '' @ e), t)
      | Connect_Error e \<Rightarrow> dial_all env server_name (''connect: '' @ e) t addrs
      | Handshake_Error e d \<Rightarrow> dial_all env server_name (''handshake: '' @ e) (t + d) addrs
      | Connected conn d \<Rightarrow> (Inr conn, t + d))"

definition server_name_of :: "string \<Rightarrow> string" where
  "server_name_of target =
     trim_end_matches (\<lambda>c. c = CHR '']'') (trim_start_matches (\<lambda>c. c = CHR ''['')
       (case rsplit_once (CHR '':'') target of Some (h, _) \<Rightarrow> h | None \<Rightarrow> target))"

text \<open>\<open>sort_unstable\<close> and \<open>dedup\<close>.\<close>

definition dial_order :: "socket_addr list \<Rightarrow> socket_addr list" where
  "dial_order addrs = remdups_adj (sort addrs)"

definition quic_connect :: "'conn quic_env \<Rightarrow> string \<Rightarrow> (string + 'conn) \<times> duration" where
  "quic_connect env target =
     (case lookup_host env target of
        (Inl e, t) \<Rightarrow> (Inl (''resolve '' @ target @ '': '' @ e), t)
      | (Inr addrs, t) \<Rightarrow>
          if addrs = [] then (Inl ''no address resolved'', t)
          else (case tls13_config env of
              Inl e \<Rightarrow> (Inl e, t)
            | Inr _ \<Rightarrow>
                (case quic_config env of
                   Inl e \<Rightarrow> (Inl (''quic client config: '' @ e), t)
                 | Inr _ \<Rightarrow>
                     dial_all env (server_name_of target) ''no address resolved'' t
                       (dial_order addrs))))"

text \<open>\<open>timeout\<close> gives up when the connect has not finished within the budget; the result is the
  elapsed time in milliseconds, \<open>-1\<close> on every failure.\<close>

definition check_quic_rtt :: "bool \<Rightarrow> 'conn quic_env \<Rightarrow> string \<Rightarrow> i64" where
  "check_quic_rtt runtime_ok env uri =
     (case parse_target uri of
        None \<Rightarrow> - 1
      | Some target \<Rightarrow>
          if \<not> runtime_ok then - 1
          else (case quic_connect env target of (r, t) \<Rightarrow>
              if CHECK_TIMEOUT < t then - 1
              else (case r of Inr conn \<Rightarrow> of_nat (t div 1000000) | Inl e \<Rightarrow> - 1)))"

section \<open>Targets\<close>

lemma parse_target_examples:
  "parse_target ''quic://example.org:1234?key=abc'' = Some ''example.org:1234''"
  "parse_target ''quic://example.org'' = Some ''example.org:443''"
  "parse_target ''quic://[200:1:2:3:4:5:6:7]:999'' = Some ''[200:1:2:3:4:5:6:7]:999''"
  "parse_target ''quic://'' = None"
  "parse_target ''host:5'' = Some ''host:5''"
  by code_simp+

text \<open>A printed address survives the parser whatever query follows it.\<close>

lemma hd_split_query:
  assumes "CHR ''?'' \<notin> set s" and "q = [] \<or> hd q = CHR ''?''"
  shows "hd (str_split (CHR ''?'') (s @ q)) = s"
  using assms by (cases q) (auto simp: str_split_append str_split_single)

lemma not_in_if_all: "list_all P s \<Longrightarrow> \<not> P c \<Longrightarrow> c \<notin> set s"
  by (auto simp: list_all_iff)

lemma show_socket_no_query: "CHR ''?'' \<notin> set (show_socket a)"
proof -
  have n: "\<not> addr_char (CHR ''?'')" "\<not> is_radix_digit 10 (CHR ''?'')"
    by (simp_all add: addr_char_def is_radix_digit_def digit_val_def)
  have "CHR ''?'' \<notin> set (show_nat m)" for m
    using show_nat_props[of m] n(2) by (intro not_in_if_all) auto
  with not_in_if_all[OF show_ipv4_chars n(1)] not_in_if_all[OF show_ipv6_chars n(1)]
  show ?thesis by (cases a) auto
qed

lemma rsplit_port:
  "rsplit_once (CHR '':'') (h @ '':'' @ show_nat n) = Some (h, show_nat n)"
  using str_rfind_append[of "CHR '':''" "show_nat n" h] show_nat_no_special[of "CHR '':''" n]
  by (simp add: rsplit_once_def)

lemma show_socket_hd: "hd (show_socket a) = CHR ''['' \<or> addr_char (hd (show_socket a))"
proof (cases a)
  case (SockV4 x p)
  with show_ipv4_chars[of x] show_ipv4_not_Nil[of x] show ?thesis
    by (cases "show_ipv4 x") auto
qed simp

text \<open>The part after the scheme, once it is a printed address.\<close>

lemma target_of_address:
  assumes "CHR ''q'' \<noteq> hd s" and "s \<noteq> []"
  shows "strip_prefix ''quic://'' (s @ q) = None"
  using assms by (cases s) auto

lemma bracketed_show:
  assumes "CHR '']'' \<notin> set h"
  shows "bracketed (''['' @ h @ '']'' @ r) = Some (h, r)"
  using assms str_find_append[of "CHR '']''" h r] by (simp add: bracketed_def split_once_def)

lemma bracketed_plain: "s \<noteq> [] \<Longrightarrow> hd s \<noteq> CHR ''['' \<Longrightarrow> bracketed s = None"
  by (cases s) (simp_all add: bracketed_def)

lemma host_part_show: "host_part (show_socket a) = Some (show_socket a)"
proof (cases a)
  case (SockV4 x p)
  have "hd (show_socket a) \<noteq> CHR ''[''"
    using SockV4 show_ipv4_chars[of x] by (cases "show_ipv4 x") auto
  then have "bracketed (show_socket a) = None" by (intro bracketed_plain) simp_all
  moreover have "rsplit_once (CHR '':'') (show_socket a) = Some (show_ipv4 x, show_nat (unat p))"
    using SockV4 rsplit_port[of "show_ipv4 x"] by simp
  ultimately show ?thesis using show_nat_props[of "unat p"] by (simp add: host_part_def)
next
  case (SockV6 x p f sc)
  let ?h = "show_ipv6 x @ (if sc = 0 then [] else ''%'' @ show_nat (unat sc))"
  have "CHR '']'' \<notin> set ?h"
    using not_in_if_all[OF show_ipv6_chars[of x] addr_char_brackets(2)]
      show_nat_no_special[of "CHR '']''" "unat sc"] by auto
  from bracketed_show[OF this, of "'':'' @ show_nat (unat p)"]
  have "bracketed (show_socket a) = Some (?h, '':'' @ show_nat (unat p))" using SockV6 by simp
  moreover have "show_nat (unat p) \<noteq> []" using show_nat_props[of "unat p"] by simp
  ultimately show ?thesis using SockV6 by (auto simp: host_part_def neq_Nil_conv)
qed

text \<open>The URI of a socket address, with the scheme or without and
  with any query string, parses to that address in the form the resolver expects, for IPv4,
  IPv6 and scoped IPv6 addresses.\<close>
theorem target_roundtrip:
  assumes "flow_free a" and "q = [] \<or> hd q = CHR ''?''"
  shows "parse_target (''quic://'' @ show_socket a @ q) = Some (show_socket a) \<and>
    parse_target (show_socket a @ q) = Some (show_socket a) \<and>
    parse_socket (show_socket a) = Some a"
proof -
  have q: "trim (hd (str_split (CHR ''?'') (show_socket a @ q))) = show_socket a"
    using hd_split_query[OF show_socket_no_query assms(2)] by simp
  have "\<not> addr_char (CHR ''q'')" by (simp add: addr_char_def is_radix_digit_def digit_val_def)
  with show_socket_hd[of a] have "CHR ''q'' \<noteq> hd (show_socket a)" by force
  then have "strip_prefix ''quic://'' (show_socket a @ q) = None" by (rule target_of_address) simp
  with q host_part_show[of a] parse_socket_show[OF assms(1)] show ?thesis
    by (simp add: parse_target_def)
qed

theorem target_roundtrip_witness:
  "parse_target (''quic://'' @ show_socket (SockV6 1 443 0 7) @ ''?key=ab'') = Some (show_socket (SockV6 1 443 0 7))"
  using target_roundtrip[of "SockV6 1 443 0 7" "''?key=ab''"] by simp

section \<open>The dial loop\<close>

text \<open>The attempts that leave the loop running, and the time they take.\<close>

fun moves_on :: "'conn attempt \<Rightarrow> bool" where
  "moves_on (Connect_Error e) = True"
| "moves_on (Handshake_Error e d) = True"
| "moves_on (Bind_Error e) = False"
| "moves_on (Connected c d) = False"

fun attempt_time :: "'conn attempt \<Rightarrow> duration" where
  "attempt_time (Handshake_Error e d) = d"
| "attempt_time (Connected c d) = d"
| "attempt_time (Bind_Error e) = 0"
| "attempt_time (Connect_Error e) = 0"

abbreviation tries :: "'conn quic_env \<Rightarrow> string \<Rightarrow> socket_addr \<Rightarrow> 'conn attempt" where
  "tries env server addr \<equiv> attempt_on env (bind_for addr) server addr"

lemma dial_all_moves_on:
  assumes "\<forall>a\<in>set pre. moves_on (tries env server a)"
  shows "\<exists>e. dial_all env server err t (pre @ post) =
    dial_all env server e (t + (\<Sum>a\<leftarrow>pre. attempt_time (tries env server a))) post"
  using assms
proof (induction pre arbitrary: err t)
  case (Cons a pre)
  from Cons.prems have m: "moves_on (tries env server a)" and rest: "\<forall>a\<in>set pre. moves_on (tries env server a)"
    by simp_all
  from m show ?case
  proof (cases "tries env server a")
    case (Connect_Error e)
    with Cons.IH[OF rest, of "''connect: '' @ e" t] show ?thesis by simp
  next
    case (Handshake_Error e d)
    with Cons.IH[OF rest, of "''handshake: '' @ e" "t + d"] show ?thesis by (simp add: add.assoc)
  qed simp_all
qed auto

lemma dial_all_connected:
  assumes "dial_all env server err t addrs = (Inr c, t')"
  shows "\<exists>pre a post d. addrs = pre @ a # post \<and> tries env server a = Connected c d \<and>
    (\<forall>b\<in>set pre. moves_on (tries env server b)) \<and>
    t' = t + (\<Sum>b\<leftarrow>pre. attempt_time (tries env server b)) + d"
  using assms
proof (induction addrs arbitrary: err t)
  case (Cons a addrs)
  show ?case
  proof (cases "moves_on (tries env server a)")
    case True
    then obtain e where "dial_all env server e (t + attempt_time (tries env server a)) addrs = (Inr c, t')"
      using Cons.prems by (cases "tries env server a") auto
    from Cons.IH[OF this] obtain pre b post d where "addrs = pre @ b # post"
      "tries env server b = Connected c d" "\<forall>b\<in>set pre. moves_on (tries env server b)"
      "t' = t + attempt_time (tries env server a) + (\<Sum>b\<leftarrow>pre. attempt_time (tries env server b)) + d"
      by blast
    with True show ?thesis
      by (intro exI[of _ "a # pre"] exI[of _ b] exI[of _ post] exI[of _ d]) (simp add: add.assoc)
  next
    case False
    with Cons.prems show ?thesis
      by (intro exI[of _ "[]"]) (cases "tries env server a"; auto)
  qed
qed simp

text \<open>The lookup succeeds and some address, in the order they are tried, completes its handshake
  after only connect and handshake failures before it; \<open>T\<close> is the time all this takes.\<close>

definition reached_after :: "'conn quic_env \<Rightarrow> string \<Rightarrow> duration \<Rightarrow> bool" where
  "reached_after env uri T \<longleftrightarrow>
     (\<exists>target addrs t pre a post c d.
        parse_target uri = Some target \<and> lookup_host env target = (Inr addrs, t) \<and>
        tls13_config env = Inr () \<and> quic_config env = Inr () \<and>
        dial_order addrs = pre @ a # post \<and>
        (\<forall>b\<in>set pre. moves_on (tries env (server_name_of target) b)) \<and>
        tries env (server_name_of target) a = Connected c d \<and>
        T = t + (\<Sum>b\<leftarrow>pre. attempt_time (tries env (server_name_of target) b)) + d)"

lemma quic_connect_Inr:
  "(\<exists>c. quic_connect env target = (Inr c, T)) \<longleftrightarrow>
     (\<exists>addrs t c. lookup_host env target = (Inr addrs, t) \<and> addrs \<noteq> [] \<and>
        tls13_config env = Inr () \<and> quic_config env = Inr () \<and>
        dial_all env (server_name_of target) ''no address resolved'' t (dial_order addrs) = (Inr c, T))"
  by (auto simp: quic_connect_def split: prod.splits sum.splits if_splits)

lemma reached_connects:
  "(\<exists>target c. parse_target uri = Some target \<and> quic_connect env target = (Inr c, T)) \<longleftrightarrow>
     reached_after env uri T"
proof
  assume "\<exists>target c. parse_target uri = Some target \<and> quic_connect env target = (Inr c, T)"
  then obtain target addrs t c where p: "parse_target uri = Some target"
    "lookup_host env target = (Inr addrs, t)" "tls13_config env = Inr ()" "quic_config env = Inr ()"
    and d: "dial_all env (server_name_of target) ''no address resolved'' t (dial_order addrs) = (Inr c, T)"
    using quic_connect_Inr[of env _ T] by blast
  from p dial_all_connected[OF d] show "reached_after env uri T"
    unfolding reached_after_def by blast
next
  assume "reached_after env uri T"
  then obtain target addrs t pre a post c d where r: "parse_target uri = Some target"
    "lookup_host env target = (Inr addrs, t)" "tls13_config env = Inr ()" "quic_config env = Inr ()"
    "dial_order addrs = pre @ a # post" "\<forall>b\<in>set pre. moves_on (tries env (server_name_of target) b)"
    "tries env (server_name_of target) a = Connected c d"
    "T = t + (\<Sum>b\<leftarrow>pre. attempt_time (tries env (server_name_of target) b)) + d"
    unfolding reached_after_def by blast
  from dial_all_moves_on[OF r(6), of "''no address resolved''" t "a # post"] r(5,7,8)
  have "dial_all env (server_name_of target) ''no address resolved'' t (dial_order addrs) = (Inr c, T)"
    by auto
  moreover have "addrs \<noteq> []" using r(5) by (auto simp: dial_order_def)
  ultimately show "\<exists>target c. parse_target uri = Some target \<and> quic_connect env target = (Inr c, T)"
    using r quic_connect_Inr[of env target T] by blast
qed

lemma millis_not_minus_one: "T \<le> CHECK_TIMEOUT \<Longrightarrow> (of_nat (T div 1000000) :: i64) \<noteq> - 1"
proof
  assume "T \<le> CHECK_TIMEOUT" and e: "(of_nat (T div 1000000) :: i64) = - 1"
  then have le: "T div 1000000 \<le> 5000" by (simp add: CHECK_TIMEOUT_def from_secs_def)
  from arg_cong[OF e, of unat] le show False
    by (simp add: unat_of_nat take_bit_nat_eq_self unsigned_minus_1_eq_mask mask_eq_exp_minus_1)
qed

text \<open>C26. The check reports a round-trip time exactly when, in the
  order the addresses are tried, some address completes its handshake after only connect and
  handshake failures before it, and the lookup, those failures and the handshake together fit
  the five-second budget; the value is that total in milliseconds.  Every other outcome is
  \<open>-1\<close>, and no round-trip time is mistaken for it.\<close>
theorem rtt_of_first_reachable:
  "check_quic_rtt runtime_ok env uri = r \<and> r \<noteq> - 1 \<longleftrightarrow>
     runtime_ok \<and> (\<exists>T. T \<le> CHECK_TIMEOUT \<and> reached_after env uri T \<and> r = of_nat (T div 1000000))"
proof -
  have "check_quic_rtt runtime_ok env uri = r \<and> r \<noteq> - 1 \<longleftrightarrow>
    runtime_ok \<and> (\<exists>T. T \<le> CHECK_TIMEOUT \<and>
      (\<exists>target c. parse_target uri = Some target \<and> quic_connect env target = (Inr c, T)) \<and>
      r = of_nat (T div 1000000))"
    using millis_not_minus_one
    by (auto simp: check_quic_rtt_def split: option.splits prod.splits sum.splits if_splits)
  then show ?thesis unfolding reached_connects .
qed

lemma distinct_sorted_dedup: "sorted (xs :: 'a::linorder list) \<Longrightarrow> distinct (remdups_adj xs)"
proof (induction xs rule: remdups_adj.induct)
  case (3 x y xs)
  then show ?case by (auto simp: order_antisym_conv)
qed simp_all

text \<open>The addresses are tried with the whole of IPv4 before any of
  IPv6, each once: the order sorts by variant first.  An IPv4 handshake that hangs for the
  full budget therefore fails the check whatever the IPv6 addresses would answer.\<close>
theorem v4_dialled_first:
  "set (dial_order addrs) = set addrs \<and> distinct (dial_order addrs) \<and>
   sorted (map is_ipv6 (dial_order addrs))"
proof -
  have "sorted (dial_order addrs)" by (simp add: dial_order_def sorted_remdups_adj)
  then have "sorted_wrt (\<lambda>a b. is_ipv6 a \<le> is_ipv6 b) (dial_order addrs)"
    by (rule sorted_wrt_mono_rel[rotated]) (auto intro: v4_before_v6)
  then show ?thesis
    by (simp add: dial_order_def sorted_map distinct_sorted_dedup)
qed

lemma dial_all_time: "t \<le> snd (dial_all env server err t addrs)"
proof (induction addrs arbitrary: err t)
  case (Cons a addrs)
  have "t \<le> snd (dial_all env server e (t + d) addrs)" for e d
    using Cons.IH[of "t + d" e] by simp
  with Cons.IH show ?case by (auto split: attempt.splits)
qed simp

text \<open>The remark above as a fact: the first attempt alone can use the budget up.\<close>

lemma first_attempt_exhausts_budget:
  assumes "parse_target uri = Some target" and "lookup_host env target = (Inr addrs, t)"
    and "dial_order addrs = a # rest"
    and "tries env (server_name_of target) a = Handshake_Error e d" and "CHECK_TIMEOUT < d"
  shows "check_quic_rtt runtime_ok env uri = - 1"
proof -
  have "t + d \<le> snd (dial_all env (server_name_of target) (''handshake: '' @ e) (t + d) rest)"
    by (rule dial_all_time)
  with assms have "CHECK_TIMEOUT < snd (dial_all env (server_name_of target) ''no address resolved'' t (a # rest))"
    by simp
  moreover have "addrs \<noteq> []" using assms(3) by (auto simp: dial_order_def)
  ultimately show ?thesis using assms
    by (auto simp: check_quic_rtt_def quic_connect_def split: sum.splits prod.splits)
qed

end
