(* ===== verification/Config.thy ===== *)
theory Config
  imports Std_Io Std_Net
begin

text \<open>
  The configuration wrapper, \<open>config.rs\<close>.  The configuration type, its generator and the TOML
  reader and writer belong to other crates: \<open>ygg_config\<close> has the two fields this code sets and an
  extension for the rest, and the functions of those crates are arguments.  The wrapper's
  promise is that no configuration it hands out enables the TUN adapter.
\<close>

record ygg_config =
  if_name :: string
  admin_listen :: string

text \<open>What the wrapper uses of \<open>yggdrasil\<close> and \<open>toml\<close>.\<close>

record 'x config_lib =
  toml_from_str :: "string \<Rightarrow> string + 'x ygg_config_scheme"
  toml_to_string_pretty :: "'x ygg_config_scheme \<Rightarrow> string + string"
  lib_generate :: "'x ygg_config_scheme"
  lib_generate_config_text :: string
  lib_default :: "'x ygg_config_scheme"
  lib_addr_for_key :: "bytes \<Rightarrow> bytes"
  lib_subnet_for_key :: "bytes \<Rightarrow> bytes"

definition addr_for_key :: "'x config_lib \<Rightarrow> bytes \<Rightarrow> ipv6" where
  "addr_for_key lib public_key = v6_of_octets (lib_addr_for_key lib public_key)"

definition subnet_for_key :: "'x config_lib \<Rightarrow> bytes \<Rightarrow> ipv6 \<times> u8" where
  "subnet_for_key lib public_key =
     (let s = lib_subnet_for_key lib public_key; bs = copy_at 0 s (replicate 16 0)
      in (v6_of_octets bs, 64))"

text \<open>The file system and standard input: what reading them gave.\<close>

definition load_text :: "'x config_lib \<Rightarrow> string \<Rightarrow> string + 'x ygg_config_scheme" where
  "load_text lib txt =
     and_then (map_err (\<lambda>e. ''TOML parse error: '' @ e) (toml_from_str lib txt))
       (\<lambda>cfg. Inr (cfg\<lparr>if_name := ''none''\<rparr>))"

definition load_file ::
  "'x config_lib \<Rightarrow> (string \<Rightarrow> string + string) \<Rightarrow> string \<Rightarrow> string + 'x ygg_config_scheme" where
  "load_file lib read_to_string path =
     and_then (map_err (\<lambda>e. ''cannot read '' @ path @ '': '' @ e) (read_to_string path)) (load_text lib)"

definition load_stdin :: "'x config_lib \<Rightarrow> string + string \<Rightarrow> string + 'x ygg_config_scheme" where
  "load_stdin lib stdin =
     and_then (map_err (\<lambda>e. ''stdin read error: '' @ e) stdin) (load_text lib)"

definition generate :: "'x config_lib \<Rightarrow> 'x ygg_config_scheme" where
  "generate lib = (lib_generate lib)\<lparr>if_name := ''none'', admin_listen := ''none''\<rparr>"

definition generate_text :: "'x config_lib \<Rightarrow> string" where
  "generate_text lib =
     (let txt = lib_generate_config_text lib;
          cfg = (case toml_from_str lib txt of Inr c \<Rightarrow> c | Inl e \<Rightarrow> lib_default lib);
          cfg = cfg\<lparr>if_name := ''none'', admin_listen := ''none''\<rparr>
      in case toml_to_string_pretty lib cfg of Inr s \<Rightarrow> s | Inl e \<Rightarrow> txt)"

text \<open>The law of the TOML library: a written value reads back.\<close>

definition toml_ok :: "'x config_lib \<Rightarrow> bool" where
  "toml_ok lib \<longleftrightarrow> (\<forall>cfg. \<exists>s. toml_to_string_pretty lib cfg = Inr s \<and> toml_from_str lib s = Inr cfg)"

lemma load_text_Inr:
  "load_text lib txt = Inr cfg \<longleftrightarrow>
     (\<exists>c. toml_from_str lib txt = Inr c \<and> cfg = c\<lparr>if_name := ''none''\<rparr>)"
  by (auto simp: load_text_def)

text \<open>Whatever the file, standard input or the generator provide, a
  configuration that this module returns has the TUN adapter switched off, and loading changes
  nothing else of what was read.\<close>
theorem tun_always_disabled:
  "load_file lib rd path = Inr cfg \<or> load_stdin lib stdin = Inr cfg \<Longrightarrow>
   if_name cfg = ''none'' \<and>
   (\<exists>txt c. (rd path = Inr txt \<or> stdin = Inr txt) \<and> toml_from_str lib txt = Inr c \<and>
      cfg = c\<lparr>if_name := ''none''\<rparr>)"
  by (auto simp: load_file_def load_stdin_def load_text_Inr)

text \<open>The text that \<open>generate_text\<close> prints is a configuration: it loads
  back, from a file or from standard input, with both the TUN adapter and the admin socket
  switched off, and with the keys of the generator's template unchanged.\<close>
theorem generated_text_loads:
  assumes "toml_ok lib" and "toml_from_str lib (lib_generate_config_text lib) = Inr c"
  shows "load_stdin lib (Inr (generate_text lib)) =
    Inr (c\<lparr>if_name := ''none'', admin_listen := ''none''\<rparr>)"
proof -
  from assms(1) obtain s where "toml_to_string_pretty lib (c\<lparr>if_name := ''none'', admin_listen := ''none''\<rparr>) = Inr s"
    "toml_from_str lib s = Inr (c\<lparr>if_name := ''none'', admin_listen := ''none''\<rparr>)"
    unfolding toml_ok_def by blast
  with assms(2) show ?thesis by (simp add: load_stdin_def generate_text_def load_text_Inr)
qed

text \<open>A small serialisation with the law: the interface name with every character marked, a
  separator, the rest.\<close>

definition demo_write :: "ygg_config \<Rightarrow> string" where
  "demo_write cfg = concat (map (\<lambda>c. [CHR ''x'', c]) (if_name cfg)) @ ''y'' @ admin_listen cfg"

fun demo_read :: "string \<Rightarrow> string \<Rightarrow> string + ygg_config" where
  "demo_read acc (m # s) =
     (if m = CHR ''y'' then Inr \<lparr>if_name = rev acc, admin_listen = s\<rparr>
      else case s of c # s' \<Rightarrow> demo_read (c # acc) s' | [] \<Rightarrow> Inl ''eof'')"
| "demo_read acc [] = Inl ''eof''"

lemma demo_read_marked:
  "demo_read acc (concat (map (\<lambda>c. [CHR ''x'', c]) n) @ ''y'' @ a) =
     Inr \<lparr>if_name = rev acc @ n, admin_listen = a\<rparr>"
  by (induction n arbitrary: acc) simp_all

definition demo_lib :: "unit config_lib" where
  "demo_lib = \<lparr>toml_from_str = demo_read [], toml_to_string_pretty = (\<lambda>cfg. Inr (demo_write cfg)),
     lib_generate = \<lparr>if_name = ''auto'', admin_listen = ''tcp''\<rparr>,
     lib_generate_config_text = demo_write \<lparr>if_name = ''auto'', admin_listen = ''tcp''\<rparr>,
     lib_default = \<lparr>if_name = ''auto'', admin_listen = []\<rparr>,
     lib_addr_for_key = take 16, lib_subnet_for_key = take 8\<rparr>"

lemma demo_lib_ok: "toml_ok demo_lib"
  by (simp add: toml_ok_def demo_lib_def demo_write_def demo_read_marked[of "[]", simplified])

theorem tun_always_disabled_witness:
  "if_name \<lparr>if_name = ''none'', admin_listen = ''tcp''\<rparr> = ''none'' \<and>
   load_stdin demo_lib (Inr ''xtxuxny'') = Inr \<lparr>if_name = ''none'', admin_listen = []\<rparr>"
proof
  show l: "load_stdin demo_lib (Inr ''xtxuxny'') = Inr \<lparr>if_name = ''none'', admin_listen = []\<rparr>"
    by (simp add: load_stdin_def load_text_def demo_lib_def)
  show "if_name \<lparr>if_name = ''none'', admin_listen = ''tcp''\<rparr> = ''none''"
    using tun_always_disabled[of demo_lib "\<lambda>p. Inl []" "[]" "\<lparr>if_name = ''none'', admin_listen = []\<rparr>"
        "Inr ''xtxuxny''"] l by simp
qed

theorem generated_text_loads_witness:
  "load_stdin demo_lib (Inr (generate_text demo_lib)) =
    Inr \<lparr>if_name = ''none'', admin_listen = ''none''\<rparr>"
  using generated_text_loads[OF demo_lib_ok, of "\<lparr>if_name = ''auto'', admin_listen = ''tcp''\<rparr>"]
  by (simp add: demo_lib_def demo_write_def)

end
