(* ===== verification/Mobile.thy ===== *)
theory Mobile
  imports Forward_Tcp Forward_Udp Ping Config
begin

text \<open>
  The engine object of the mobile library, \<open>crates/yggstack-mobile/src/mobile.rs\<close>:
  \<open>YggstackMobile\<close> with its configuration, its mappings and the tasks it has spawned.

  A task is known by its number.  It starts by binding its socket, only then subscribes to its
  stop channel, and serves until it sees a stop: a stop sent before it subscribed never
  reaches it, since a broadcast receiver gets the values sent after it was created.  What a
  task does is an event (\<open>task_ev\<close>) that the scheduler may interleave anywhere; an operation
  that joins a task takes the events that happen while it waits as the argument \<open>sched\<close>, and
  aborts the task when it has not ended by then.
\<close>

section \<open>Tasks\<close>

text \<open>A forwarder is registered under its key when it is spawned, a proxy when it has bound; the
  peer-event task subscribes before it is spawned.\<close>

datatype task_kind = Forwarder string | Proxy string string | Peer_Events

datatype phase = Starting | Serving bool | Ended

record task =
  tk_kind :: task_kind
  tk_chan :: nat
  tk_inst :: nat
  tk_phase :: phase

text \<open>One instance of the node: its statistics and whether its parts are open.\<close>

record node_inst =
  ni_stats :: ListenerStatsRegistry
  core_open :: bool
  multicast_open :: bool
  netstack_open :: bool

record ping_task =
  pt_dst :: ipv6
  pt_count :: u32
  pt_timeout :: duration
  pt_interval :: duration
  pt_inst :: nat
  pt_alive :: bool

record runtime =
  rt_tasks :: "task list"
  rt_insts :: "node_inst list"
  rt_chans :: nat
  rt_pings :: "ping_task list"

definition upd_task :: "nat \<Rightarrow> (task \<Rightarrow> task) \<Rightarrow> runtime \<Rightarrow> runtime" where
  "upd_task i f R = R\<lparr>rt_tasks := (rt_tasks R)[i := f (rt_tasks R ! i)]\<rparr>"

definition upd_inst :: "nat \<Rightarrow> (node_inst \<Rightarrow> node_inst) \<Rightarrow> runtime \<Rightarrow> runtime" where
  "upd_inst i f R = R\<lparr>rt_insts := (rt_insts R)[i := f (rt_insts R ! i)]\<rparr>"

definition set_phase :: "nat \<Rightarrow> phase \<Rightarrow> runtime \<Rightarrow> runtime" where
  "set_phase i ph = upd_task i (tk_phase_update (\<lambda>_. ph))"

definition unregister :: "nat \<Rightarrow> string \<Rightarrow> runtime \<Rightarrow> runtime" where
  "unregister inst key = upd_inst inst (\<lambda>n. n\<lparr>ni_stats := registry_remove key (ni_stats n)\<rparr>)"

definition spawn_task :: "task_kind \<Rightarrow> nat \<Rightarrow> nat \<Rightarrow> phase \<Rightarrow> runtime \<Rightarrow> runtime" where
  "spawn_task kind chan inst ph R =
     R\<lparr>rt_tasks := rt_tasks R @ [\<lparr>tk_kind = kind, tk_chan = chan, tk_inst = inst, tk_phase = ph\<rparr>]\<rparr>"

text \<open>\<open>stop_tx.send(())\<close> reaches the receivers that exist.\<close>

definition hear_stop :: "nat \<Rightarrow> task \<Rightarrow> task" where
  "hear_stop chan t =
     (if tk_chan t = chan then (case tk_phase t of Serving _ \<Rightarrow> t\<lparr>tk_phase := Serving True\<rparr> | _ \<Rightarrow> t) else t)"

definition send_stop :: "nat \<Rightarrow> runtime \<Rightarrow> runtime" where
  "send_stop chan R = R\<lparr>rt_tasks := map (hear_stop chan) (rt_tasks R)\<rparr>"

text \<open>The progress of one task: it binds (or fails to), or it sees the stop.\<close>

datatype task_ev = Bound nat "io_error + string" | Sees_Stop nat

fun task_bound :: "task_kind \<Rightarrow> nat \<Rightarrow> nat \<Rightarrow> io_error + string \<Rightarrow> runtime \<Rightarrow> runtime" where
  "task_bound (Forwarder key) inst i (Inr _) R = set_phase i (Serving False) R"
| "task_bound (Forwarder key) inst i (Inl _) R = unregister inst key (set_phase i Ended R)"
| "task_bound (Proxy key kind) inst i (Inr local) R =
     upd_inst inst (\<lambda>n. n\<lparr>ni_stats := snd (entry key kind local [] (ni_stats n))\<rparr>)
       (set_phase i (Serving False) R)"
| "task_bound (Proxy key kind) inst i (Inl _) R = set_phase i Ended R"
| "task_bound Peer_Events inst i _ R = R"

fun task_stops :: "task_kind \<Rightarrow> nat \<Rightarrow> nat \<Rightarrow> runtime \<Rightarrow> runtime" where
  "task_stops (Forwarder key) inst i R = unregister inst key (set_phase i Ended R)"
| "task_stops (Proxy key kind) inst i R = unregister inst key (set_phase i Ended R)"
| "task_stops Peer_Events inst i R = set_phase i Ended R"

fun task_event :: "task_ev \<Rightarrow> runtime \<Rightarrow> runtime" where
  "task_event (Bound i res) R =
     (if i < length (rt_tasks R) \<and> tk_phase (rt_tasks R ! i) = Starting
      then task_bound (tk_kind (rt_tasks R ! i)) (tk_inst (rt_tasks R ! i)) i res R else R)"
| "task_event (Sees_Stop i) R =
     (if i < length (rt_tasks R) \<and> tk_phase (rt_tasks R ! i) = Serving True
      then task_stops (tk_kind (rt_tasks R ! i)) (tk_inst (rt_tasks R ! i)) i R else R)"

definition run_tasks :: "task_ev list \<Rightarrow> runtime \<Rightarrow> runtime" where
  "run_tasks evs R = fold task_event evs R"

type_synonym schedule = "nat \<Rightarrow> task_ev list"

definition join_listener :: "schedule \<Rightarrow> nat \<Rightarrow> runtime \<Rightarrow> runtime" where
  "join_listener sched i R =
     (let R1 = run_tasks (sched i) R
      in if tk_phase (rt_tasks R1 ! i) = Ended then R1 else set_phase i Ended R1)"

section \<open>The engine\<close>

datatype YggstackError =
    Config_Error string
  | Runtime_Error string
  | Io_Error string
  | AlreadyRunning string
  | NotRunning string

record NodeState =
  ns_inst :: nat
  ns_stop :: nat
  socks_handle :: "nat option"
  http_handle :: "nat option"
  peer_events_handle :: "nat option"

record RunningListener =
  rl_stop :: nat
  rl_handle :: nat

record 'x YggstackMobile =
  rt :: runtime
  state :: "NodeState option"
  cfg :: "'x ygg_config_scheme option"
  socks_addr :: "string option"
  http_addr :: "string option"
  nameserver :: string
  local_tcp :: "TcpMapping list"
  local_udp :: "UdpMapping list"
  remote_tcp :: "TcpMapping list"
  remote_udp :: "UdpMapping list"
  listeners :: "(string, RunningListener) hash_map"
  ping :: "nat option"
  peer_status_callback :: bool

text \<open>What the engine uses of the configuration: the public key of its signing key, and whether
  it names multicast interfaces.\<close>

record 'x engine_lib = "'x config_lib" +
  verifying_key :: "'x ygg_config_scheme \<Rightarrow> string + bytes"
  has_multicast :: "'x ygg_config_scheme \<Rightarrow> bool"
  start_multicast :: "io_error + unit"
  hex_encode :: "bytes \<Rightarrow> string"

definition engine_new :: "'x YggstackMobile" where
  "engine_new =
     \<lparr>rt = \<lparr>rt_tasks = [], rt_insts = [], rt_chans = 0, rt_pings = []\<rparr>, state = None, cfg = None,
      socks_addr = None, http_addr = None, nameserver = [], local_tcp = [], local_udp = [],
      remote_tcp = [], remote_udp = [], listeners = hm_new, ping = None,
      peer_status_callback = False\<rparr>"

definition on_rt :: "(runtime \<Rightarrow> runtime) \<Rightarrow> 'x YggstackMobile \<Rightarrow> 'x YggstackMobile" where
  "on_rt f e = e\<lparr>rt := f (rt e)\<rparr>"

definition set_peer_status_callback :: "'x YggstackMobile \<Rightarrow> 'x YggstackMobile" where
  "set_peer_status_callback e = e\<lparr>peer_status_callback := True\<rparr>"

definition load_config ::
  "'x engine_lib \<Rightarrow> string \<Rightarrow> 'x YggstackMobile \<Rightarrow> (YggstackError + unit) \<times> 'x YggstackMobile" where
  "load_config lib toml_config e =
     (case map_err Config_Error (toml_from_str lib toml_config) of
        Inl err \<Rightarrow> (Inl err, e)
      | Inr c \<Rightarrow> (Inr (), e\<lparr>cfg := Some (c\<lparr>if_name := ''none'', admin_listen := ''none''\<rparr>)\<rparr>))"

definition generate_and_load_config ::
  "'x engine_lib \<Rightarrow> 'x YggstackMobile \<Rightarrow> (YggstackError + unit) \<times> 'x YggstackMobile" where
  "generate_and_load_config lib e = load_config lib (generate_text (config_lib.truncate lib)) e"

definition get_config :: "'x engine_lib \<Rightarrow> 'x YggstackMobile \<Rightarrow> string" where
  "get_config lib e =
     (case Option.bind (cfg e) (\<lambda>c. ok (toml_to_string_pretty lib c)) of Some s \<Rightarrow> s | None \<Rightarrow> [])"

definition public_key :: "'x engine_lib \<Rightarrow> 'x YggstackMobile \<Rightarrow> YggstackError + bytes" where
  "public_key lib e =
     and_then (ok_or (cfg e) (Config_Error ''no config loaded''))
       (\<lambda>c. map_err Config_Error (verifying_key lib c))"

definition get_address :: "'x engine_lib \<Rightarrow> 'x YggstackMobile \<Rightarrow> YggstackError + string" where
  "get_address lib e =
     and_then (public_key lib e) (\<lambda>pk. Inr (show_ipv6 (addr_for_key (config_lib.truncate lib) pk)))"

definition get_subnet :: "'x engine_lib \<Rightarrow> 'x YggstackMobile \<Rightarrow> YggstackError + string" where
  "get_subnet lib e =
     and_then (public_key lib e)
       (\<lambda>pk. case subnet_for_key (config_lib.truncate lib) pk of (ip, pfx) \<Rightarrow>
          Inr (show_ipv6 ip @ ''/'' @ show_nat (unat pfx)))"

definition get_public_key :: "'x engine_lib \<Rightarrow> 'x YggstackMobile \<Rightarrow> YggstackError + string" where
  "get_public_key lib e = and_then (public_key lib e) (\<lambda>pk. Inr (hex_encode lib pk))"

definition non_empty :: "string \<Rightarrow> string option" where
  "non_empty s = (if s = [] then None else Some s)"

definition set_socks :: "string \<Rightarrow> 'x YggstackMobile \<Rightarrow> 'x YggstackMobile" where
  "set_socks addr e = e\<lparr>socks_addr := non_empty addr\<rparr>"

definition set_http :: "string \<Rightarrow> 'x YggstackMobile \<Rightarrow> 'x YggstackMobile" where
  "set_http addr e = e\<lparr>http_addr := non_empty addr\<rparr>"

definition set_nameserver :: "string \<Rightarrow> 'x YggstackMobile \<Rightarrow> 'x YggstackMobile" where
  "set_nameserver addr e = e\<lparr>nameserver := addr\<rparr>"

section \<open>Mappings\<close>

datatype mapping =
    Local_Tcp TcpMapping
  | Udp_Local UdpMapping
  | Remote_Tcp TcpMapping
  | Udp_Remote UdpMapping

fun mapping_key :: "mapping \<Rightarrow> string" where
  "mapping_key (Local_Tcp m) = local_tcp_key m"
| "mapping_key (Udp_Local m) = local_udp_key m"
| "mapping_key (Remote_Tcp m) = remote_tcp_key m"
| "mapping_key (Udp_Remote m) = remote_udp_key m"

text \<open>The part of the spawners that runs before their task does: the key and the registration.\<close>

fun spawn_fn :: "mapping \<Rightarrow> ListenerStatsRegistry \<Rightarrow> string \<times> ListenerStatsRegistry" where
  "spawn_fn (Local_Tcp m) r = (case spawn_local_tcp m r of (key, a, r1) \<Rightarrow> (key, r1))"
| "spawn_fn (Remote_Tcp m) r = (case spawn_remote_tcp m r of (key, a, r1) \<Rightarrow> (key, r1))"
| "spawn_fn (Udp_Local m) r = (case spawn_local_udp m (Inr ()) r of (key, a, st) \<Rightarrow> (key, reg st))"
| "spawn_fn (Udp_Remote m) r = (case spawn_remote_udp m (Inr ()) r of (key, a, st) \<Rightarrow> (key, reg st))"

definition mobile_spawn_listener :: "nat \<Rightarrow> mapping \<Rightarrow> 'x YggstackMobile \<Rightarrow> 'x YggstackMobile" where
  "mobile_spawn_listener inst m e =
     (let R = rt e; chan = rt_chans R; i = length (rt_tasks R);
          (key, stats) = spawn_fn m (ni_stats (rt_insts R ! inst));
          R1 = upd_inst inst (\<lambda>n. n\<lparr>ni_stats := stats\<rparr>) (R\<lparr>rt_chans := Suc chan\<rparr>)
      in e\<lparr>rt := spawn_task (Forwarder key) chan inst Starting R1,
           listeners := hm_insert key \<lparr>rl_stop = chan, rl_handle = i\<rparr> (listeners e)\<rparr>)"

fun push_mapping :: "mapping \<Rightarrow> 'x YggstackMobile \<Rightarrow> 'x YggstackMobile" where
  "push_mapping (Local_Tcp m) e = e\<lparr>local_tcp := local_tcp e @ [m]\<rparr>"
| "push_mapping (Udp_Local m) e = e\<lparr>local_udp := local_udp e @ [m]\<rparr>"
| "push_mapping (Remote_Tcp m) e = e\<lparr>remote_tcp := remote_tcp e @ [m]\<rparr>"
| "push_mapping (Udp_Remote m) e = e\<lparr>remote_udp := remote_udp e @ [m]\<rparr>"

definition add_mapping ::
  "string + mapping \<Rightarrow> 'x YggstackMobile \<Rightarrow> (YggstackError + unit) \<times> 'x YggstackMobile" where
  "add_mapping parsed e =
     (case map_err Config_Error parsed of
        Inl err \<Rightarrow> (Inl err, e)
      | Inr m \<Rightarrow>
          (let e1 = push_mapping m e
           in (Inr (), case state e1 of
                 Some node \<Rightarrow> mobile_spawn_listener (ns_inst node) m e1
               | None \<Rightarrow> e1)))"

definition add_local_tcp ::
  "string \<Rightarrow> 'x YggstackMobile \<Rightarrow> (YggstackError + unit) \<times> 'x YggstackMobile" where
  "add_local_tcp spec = add_mapping (and_then (tcp_parse_local spec) (\<lambda>m. Inr (Local_Tcp m)))"

definition add_local_udp ::
  "string \<Rightarrow> 'x YggstackMobile \<Rightarrow> (YggstackError + unit) \<times> 'x YggstackMobile" where
  "add_local_udp spec = add_mapping (and_then (udp_parse_local spec) (\<lambda>m. Inr (Udp_Local m)))"

definition add_remote_tcp ::
  "string \<Rightarrow> 'x YggstackMobile \<Rightarrow> (YggstackError + unit) \<times> 'x YggstackMobile" where
  "add_remote_tcp spec = add_mapping (and_then (tcp_parse_remote spec) (\<lambda>m. Inr (Remote_Tcp m)))"

definition add_remote_udp ::
  "string \<Rightarrow> 'x YggstackMobile \<Rightarrow> (YggstackError + unit) \<times> 'x YggstackMobile" where
  "add_remote_udp spec = add_mapping (and_then (udp_parse_remote spec) (\<lambda>m. Inr (Udp_Remote m)))"

definition stop_listener :: "schedule \<Rightarrow> string \<Rightarrow> 'x YggstackMobile \<Rightarrow> 'x YggstackMobile" where
  "stop_listener sched key e =
     (case hm_get (listeners e) key of
        None \<Rightarrow> e
      | Some l \<Rightarrow>
          on_rt (\<lambda>R. join_listener sched (rl_handle l) (send_stop (rl_stop l) R))
            (e\<lparr>listeners := hm_remove key (listeners e)\<rparr>))"

definition remove_local_tcp ::
  "schedule \<Rightarrow> string \<Rightarrow> 'x YggstackMobile \<Rightarrow> (YggstackError + unit) \<times> 'x YggstackMobile" where
  "remove_local_tcp sched spec e =
     (case map_err Config_Error (tcp_parse_local spec) of
        Inl err \<Rightarrow> (Inl err, e)
      | Inr m \<Rightarrow>
          (let key = local_tcp_key m
           in (Inr (), stop_listener sched key
                 (e\<lparr>local_tcp := filter (\<lambda>x. local_tcp_key x \<noteq> key) (local_tcp e)\<rparr>))))"

definition remove_local_udp ::
  "schedule \<Rightarrow> string \<Rightarrow> 'x YggstackMobile \<Rightarrow> (YggstackError + unit) \<times> 'x YggstackMobile" where
  "remove_local_udp sched spec e =
     (case map_err Config_Error (udp_parse_local spec) of
        Inl err \<Rightarrow> (Inl err, e)
      | Inr m \<Rightarrow>
          (let key = local_udp_key m
           in (Inr (), stop_listener sched key
                 (e\<lparr>local_udp := filter (\<lambda>x. local_udp_key x \<noteq> key) (local_udp e)\<rparr>))))"

definition remove_remote_tcp ::
  "schedule \<Rightarrow> string \<Rightarrow> 'x YggstackMobile \<Rightarrow> (YggstackError + unit) \<times> 'x YggstackMobile" where
  "remove_remote_tcp sched spec e =
     (case map_err Config_Error (tcp_parse_remote spec) of
        Inl err \<Rightarrow> (Inl err, e)
      | Inr m \<Rightarrow>
          (let key = remote_tcp_key m
           in (Inr (), stop_listener sched key
                 (e\<lparr>remote_tcp := filter (\<lambda>x. remote_tcp_key x \<noteq> key) (remote_tcp e)\<rparr>))))"

definition remove_remote_udp ::
  "schedule \<Rightarrow> string \<Rightarrow> 'x YggstackMobile \<Rightarrow> (YggstackError + unit) \<times> 'x YggstackMobile" where
  "remove_remote_udp sched spec e =
     (case map_err Config_Error (udp_parse_remote spec) of
        Inl err \<Rightarrow> (Inl err, e)
      | Inr m \<Rightarrow>
          (let key = remote_udp_key m
           in (Inr (), stop_listener sched key
                 (e\<lparr>remote_udp := filter (\<lambda>x. remote_udp_key x \<noteq> key) (remote_udp e)\<rparr>))))"

text \<open>\<open>clear_mappings\<close> sends the stops and joins nothing.\<close>

definition send_stops :: "RunningListener list \<Rightarrow> runtime \<Rightarrow> runtime" where
  "send_stops ls R = fold (\<lambda>l. send_stop (rl_stop l)) ls R"

definition clear_mappings :: "'x YggstackMobile \<Rightarrow> 'x YggstackMobile" where
  "clear_mappings e =
     on_rt (send_stops (hm_values (listeners e)))
       (e\<lparr>local_tcp := [], local_udp := [], remote_tcp := [], remote_udp := [], listeners := hm_new\<rparr>)"

section \<open>Ping sessions\<close>

definition clamp :: "int \<Rightarrow> int \<Rightarrow> int \<Rightarrow> int" where
  "clamp lo hi x = (if x < lo then lo else if hi < x then hi else x)"

definition stop_ping :: "'x YggstackMobile \<Rightarrow> 'x YggstackMobile" where
  "stop_ping e =
     (case ping e of
        None \<Rightarrow> e
      | Some i \<Rightarrow>
          on_rt (\<lambda>R. R\<lparr>rt_pings := (rt_pings R)[i := (rt_pings R ! i)\<lparr>pt_alive := False\<rparr>]\<rparr>)
            (e\<lparr>ping := None\<rparr>))"

definition start_ping ::
  "string \<Rightarrow> int \<Rightarrow> int \<Rightarrow> int \<Rightarrow> 'x YggstackMobile \<Rightarrow> (YggstackError + unit) \<times> 'x YggstackMobile" where
  "start_ping address cnt timeout_ms interval_ms e =
     (case parse_ipv6 (trim_matches (\<lambda>c. c = CHR ''['' \<or> c = CHR '']'') (trim address)) of
        None \<Rightarrow> (Inl (Config_Error (''invalid IPv6 address: '' @ address)), e)
      | Some dst \<Rightarrow>
          if \<not> is_ygg_address dst
          then (Inl (Config_Error ''not a Yggdrasil address (must be within 200::/7)''), e)
          else case state e of
              None \<Rightarrow> (Inl (NotRunning ''not running''), e)
            | Some node \<Rightarrow>
                let e1 = stop_ping e;
                    p = \<lparr>pt_dst = dst, pt_count = of_int (max cnt 0),
                         pt_timeout = from_millis (nat (clamp 50 60000 timeout_ms)),
                         pt_interval = from_millis (nat (clamp 0 60000 interval_ms)),
                         pt_inst = ns_inst node, pt_alive = True\<rparr>
                in (Inr (), (on_rt (\<lambda>R. R\<lparr>rt_pings := rt_pings R @ [p]\<rparr>) e1)
                              \<lparr>ping := Some (length (rt_pings (rt e1)))\<rparr>))"

section \<open>Start and stop\<close>

definition all_mappings :: "'x YggstackMobile \<Rightarrow> mapping list" where
  "all_mappings e =
     map Local_Tcp (local_tcp e) @ map Udp_Local (local_udp e) @
     map Remote_Tcp (remote_tcp e) @ map Udp_Remote (remote_udp e)"

text \<open>An optional task: the peer events when a callback is set, a proxy when its address is.\<close>

definition spawn_optional ::
  "bool \<Rightarrow> task_kind \<Rightarrow> nat \<Rightarrow> nat \<Rightarrow> phase \<Rightarrow> runtime \<Rightarrow> nat option \<times> runtime" where
  "spawn_optional wanted kind chan inst ph R =
     (if wanted then (Some (length (rt_tasks R)), spawn_task kind chan inst ph R) else (None, R))"

text \<open>The parts of \<open>start\<close>: the check, the construction of the node, and the commit.\<close>

definition start_check :: "'x engine_lib \<Rightarrow> 'x YggstackMobile \<Rightarrow> YggstackError + 'x ygg_config_scheme" where
  "start_check lib e =
     (if state e \<noteq> None then Inl (AlreadyRunning ''already running'')
      else and_then (ok_or (cfg e) (Config_Error ''no config loaded''))
        (\<lambda>c. and_then (map_err Config_Error (verifying_key lib c)) (\<lambda>_. Inr c)))"

definition start_build ::
  "'x engine_lib \<Rightarrow> 'x ygg_config_scheme \<Rightarrow> 'x YggstackMobile \<Rightarrow> NodeState \<times> 'x YggstackMobile" where
  "start_build lib c e =
     (let R = rt e; inst = length (rt_insts R); chan = rt_chans R;
          n = \<lparr>ni_stats = new_registry, core_open = True,
               multicast_open = (has_multicast lib c \<and> start_multicast lib = Inr ()),
               netstack_open = True\<rparr>;
          R1 = R\<lparr>rt_insts := rt_insts R @ [n], rt_chans := Suc chan\<rparr>;
          (peer, R2) = spawn_optional (peer_status_callback e) Peer_Events chan inst (Serving False) R1;
          (socks, R3) = spawn_optional (socks_addr e \<noteq> None) (Proxy SOCKS_STATS_KEY ''socks'')
                          chan inst Starting R2;
          (http, R4) = spawn_optional (http_addr e \<noteq> None) (Proxy HTTP_STATS_KEY ''http'')
                         chan inst Starting R3
      in (\<lparr>ns_inst = inst, ns_stop = chan, socks_handle = socks, http_handle = http,
           peer_events_handle = peer\<rparr>,
          fold (mobile_spawn_listener inst) (all_mappings e) (e\<lparr>rt := R4\<rparr>)))"

definition start :: "'x engine_lib \<Rightarrow> 'x YggstackMobile \<Rightarrow> (YggstackError + unit) \<times> 'x YggstackMobile" where
  "start lib e =
     (case start_check lib e of
        Inl err \<Rightarrow> (Inl err, e)
      | Inr c \<Rightarrow> (case start_build lib c e of (node, e1) \<Rightarrow> (Inr (), e1\<lparr>state := Some node\<rparr>)))"

definition join_optional :: "schedule \<Rightarrow> nat option \<Rightarrow> runtime \<Rightarrow> runtime" where
  "join_optional sched h R = (case h of Some i \<Rightarrow> join_listener sched i R | None \<Rightarrow> R)"

definition stop_node :: "schedule \<Rightarrow> NodeState \<Rightarrow> runtime \<Rightarrow> runtime" where
  "stop_node sched node R =
     (let R1 = (case peer_events_handle node of
                  Some i \<Rightarrow> join_listener sched i (send_stop (ns_stop node) R)
                | None \<Rightarrow> R);
          R2 = upd_inst (ns_inst node) (\<lambda>n. n\<lparr>multicast_open := False\<rparr>) R1;
          R3 = upd_inst (ns_inst node) (\<lambda>n. n\<lparr>core_open := False\<rparr>) R2;
          R4 = send_stop (ns_stop node) R3;
          R5 = join_optional sched (socks_handle node) R4;
          R6 = join_optional sched (http_handle node) R5
      in upd_inst (ns_inst node) (\<lambda>n. n\<lparr>netstack_open := False\<rparr>) R6)"

definition stop_listeners :: "schedule \<Rightarrow> RunningListener list \<Rightarrow> runtime \<Rightarrow> runtime" where
  "stop_listeners sched ls R =
     fold (\<lambda>l. join_listener sched (rl_handle l)) ls (send_stops ls R)"

definition stop :: "schedule \<Rightarrow> 'x YggstackMobile \<Rightarrow> 'x YggstackMobile" where
  "stop sched e =
     (let e1 = stop_ping e;
          e2 = (case state e1 of
                  Some node \<Rightarrow> on_rt (stop_node sched node) (e1\<lparr>state := None\<rparr>)
                | None \<Rightarrow> e1)
      in on_rt (stop_listeners sched (hm_values (listeners e2))) (e2\<lparr>listeners := hm_new\<rparr>))"

section \<open>Queries\<close>

definition mobile_is_running :: "'x YggstackMobile \<Rightarrow> bool" where
  "mobile_is_running e \<longleftrightarrow> state e \<noteq> None"

definition get_listeners_json :: "(string \<Rightarrow> 'e + string) \<Rightarrow> 'x YggstackMobile \<Rightarrow> string" where
  "get_listeners_json to_string e =
     (case state e of
        Some node \<Rightarrow> to_json to_string (ni_stats (rt_insts (rt e) ! ns_inst node))
      | None \<Rightarrow> ''[]'')"

definition running_netstack :: "'x YggstackMobile \<Rightarrow> nat option" where
  "running_netstack e = map_option ns_inst (state e)"

definition running_core :: "'x YggstackMobile \<Rightarrow> nat option" where
  "running_core e = map_option ns_inst (state e)"

end
