(* ===== verification/Machine.thy ===== *)
theory Machine
  imports Main
begin

text \<open>
  Objects driven by calls: a step function takes a call and a state to a result and the next
  state.  The two locales are the arguments every such component uses: a property that each
  call keeps holds after any sequence of calls, and an abstract object that agrees on each call
  agrees on every sequence, results included.
\<close>

fun run_calls :: "('c \<Rightarrow> 's \<Rightarrow> 'r \<times> 's) \<Rightarrow> 'c list \<Rightarrow> 's \<Rightarrow> 'r list \<times> 's" where
  "run_calls step [] s = ([], s)"
| "run_calls step (c # cs) s =
     (case step c s of (r, s1) \<Rightarrow> (case run_calls step cs s1 of (rs, s2) \<Rightarrow> (r # rs, s2)))"

lemma run_calls_append:
  "run_calls step cs s = (rs, s1) \<Longrightarrow>
   run_calls step (cs @ cs') s = (case run_calls step cs' s1 of (rs', s2) \<Rightarrow> (rs @ rs', s2))"
  by (induction cs arbitrary: s rs) (auto split: prod.splits)

locale call_invariant =
  fixes step :: "'c \<Rightarrow> 's \<Rightarrow> 'r \<times> 's" and ok :: "'s \<Rightarrow> bool"
  assumes step_keeps: "step c s = (r, s') \<Longrightarrow> ok s \<Longrightarrow> ok s'"
begin

lemma run_keeps: "ok s \<Longrightarrow> ok (snd (run_calls step cs s))"
proof (induction cs arbitrary: s)
  case (Cons c cs)
  obtain r s1 where s: "step c s = (r, s1)" by fastforce
  from Cons.IH[OF step_keeps[OF s Cons.prems]] s show ?case by (simp add: case_prod_beta)
qed simp

end

locale call_simulation = call_invariant step ok
  for step :: "'c \<Rightarrow> 's \<Rightarrow> 'r \<times> 's" and ok :: "'s \<Rightarrow> bool" +
  fixes spec :: "'c \<Rightarrow> 'a \<Rightarrow> 'r \<times> 'a" and abs :: "'s \<Rightarrow> 'a"
  assumes simulates: "step c s = (r, s') \<Longrightarrow> ok s \<Longrightarrow> spec c (abs s) = (r, abs s')"
begin

lemma run_simulates:
  "ok s \<Longrightarrow> run_calls spec cs (abs s) = (fst (run_calls step cs s), abs (snd (run_calls step cs s)))"
proof (induction cs arbitrary: s)
  case (Cons c cs)
  obtain r s1 where s: "step c s = (r, s1)" by fastforce
  from Cons.IH[OF step_keeps[OF s Cons.prems]] s show ?case
    by (simp add: simulates[OF s Cons.prems] case_prod_beta)
qed simp

end

end
