(* ===== verification/Mobile_Lifecycle.thy ===== *)
theory Mobile_Lifecycle
  imports Mobile Machine
begin

text \<open>
  The interface of the mobile engine: its calls, what it promises, and that it keeps the
  promise.  The abstract engine is a switch with a set of mappings; it listens for exactly the
  mappings while the switch is on.  By simulation every sequence of calls, with task events
  anywhere between them, returns the same results on both.
\<close>

section \<open>Operations\<close>

datatype mkind = K_Local_Tcp | K_Local_Udp | K_Remote_Tcp | K_Remote_Udp

fun parse_spec :: "mkind \<Rightarrow> string \<Rightarrow> string + mapping" where
  "parse_spec K_Local_Tcp spec = and_then (tcp_parse_local spec) (\<lambda>m. Inr (Local_Tcp m))"
| "parse_spec K_Local_Udp spec = and_then (udp_parse_local spec) (\<lambda>m. Inr (Udp_Local m))"
| "parse_spec K_Remote_Tcp spec = and_then (tcp_parse_remote spec) (\<lambda>m. Inr (Remote_Tcp m))"
| "parse_spec K_Remote_Udp spec = and_then (udp_parse_remote spec) (\<lambda>m. Inr (Udp_Remote m))"

datatype mobile_op =
    Load_Config string
  | Generate_Config
  | Set_Socks string
  | Set_Http string
  | Set_Nameserver string
  | Set_Peer_Callback
  | Start
  | Stop schedule
  | Add mkind string
  | Remove mkind schedule string
  | Clear_Mappings
  | Start_Ping string int int int
  | Stop_Ping
  | Task_Event task_ev

fun add_op :: "mkind \<Rightarrow> string \<Rightarrow> 'x YggstackMobile \<Rightarrow> (YggstackError + unit) \<times> 'x YggstackMobile" where
  "add_op K_Local_Tcp = add_local_tcp"
| "add_op K_Local_Udp = add_local_udp"
| "add_op K_Remote_Tcp = add_remote_tcp"
| "add_op K_Remote_Udp = add_remote_udp"

fun remove_op ::
  "mkind \<Rightarrow> schedule \<Rightarrow> string \<Rightarrow> 'x YggstackMobile \<Rightarrow> (YggstackError + unit) \<times> 'x YggstackMobile" where
  "remove_op K_Local_Tcp = remove_local_tcp"
| "remove_op K_Local_Udp = remove_local_udp"
| "remove_op K_Remote_Tcp = remove_remote_tcp"
| "remove_op K_Remote_Udp = remove_remote_udp"

fun exec_op ::
  "'x engine_lib \<Rightarrow> mobile_op \<Rightarrow> 'x YggstackMobile \<Rightarrow> (YggstackError + unit) \<times> 'x YggstackMobile" where
  "exec_op lib (Load_Config s) e = load_config lib s e"
| "exec_op lib Generate_Config e = generate_and_load_config lib e"
| "exec_op lib (Set_Socks a) e = (Inr (), set_socks a e)"
| "exec_op lib (Set_Http a) e = (Inr (), set_http a e)"
| "exec_op lib (Set_Nameserver a) e = (Inr (), set_nameserver a e)"
| "exec_op lib Set_Peer_Callback e = (Inr (), set_peer_status_callback e)"
| "exec_op lib Start e = start lib e"
| "exec_op lib (Stop sched) e = (Inr (), stop sched e)"
| "exec_op lib (Add k spec) e = add_op k spec e"
| "exec_op lib (Remove k sched spec) e = remove_op k sched spec e"
| "exec_op lib Clear_Mappings e = (Inr (), clear_mappings e)"
| "exec_op lib (Start_Ping a n t i) e = start_ping a n t i e"
| "exec_op lib Stop_Ping e = (Inr (), stop_ping e)"
| "exec_op lib (Task_Event ev) e = (Inr (), on_rt (task_event ev) e)"

text \<open>A sequence of calls, with the result of each.\<close>

abbreviation exec_ops ::
  "'x engine_lib \<Rightarrow> mobile_op list \<Rightarrow> 'x YggstackMobile \<Rightarrow> (YggstackError + unit) list \<times> 'x YggstackMobile" where
  "exec_ops lib \<equiv> run_calls (exec_op lib)"

section \<open>The abstract engine\<close>

record 'x spec =
  on :: bool
  wanted :: "string set"
  config :: "'x ygg_config_scheme option"
  pinging :: bool

definition spec_new :: "'x spec" where
  "spec_new = \<lparr>on = False, wanted = {}, config = None, pinging = False\<rparr>"

text \<open>While the engine is on, a listener for every wanted mapping; otherwise none.\<close>

definition listening :: "'x spec \<Rightarrow> string set" where
  "listening A = (if on A then wanted A else {})"

definition spec_load :: "'x engine_lib \<Rightarrow> string \<Rightarrow> 'x spec \<Rightarrow> (YggstackError + unit) \<times> 'x spec" where
  "spec_load lib s A =
     (case toml_from_str lib s of
        Inl err \<Rightarrow> (Inl (Config_Error err), A)
      | Inr c \<Rightarrow> (Inr (), A\<lparr>config := Some (c\<lparr>if_name := ''none'', admin_listen := ''none''\<rparr>)\<rparr>))"

definition spec_start :: "'x engine_lib \<Rightarrow> 'x spec \<Rightarrow> (YggstackError + unit) \<times> 'x spec" where
  "spec_start lib A =
     (if on A then (Inl (AlreadyRunning ''already running''), A)
      else case config A of
          None \<Rightarrow> (Inl (Config_Error ''no config loaded''), A)
        | Some c \<Rightarrow>
            (case verifying_key lib c of
               Inl err \<Rightarrow> (Inl (Config_Error err), A)
             | Inr _ \<Rightarrow> (Inr (), A\<lparr>on := True\<rparr>)))"

definition on_parsed ::
  "string + 'm \<Rightarrow> ('m \<Rightarrow> 'x spec) \<Rightarrow> 'x spec \<Rightarrow> (YggstackError + unit) \<times> 'x spec" where
  "on_parsed parsed f A =
     (case parsed of Inl err \<Rightarrow> (Inl (Config_Error err), A) | Inr m \<Rightarrow> (Inr (), f m))"

text \<open>Which addresses a ping session accepts.\<close>

definition ping_target :: "string \<Rightarrow> YggstackError + ipv6" where
  "ping_target address =
     (case parse_ipv6 (trim_matches (\<lambda>c. c = CHR ''['' \<or> c = CHR '']'') (trim address)) of
        None \<Rightarrow> Inl (Config_Error (''invalid IPv6 address: '' @ address))
      | Some dst \<Rightarrow>
          if is_ygg_address dst then Inr dst
          else Inl (Config_Error ''not a Yggdrasil address (must be within 200::/7)''))"

definition spec_ping :: "string \<Rightarrow> 'x spec \<Rightarrow> (YggstackError + unit) \<times> 'x spec" where
  "spec_ping address A =
     (case ping_target address of
        Inl err \<Rightarrow> (Inl err, A)
      | Inr _ \<Rightarrow>
          if on A then (Inr (), A\<lparr>pinging := True\<rparr>) else (Inl (NotRunning ''not running''), A))"

fun spec_op :: "'x engine_lib \<Rightarrow> mobile_op \<Rightarrow> 'x spec \<Rightarrow> (YggstackError + unit) \<times> 'x spec" where
  "spec_op lib (Load_Config s) A = spec_load lib s A"
| "spec_op lib Generate_Config A = spec_load lib (generate_text (config_lib.truncate lib)) A"
| "spec_op lib Start A = spec_start lib A"
| "spec_op lib (Stop sched) A = (Inr (), A\<lparr>on := False, pinging := False\<rparr>)"
| "spec_op lib (Add k s) A =
     on_parsed (parse_spec k s) (\<lambda>m. A\<lparr>wanted := insert (mapping_key m) (wanted A)\<rparr>) A"
| "spec_op lib (Remove k sched s) A =
     on_parsed (parse_spec k s) (\<lambda>m. A\<lparr>wanted := wanted A - {mapping_key m}\<rparr>) A"
| "spec_op lib Clear_Mappings A = (Inr (), A\<lparr>wanted := {}\<rparr>)"
| "spec_op lib (Start_Ping a n t i) A = spec_ping a A"
| "spec_op lib Stop_Ping A = (Inr (), A\<lparr>pinging := False\<rparr>)"
| "spec_op lib _ A = (Inr (), A)"

abbreviation spec_ops ::
  "'x engine_lib \<Rightarrow> mobile_op list \<Rightarrow> 'x spec \<Rightarrow> (YggstackError + unit) list \<times> 'x spec" where
  "spec_ops lib \<equiv> run_calls (spec_op lib)"

section \<open>The simulation\<close>

definition listener_keys :: "'x YggstackMobile \<Rightarrow> string set" where
  "listener_keys e = {k. hm_get (listeners e) k \<noteq> None}"

definition mapped_keys :: "'x YggstackMobile \<Rightarrow> string set" where
  "mapped_keys e = mapping_key ` set (all_mappings e)"

definition abs_engine :: "'x YggstackMobile \<Rightarrow> 'x spec" where
  "abs_engine e =
     \<lparr>on = (state e \<noteq> None), wanted = mapped_keys e, config = cfg e, pinging = (ping e \<noteq> None)\<rparr>"

definition engine_inv :: "'x YggstackMobile \<Rightarrow> bool" where
  "engine_inv e \<longleftrightarrow> hm_invar (listeners e) \<and> listener_keys e = listening (abs_engine e) \<and>
     (pinging (abs_engine e) \<longrightarrow> on (abs_engine e))"

lemma on_rt_fields [simp]:
  "state (on_rt f e) = state e" "cfg (on_rt f e) = cfg e" "ping (on_rt f e) = ping e"
  "listeners (on_rt f e) = listeners e" "all_mappings (on_rt f e) = all_mappings e"
  "rt (on_rt f e) = f (rt e)"
  by (simp_all add: on_rt_def all_mappings_def)

lemma all_mappings_upd [simp]:
  "all_mappings (e\<lparr>rt := x1\<rparr>) = all_mappings e" "all_mappings (e\<lparr>state := x2\<rparr>) = all_mappings e"
  "all_mappings (e\<lparr>cfg := x3\<rparr>) = all_mappings e" "all_mappings (e\<lparr>ping := x4\<rparr>) = all_mappings e"
  "all_mappings (e\<lparr>listeners := x5\<rparr>) = all_mappings e"
  by (simp_all add: all_mappings_def)

lemma listener_keys_upd [simp]:
  "listener_keys (e\<lparr>rt := x1\<rparr>) = listener_keys e" "listener_keys (e\<lparr>state := x2\<rparr>) = listener_keys e"
  "listener_keys (e\<lparr>cfg := x3\<rparr>) = listener_keys e" "listener_keys (e\<lparr>ping := x4\<rparr>) = listener_keys e"
  by (simp_all add: listener_keys_def)

lemma fst_spawn_fn: "fst (spawn_fn m r) = mapping_key m"
  by (cases m) (simp_all add: spawn_local_tcp_def spawn_remote_tcp_def spawn_local_udp_def
      spawn_remote_udp_def Let_def split: prod.splits)

lemma spawn_listener_fields [simp]:
  "state (mobile_spawn_listener i m e) = state e" "cfg (mobile_spawn_listener i m e) = cfg e"
  "ping (mobile_spawn_listener i m e) = ping e"
  "all_mappings (mobile_spawn_listener i m e) = all_mappings e"
  by (simp_all add: mobile_spawn_listener_def all_mappings_def Let_def split: prod.splits)

lemma spawn_listener_listeners:
  "listeners (mobile_spawn_listener i m e) =
     hm_insert (mapping_key m) \<lparr>rl_stop = rt_chans (rt e), rl_handle = length (rt_tasks (rt e))\<rparr> (listeners e)"
  using fst_spawn_fn[of m "ni_stats (rt_insts (rt e) ! i)"]
  by (auto simp: mobile_spawn_listener_def Let_def split: prod.splits)

lemma spawn_listener_keys [simp]:
  "listener_keys (mobile_spawn_listener i m e) = insert (mapping_key m) (listener_keys e)"
  by (auto simp: listener_keys_def spawn_listener_listeners)

lemma spawn_all_fields [simp]:
  "state (fold (mobile_spawn_listener i) ms e) = state e"
  "cfg (fold (mobile_spawn_listener i) ms e) = cfg e"
  "ping (fold (mobile_spawn_listener i) ms e) = ping e"
  "all_mappings (fold (mobile_spawn_listener i) ms e) = all_mappings e"
  "listener_keys (fold (mobile_spawn_listener i) ms e) = mapping_key ` set ms \<union> listener_keys e"
  by (induction ms arbitrary: e) auto

lemma spawn_all_invar:
  "hm_invar (listeners e) \<Longrightarrow> hm_invar (listeners (fold (mobile_spawn_listener i) ms e))"
  by (induction ms arbitrary: e) (auto simp: spawn_listener_listeners)

lemma push_mapping_fields [simp]:
  "state (push_mapping m e) = state e" "cfg (push_mapping m e) = cfg e"
  "ping (push_mapping m e) = ping e" "listeners (push_mapping m e) = listeners e"
  "rt (push_mapping m e) = rt e"
  "set (all_mappings (push_mapping m e)) = insert m (set (all_mappings e))"
  by (cases m; auto simp: all_mappings_def)+

lemma add_op_eq: "add_op k spec e = add_mapping (parse_spec k spec) e"
  by (cases k) (simp_all add: add_local_tcp_def add_local_udp_def add_remote_tcp_def add_remote_udp_def)

text \<open>Keys of different kinds differ in their prefix, so removing by key from one vector removes
  that key from all of them.\<close>

lemmas mapping_key_defs = local_tcp_key_def remote_tcp_key_def local_udp_key_def remote_udp_key_def

fun drop_key :: "mapping \<Rightarrow> 'x YggstackMobile \<Rightarrow> 'x YggstackMobile" where
  "drop_key (Local_Tcp m) e = e\<lparr>local_tcp := filter (\<lambda>x. local_tcp_key x \<noteq> local_tcp_key m) (local_tcp e)\<rparr>"
| "drop_key (Udp_Local m) e = e\<lparr>local_udp := filter (\<lambda>x. local_udp_key x \<noteq> local_udp_key m) (local_udp e)\<rparr>"
| "drop_key (Remote_Tcp m) e = e\<lparr>remote_tcp := filter (\<lambda>x. remote_tcp_key x \<noteq> remote_tcp_key m) (remote_tcp e)\<rparr>"
| "drop_key (Udp_Remote m) e = e\<lparr>remote_udp := filter (\<lambda>x. remote_udp_key x \<noteq> remote_udp_key m) (remote_udp e)\<rparr>"

lemma drop_key_mappings:
  "all_mappings (drop_key m e) = filter (\<lambda>x. mapping_key x \<noteq> mapping_key m) (all_mappings e)"
  by (cases m) (simp_all add: all_mappings_def filter_map comp_def, simp_all add: mapping_key_defs)

lemma drop_key_fields [simp]:
  "state (drop_key m e) = state e" "cfg (drop_key m e) = cfg e" "ping (drop_key m e) = ping e"
  "listeners (drop_key m e) = listeners e" "rt (drop_key m e) = rt e"
  by (cases m; simp)+

lemma remove_op_eq:
  "remove_op k sched spec e =
     (case parse_spec k spec of
        Inl err \<Rightarrow> (Inl (Config_Error err), e)
      | Inr m \<Rightarrow> (Inr (), stop_listener sched (mapping_key m) (drop_key m e)))"
proof (cases k)
  case K_Local_Tcp
  then show ?thesis by (cases "tcp_parse_local spec") (simp_all add: remove_local_tcp_def Let_def)
next
  case K_Local_Udp
  then show ?thesis by (cases "udp_parse_local spec") (simp_all add: remove_local_udp_def Let_def)
next
  case K_Remote_Tcp
  then show ?thesis by (cases "tcp_parse_remote spec") (simp_all add: remove_remote_tcp_def Let_def)
next
  case K_Remote_Udp
  then show ?thesis by (cases "udp_parse_remote spec") (simp_all add: remove_remote_udp_def Let_def)
qed

lemma stop_listener_fields [simp]:
  "state (stop_listener sched k e) = state e" "cfg (stop_listener sched k e) = cfg e"
  "ping (stop_listener sched k e) = ping e"
  "all_mappings (stop_listener sched k e) = all_mappings e"
  "listener_keys (stop_listener sched k e) = listener_keys e - {k}"
  "hm_invar (listeners e) \<Longrightarrow> hm_invar (listeners (stop_listener sched k e))"
  by (auto simp: stop_listener_def all_mappings_def on_rt_def listener_keys_def split: option.splits)

lemma stop_ping_fields [simp]:
  "state (stop_ping e) = state e" "cfg (stop_ping e) = cfg e" "ping (stop_ping e) = None"
  "listeners (stop_ping e) = listeners e" "all_mappings (stop_ping e) = all_mappings e"
  by (simp_all add: stop_ping_def all_mappings_def on_rt_def split: option.splits)

lemma clear_mappings_fields [simp]:
  "state (clear_mappings e) = state e" "cfg (clear_mappings e) = cfg e" "ping (clear_mappings e) = ping e"
  "listeners (clear_mappings e) = hm_new" "all_mappings (clear_mappings e) = []"
  by (simp_all add: clear_mappings_def on_rt_def all_mappings_def)

lemma stop_fields [simp]:
  "state (stop sched e) = None" "cfg (stop sched e) = cfg e" "ping (stop sched e) = None"
  "listeners (stop sched e) = hm_new" "all_mappings (stop sched e) = all_mappings e"
  by (auto simp: stop_def Let_def on_rt_def all_mappings_def split: option.splits)
    (simp_all add: stop_ping_def on_rt_def split: option.splits)

lemma no_listener_keys [simp]: "listeners e = hm_new \<Longrightarrow> listener_keys e = {}"
  by (simp add: listener_keys_def)

lemmas sim_defs = engine_inv_def abs_engine_def listening_def mapped_keys_def

lemma sim_config:
  "engine_inv e \<Longrightarrow> engine_inv (e\<lparr>cfg := c\<rparr>)"
  "abs_engine (e\<lparr>cfg := c\<rparr>) = (abs_engine e)\<lparr>config := c\<rparr>"
  by (simp_all add: sim_defs)

lemma sim_load:
  "load_config lib s e = (r, e') \<Longrightarrow> engine_inv e \<Longrightarrow>
     engine_inv e' \<and> spec_load lib s (abs_engine e) = (r, abs_engine e')"
  by (cases "toml_from_str lib s") (auto simp: load_config_def spec_load_def sim_config)

lemma sim_start:
  assumes "start lib e = (r, e')" and "engine_inv e"
  shows "engine_inv e' \<and> spec_start lib (abs_engine e) = (r, abs_engine e')"
proof (cases "start_check lib e")
  case (Inl err)
  with assms show ?thesis
    by (cases "cfg e"; cases "verifying_key lib (the (cfg e))")
      (auto simp: start_def start_check_def spec_start_def abs_engine_def split: if_splits)
next
  case (Inr c)
  then have off: "state e = None" "cfg e = Some c" "\<exists>k. verifying_key lib c = Inr k"
    by (auto simp: start_check_def split: if_splits)
  from assms(2) off(1) have none: "listener_keys e = {}" "ping e = None" "hm_invar (listeners e)"
    by (auto simp: sim_defs)
  obtain node e1 where b: "start_build lib c e = (node, e1)" by fastforce
  then obtain R where e1: "e1 = fold (mobile_spawn_listener (ns_inst node)) (all_mappings e) (e\<lparr>rt := R\<rparr>)"
    by (auto simp: start_build_def Let_def split: prod.splits)

  have e': "r = Inr ()" "e' = e1\<lparr>state := Some node\<rparr>"
    using assms(1) Inr b by (simp_all add: start_def)
  have f: "all_mappings e' = all_mappings e" "listener_keys e' = mapping_key ` set (all_mappings e)"
    "cfg e' = cfg e" "ping e' = None" "state e' = Some node" "hm_invar (listeners e')"
    using none spawn_all_invar[of "e\<lparr>rt := R\<rparr>" "ns_inst node" "all_mappings e"]
    by (simp_all add: e' e1)
  with off e' none show ?thesis by (auto simp: sim_defs spec_start_def)
qed

lemma sim_add:
  assumes "add_mapping p e = (r, e')" and "engine_inv e"
  shows "engine_inv e' \<and> on_parsed p
    (\<lambda>m. (abs_engine e)\<lparr>wanted := insert (mapping_key m) (wanted (abs_engine e))\<rparr>) (abs_engine e) =
    (r, abs_engine e')"
proof (cases p)
  case (Inr m)
  show ?thesis
  proof (cases "state e")
    case None
    with assms Inr have "e' = push_mapping m e" "r = Inr ()" by (auto simp: add_mapping_def Let_def)
    with assms(2) Inr None show ?thesis
      by (auto simp: on_parsed_def sim_defs listener_keys_def)
  next
    case (Some node)
    with assms Inr have "e' = mobile_spawn_listener (ns_inst node) m (push_mapping m e)" "r = Inr ()"
      by (auto simp: add_mapping_def Let_def)
    with assms(2) Inr Some show ?thesis
      by (auto simp: on_parsed_def sim_defs listener_keys_def spawn_listener_listeners)
  qed
qed (use assms in \<open>auto simp: add_mapping_def on_parsed_def\<close>)

lemma sim_remove:
  assumes "remove_op k sched spec e = (r, e')" and "engine_inv e"
  shows "engine_inv e' \<and> on_parsed (parse_spec k spec)
    (\<lambda>m. (abs_engine e)\<lparr>wanted := wanted (abs_engine e) - {mapping_key m}\<rparr>) (abs_engine e) =
    (r, abs_engine e')"
proof (cases "parse_spec k spec")
  case (Inr m)
  with assms(1) have "e' = stop_listener sched (mapping_key m) (drop_key m e)" "r = Inr ()"
    by (simp_all add: remove_op_eq)
  moreover have "listener_keys (drop_key m e) = listener_keys e" by (simp add: listener_keys_def)
  moreover have "mapping_key ` {x \<in> set (all_mappings e). mapping_key x \<noteq> mapping_key m} =
      mapping_key ` set (all_mappings e) - {mapping_key m}" by auto
  ultimately show ?thesis
    using assms(2) Inr by (auto simp: on_parsed_def sim_defs drop_key_mappings)
qed (use assms in \<open>auto simp: remove_op_eq on_parsed_def\<close>)

lemma sim_ping:
  assumes "start_ping a n t i e = (r, e')" and "engine_inv e"
  shows "engine_inv e' \<and> spec_ping a (abs_engine e) = (r, abs_engine e')"
proof (cases "ping_target a")
  case (Inl err)
  with assms show ?thesis
    by (auto simp: start_ping_def spec_ping_def ping_target_def split: option.splits if_splits)
next
  case (Inr dst)
  show ?thesis
  proof (cases "state e")
    case None
    with Inr assms show ?thesis
      by (auto simp: start_ping_def spec_ping_def ping_target_def abs_engine_def split: option.splits if_splits)
  next
    case (Some node)
    with Inr assms obtain R p where "r = Inr ()" "e' = (on_rt R (stop_ping e))\<lparr>ping := Some p\<rparr>"
      by (auto simp: start_ping_def ping_target_def Let_def split: option.splits if_splits)
    then have "r = Inr ()" "state e' = state e" "cfg e' = cfg e" "ping e' \<noteq> None"
      "listeners e' = listeners e" "all_mappings e' = all_mappings e"
      by simp_all
    with assms(2) Inr Some show ?thesis
      by (auto simp: spec_ping_def sim_defs listener_keys_def)
  qed
qed

lemma sim_fields:
  assumes "engine_inv e" "state e' = state e" "cfg e' = cfg e" "listeners e' = listeners e"
    "all_mappings e' = all_mappings e"
  shows "ping e' = ping e \<Longrightarrow> engine_inv e' \<and> abs_engine e' = abs_engine e"
    and "ping e' = None \<Longrightarrow> engine_inv e' \<and> abs_engine e' = (abs_engine e)\<lparr>pinging := False\<rparr>"
  using assms by (simp_all add: sim_defs listener_keys_def)

lemma sim_op:
  assumes "exec_op lib op e = (r, e')" and inv: "engine_inv e"
  shows "engine_inv e' \<and> spec_op lib op (abs_engine e) = (r, abs_engine e')"
proof (cases op)
  case (Load_Config s)
  with assms sim_load[of lib s e r e'] show ?thesis by simp
next
  case Generate_Config
  with assms sim_load[of lib _ e r e'] show ?thesis by (simp add: generate_and_load_config_def)
next
  case Start
  with assms sim_start[of lib e r e'] show ?thesis by simp
next
  case (Add k spec)
  with assms sim_add[of "parse_spec k spec" e r e'] show ?thesis by (simp add: add_op_eq)
next
  case (Remove k sched spec)
  with assms sim_remove[of k sched spec e r e'] show ?thesis by simp
next
  case (Start_Ping a n t i)
  with assms sim_ping[of a n t i e r e'] show ?thesis by simp
next
  case (Stop sched)
  with assms show ?thesis by (auto simp: sim_defs)
next
  case Clear_Mappings
  with assms show ?thesis by (auto simp: sim_defs)
next
  case Stop_Ping
  with assms sim_fields(2)[OF inv, of "stop_ping e"] show ?thesis by auto
next
  case (Task_Event ev)
  with assms sim_fields(1)[OF inv, of "on_rt (task_event ev) e"] show ?thesis by auto
qed (use assms sim_fields(1)[OF inv, of e'] in \<open>auto simp: set_socks_def set_http_def set_nameserver_def
    set_peer_status_callback_def all_mappings_def\<close>)

interpretation engine: call_simulation "exec_op lib" engine_inv "spec_op lib" abs_engine for lib
  by unfold_locales (simp_all add: sim_op)

lemma engine_inv_new: "engine_inv engine_new \<and> abs_engine engine_new = spec_new"
  by (simp add: sim_defs engine_new_def spec_new_def listener_keys_def all_mappings_def)


end
