(* ===== verification/Mobile_Tasks.thy ===== *)
theory Mobile_Tasks
  imports Mobile_Lifecycle
begin

text \<open>
  Instances and tasks of the mobile engine.  The wiring of the runtime (which task belongs to
  which listener entry, on which channel) is an invariant of every operation; on it rest the
  results on what \<open>stop\<close> ends, and on the two ways a listener can lose the engine's track: its
  mapping is added a second time, or the mappings are cleared before its task has subscribed.
\<close>

section \<open>The wiring\<close>

fun is_forwarder :: "task_kind \<Rightarrow> bool" where
  "is_forwarder (Forwarder k) = True"
| "is_forwarder (Proxy k s) = False"
| "is_forwarder Peer_Events = False"

definition task_shapes :: "runtime \<Rightarrow> (task_kind \<times> nat) list" where
  "task_shapes R = map (\<lambda>t. (tk_kind t, tk_chan t)) (rt_tasks R)"

definition node_handles :: "NodeState \<Rightarrow> nat set" where
  "node_handles n = set_option (socks_handle n) \<union> set_option (http_handle n) \<union>
     set_option (peer_events_handle n)"

definition entries_ok :: "(task_kind \<times> nat) list \<Rightarrow> (string, RunningListener) hash_map \<Rightarrow> bool" where
  "entries_ok ts L \<longleftrightarrow> (\<forall>k l. hm_get L k = Some l \<longrightarrow>
     rl_handle l < length ts \<and> ts ! rl_handle l = (Forwarder k, rl_stop l))"

definition chans_ok :: "(task_kind \<times> nat) list \<Rightarrow> nat \<Rightarrow> bool" where
  "chans_ok ts cs \<longleftrightarrow> (\<forall>i<length ts. snd (ts ! i) < cs) \<and>
     (\<forall>i<length ts. \<forall>j<length ts. i \<noteq> j \<longrightarrow> is_forwarder (fst (ts ! i)) \<longrightarrow> snd (ts ! i) \<noteq> snd (ts ! j))"

definition node_ok :: "(task_kind \<times> nat) list \<Rightarrow> nat \<Rightarrow> NodeState \<Rightarrow> bool" where
  "node_ok ts cs n \<longleftrightarrow> ns_stop n < cs \<and>
     (\<forall>i<length ts. is_forwarder (fst (ts ! i)) \<longrightarrow> snd (ts ! i) \<noteq> ns_stop n) \<and>
     (\<forall>i\<in>node_handles n. i < length ts \<and> \<not> is_forwarder (fst (ts ! i)))"

definition wired ::
  "(task_kind \<times> nat) list \<Rightarrow> nat \<Rightarrow> (string, RunningListener) hash_map \<Rightarrow> NodeState option \<Rightarrow> bool" where
  "wired ts cs L S \<longleftrightarrow> entries_ok ts L \<and> chans_ok ts cs \<and> (\<forall>n. S = Some n \<longrightarrow> node_ok ts cs n)"

definition engine_wired :: "'x YggstackMobile \<Rightarrow> bool" where
  "engine_wired e \<longleftrightarrow> wired (task_shapes (rt e)) (rt_chans (rt e)) (listeners e) (state e)"

text \<open>Operations on the runtime that spawn nothing keep the wiring.\<close>

lemma length_task_shapes [simp]: "length (task_shapes R) = length (rt_tasks R)"
  by (simp add: task_shapes_def)

lemma task_shapes_nth [simp]:
  "i < length (rt_tasks R) \<Longrightarrow> task_shapes R ! i = (tk_kind (rt_tasks R ! i), tk_chan (rt_tasks R ! i))"
  by (simp add: task_shapes_def)

lemma wiring_set_phase [simp]:
  "task_shapes (set_phase i ph R) = task_shapes R" "rt_chans (set_phase i ph R) = rt_chans R"
  "rt_insts (set_phase i ph R) = rt_insts R" "rt_pings (set_phase i ph R) = rt_pings R"
proof -
  show "task_shapes (set_phase i ph R) = task_shapes R"
    by (cases "i < length (rt_tasks R)")
      (auto simp: task_shapes_def set_phase_def upd_task_def list_eq_iff_nth_eq nth_list_update)
qed (simp_all add: set_phase_def upd_task_def)

lemma wiring_upd_inst [simp]:
  "task_shapes (upd_inst i f R) = task_shapes R" "rt_chans (upd_inst i f R) = rt_chans R"
  "rt_tasks (upd_inst i f R) = rt_tasks R" "rt_pings (upd_inst i f R) = rt_pings R"
  by (simp_all add: task_shapes_def upd_inst_def)

lemma wiring_send_stop [simp]:
  "task_shapes (send_stop c R) = task_shapes R" "rt_chans (send_stop c R) = rt_chans R"
  "rt_insts (send_stop c R) = rt_insts R" "rt_pings (send_stop c R) = rt_pings R"
  by (auto simp: task_shapes_def send_stop_def hear_stop_def split: phase.splits)

lemma wiring_task_bound [simp]:
  "task_shapes (task_bound k inst i res R) = task_shapes R"
  "rt_chans (task_bound k inst i res R) = rt_chans R" "rt_pings (task_bound k inst i res R) = rt_pings R"
  by (cases "(k, inst, i, res, R)" rule: task_bound.cases; simp add: unregister_def)+

lemma wiring_task_stops [simp]:
  "task_shapes (task_stops k inst i R) = task_shapes R"
  "rt_chans (task_stops k inst i R) = rt_chans R" "rt_pings (task_stops k inst i R) = rt_pings R"
  by (cases k; simp add: unregister_def)+

lemma wiring_task_event [simp]:
  "task_shapes (task_event ev R) = task_shapes R" "rt_chans (task_event ev R) = rt_chans R"
  "rt_pings (task_event ev R) = rt_pings R"
  by (cases ev; simp)+

lemma wiring_run_tasks [simp]:
  "task_shapes (run_tasks evs R) = task_shapes R" "rt_chans (run_tasks evs R) = rt_chans R"
  "rt_pings (run_tasks evs R) = rt_pings R"
  unfolding run_tasks_def by (induction evs arbitrary: R) simp_all

lemma wiring_join [simp]:
  "task_shapes (join_listener sched i R) = task_shapes R"
  "rt_chans (join_listener sched i R) = rt_chans R" "rt_pings (join_listener sched i R) = rt_pings R"
  by (simp_all add: join_listener_def Let_def)

lemma wiring_send_stops [simp]:
  "task_shapes (send_stops ls R) = task_shapes R" "rt_chans (send_stops ls R) = rt_chans R"
  "rt_insts (send_stops ls R) = rt_insts R" "rt_pings (send_stops ls R) = rt_pings R"
  unfolding send_stops_def by (induction ls arbitrary: R) simp_all

lemma wiring_stop_listeners [simp]:
  "task_shapes (stop_listeners sched ls R) = task_shapes R"
  "rt_chans (stop_listeners sched ls R) = rt_chans R" "rt_pings (stop_listeners sched ls R) = rt_pings R"
proof -
  have "task_shapes (fold (\<lambda>l. join_listener sched (rl_handle l)) ls R) = task_shapes R \<and>
      rt_chans (fold (\<lambda>l. join_listener sched (rl_handle l)) ls R) = rt_chans R \<and>
      rt_pings (fold (\<lambda>l. join_listener sched (rl_handle l)) ls R) = rt_pings R" for R
    by (induction ls arbitrary: R) simp_all
  then show "task_shapes (stop_listeners sched ls R) = task_shapes R"
    "rt_chans (stop_listeners sched ls R) = rt_chans R" "rt_pings (stop_listeners sched ls R) = rt_pings R"
    by (simp_all add: stop_listeners_def)
qed

lemma wiring_stop_node [simp]:
  "task_shapes (stop_node sched n R) = task_shapes R" "rt_chans (stop_node sched n R) = rt_chans R"
  "rt_pings (stop_node sched n R) = rt_pings R"
  by (simp_all add: stop_node_def Let_def join_optional_def split: option.splits)

lemma wired_fewer:
  assumes "wired ts cs L S" and "\<And>k l. hm_get L' k = Some l \<Longrightarrow> hm_get L k = Some l"
    and "S' = S \<or> S' = None"
  shows "wired ts cs L' S'"
  using assms unfolding wired_def entries_ok_def by blast

lemma wired_spawn:
  assumes "wired ts cs L S"
  shows "wired (ts @ [(Forwarder k, cs)]) (Suc cs)
    (hm_insert k \<lparr>rl_stop = cs, rl_handle = length ts\<rparr> L) S"
proof -
  from assms have e: "entries_ok ts L" and c: "chans_ok ts cs" and n: "\<And>n. S = Some n \<Longrightarrow> node_ok ts cs n"
    by (simp_all add: wired_def)
  have "entries_ok (ts @ [(Forwarder k, cs)]) (hm_insert k \<lparr>rl_stop = cs, rl_handle = length ts\<rparr> L)"
    using e by (auto simp: entries_ok_def nth_append less_SucI split: if_splits)
  moreover have "chans_ok (ts @ [(Forwarder k, cs)]) (Suc cs)"
    using c unfolding chans_ok_def by (auto simp: nth_append less_Suc_eq)
  moreover have "node_ok (ts @ [(Forwarder k, cs)]) (Suc cs) n" if "S = Some n" for n
    using n[OF that] unfolding node_ok_def by (auto simp: nth_append less_Suc_eq)
  ultimately show ?thesis by (simp add: wired_def)
qed

lemma spawn_listener_wiring:
  "task_shapes (rt (mobile_spawn_listener i m e)) = task_shapes (rt e) @ [(Forwarder (mapping_key m), rt_chans (rt e))]"
  "rt_chans (rt (mobile_spawn_listener i m e)) = Suc (rt_chans (rt e))"
  "rt_pings (rt (mobile_spawn_listener i m e)) = rt_pings (rt e)"
  using fst_spawn_fn[of m "ni_stats (rt_insts (rt e) ! i)"]
  by (auto simp: mobile_spawn_listener_def Let_def spawn_task_def task_shapes_def upd_inst_def
      split: prod.splits)

lemma wired_spawn_listener:
  "wired (task_shapes (rt e)) (rt_chans (rt e)) (listeners e) S \<Longrightarrow>
   wired (task_shapes (rt (mobile_spawn_listener i m e))) (rt_chans (rt (mobile_spawn_listener i m e)))
     (listeners (mobile_spawn_listener i m e)) S"
  using wired_spawn[of "task_shapes (rt e)" "rt_chans (rt e)" "listeners e" S "mapping_key m"]
  by (simp add: spawn_listener_wiring spawn_listener_listeners)

lemma wired_spawn_all:
  "wired (task_shapes (rt e)) (rt_chans (rt e)) (listeners e) S \<Longrightarrow>
   wired (task_shapes (rt (fold (mobile_spawn_listener i) ms e))) (rt_chans (rt (fold (mobile_spawn_listener i) ms e)))
     (listeners (fold (mobile_spawn_listener i) ms e)) S"
  by (induction ms arbitrary: e) (simp_all add: wired_spawn_listener)

lemma wired_node:
  assumes "wired ts cs L S" and xs: "\<And>x. x \<in> set xs \<Longrightarrow> \<not> is_forwarder (fst x) \<and> snd x = cs"
    and "ns_stop n = cs" and h: "\<And>i. i \<in> node_handles n \<Longrightarrow> length ts \<le> i \<and> i < length ts + length xs"
  shows "wired (ts @ xs) (Suc cs) L (Some n)"
proof -
  from assms(1) have e: "entries_ok ts L" and c: "chans_ok ts cs" by (simp_all add: wired_def)
  have nth: "\<not> is_forwarder (fst (xs ! i)) \<and> snd (xs ! i) = cs" if "i < length xs" for i
    using xs[of "xs ! i"] that by simp
  have at: "(ts @ xs) ! i = ts ! i" if "i < length ts" for i using that by (simp add: nth_append)
  have new: "\<not> is_forwarder (fst ((ts @ xs) ! i)) \<and> snd ((ts @ xs) ! i) = cs"
    if "length ts \<le> i" "i < length ts + length xs" for i
    using nth[of "i - length ts"] that by (simp add: nth_append)
  have old: "snd (ts ! i) < cs" if "i < length ts" for i using c that by (simp add: chans_ok_def)
  have "entries_ok (ts @ xs) L" using e by (auto simp: entries_ok_def nth_append trans_less_add1)
  moreover have "chans_ok (ts @ xs) (Suc cs)"
    unfolding chans_ok_def
  proof (intro conjI allI impI)
    fix i assume "i < length (ts @ xs)"
    then show "snd ((ts @ xs) ! i) < Suc cs"
      using old[of i] at[of i] new[of i] by (cases "i < length ts") auto
  next
    fix i j assume i: "i < length (ts @ xs)" and j: "j < length (ts @ xs)" and ne: "i \<noteq> j"
      and f: "is_forwarder (fst ((ts @ xs) ! i))"
    have "i < length ts" using f new[of i] i by (cases "i < length ts") auto
    with c ne f at[of i] old[of i] at[of j] new[of j] j show "snd ((ts @ xs) ! i) \<noteq> snd ((ts @ xs) ! j)"
      by (cases "j < length ts") (auto simp: chans_ok_def)
  qed
  moreover have "node_ok (ts @ xs) (Suc cs) n"
    unfolding node_ok_def
  proof (intro conjI allI impI ballI)
    show "ns_stop n < Suc cs" using assms(3) by simp
    fix i
    assume "i < length (ts @ xs)" "is_forwarder (fst ((ts @ xs) ! i))"
    then show "snd ((ts @ xs) ! i) \<noteq> ns_stop n"
      using old[of i] at[of i] new[of i] assms(3) by (cases "i < length ts") auto
  next
    fix i assume "i \<in> node_handles n"
    with h[of i] new[of i] show "i < length (ts @ xs)" "\<not> is_forwarder (fst ((ts @ xs) ! i))" by auto
  qed
  ultimately show ?thesis by (simp add: wired_def)
qed

text \<open>The tasks \<open>start_build\<close> spawns for the node itself.\<close>

definition node_tasks :: "'x YggstackMobile \<Rightarrow> (task_kind \<times> phase) list" where
  "node_tasks e =
     (if peer_status_callback e then [(Peer_Events, Serving False)] else []) @
     (if socks_addr e \<noteq> None then [(Proxy SOCKS_STATS_KEY ''socks'', Starting)] else []) @
     (if http_addr e \<noteq> None then [(Proxy HTTP_STATS_KEY ''http'', Starting)] else [])"

definition fresh_inst :: "'x engine_lib \<Rightarrow> 'x ygg_config_scheme \<Rightarrow> node_inst" where
  "fresh_inst lib c =
     \<lparr>ni_stats = new_registry, core_open = True,
      multicast_open = (has_multicast lib c \<and> start_multicast lib = Inr ()), netstack_open = True\<rparr>"

definition node_runtime :: "'x engine_lib \<Rightarrow> 'x ygg_config_scheme \<Rightarrow> 'x YggstackMobile \<Rightarrow> runtime" where
  "node_runtime lib c e =
     (rt e)\<lparr>rt_insts := rt_insts (rt e) @ [fresh_inst lib c], rt_chans := Suc (rt_chans (rt e)),
       rt_tasks := rt_tasks (rt e) @ map (\<lambda>(k, ph). \<lparr>tk_kind = k, tk_chan = rt_chans (rt e),
         tk_inst = length (rt_insts (rt e)), tk_phase = ph\<rparr>) (node_tasks e)\<rparr>"

lemma start_build_eq:
  assumes "start_build lib c e = (node, e1)"
  shows "e1 = fold (mobile_spawn_listener (ns_inst node)) (all_mappings e) (e\<lparr>rt := node_runtime lib c e\<rparr>)"
    and "ns_inst node = length (rt_insts (rt e))" "ns_stop node = rt_chans (rt e)"
    and "node_handles node =
      {length (rt_tasks (rt e))..<length (rt_tasks (rt e)) + length (node_tasks e)}"
proof -
  show "e1 = fold (mobile_spawn_listener (ns_inst node)) (all_mappings e) (e\<lparr>rt := node_runtime lib c e\<rparr>)"
    using assms
    by (cases "peer_status_callback e"; cases "socks_addr e"; cases "http_addr e")
      (auto simp: start_build_def Let_def spawn_optional_def spawn_task_def node_tasks_def fresh_inst_def
        node_runtime_def)
  show "ns_inst node = length (rt_insts (rt e))" "ns_stop node = rt_chans (rt e)"
    using assms by (auto simp: start_build_def Let_def split: prod.splits)
  show "node_handles node =
      {length (rt_tasks (rt e))..<length (rt_tasks (rt e)) + length (node_tasks e)}"
    using assms
    by (cases "peer_status_callback e"; cases "socks_addr e"; cases "http_addr e")
      (auto simp: start_build_def Let_def spawn_optional_def spawn_task_def node_tasks_def node_handles_def)
qed

lemma node_tasks_proxy: "x \<in> set (node_tasks e) \<Longrightarrow> \<not> is_forwarder (fst x)"
  by (auto simp: node_tasks_def split: if_splits)

lemma wired_start:
  assumes "engine_wired e" and "start_build lib c e = (node, e1)"
  shows "engine_wired (e1\<lparr>state := Some node\<rparr>)"
proof -
  note R = start_build_eq[OF assms(2)]
  let ?xs = "map (\<lambda>(k, ph). (k, rt_chans (rt e))) (node_tasks e)"
  let ?R = "node_runtime lib c e"
  have ts: "task_shapes ?R = task_shapes (rt e) @ ?xs" "rt_chans ?R = Suc (rt_chans (rt e))"
    by (auto simp: task_shapes_def node_runtime_def)
  have "wired (task_shapes (rt e) @ ?xs) (Suc (rt_chans (rt e))) (listeners e) (Some node)"
  proof (rule wired_node)
    show "wired (task_shapes (rt e)) (rt_chans (rt e)) (listeners e) (state e)"
      using assms(1) by (simp add: engine_wired_def)
  next
    fix x assume "x \<in> set ?xs"
    then show "\<not> is_forwarder (fst x) \<and> snd x = rt_chans (rt e)" by (auto dest: node_tasks_proxy)
  next
    fix i assume "i \<in> node_handles node"
    then show "length (task_shapes (rt e)) \<le> i \<and> i < length (task_shapes (rt e)) + length ?xs"
      using R(4) by simp
  qed (rule R(3))
  then have "wired (task_shapes (rt (e\<lparr>rt := ?R\<rparr>))) (rt_chans (rt (e\<lparr>rt := ?R\<rparr>))) (listeners (e\<lparr>rt := ?R\<rparr>)) (Some node)"
    using ts by simp
  from wired_spawn_all[OF this, of "ns_inst node" "all_mappings e"] show ?thesis
    by (simp add: engine_wired_def R(1))
qed

lemma wiring_pings [simp]:
  "task_shapes (R\<lparr>rt_pings := ps\<rparr>) = task_shapes R"
  "task_shapes (rt (stop_ping e)) = task_shapes (rt e)" "rt_chans (rt (stop_ping e)) = rt_chans (rt e)"
  "rt_tasks (rt (stop_ping e)) = rt_tasks (rt e)" "rt_insts (rt (stop_ping e)) = rt_insts (rt e)"
  by (simp_all add: task_shapes_def stop_ping_def split: option.splits)

lemma wired_same:
  assumes "engine_wired e" and "task_shapes (rt e') = task_shapes (rt e)" "rt_chans (rt e') = rt_chans (rt e)"
    and "\<And>k l. hm_get (listeners e') k = Some l \<Longrightarrow> hm_get (listeners e) k = Some l"
    and "state e' = state e \<or> state e' = None"
  shows "engine_wired e'"
  using assms wired_fewer unfolding engine_wired_def by metis

lemma wired_op:
  assumes "exec_op lib op e = (r, e')" and "engine_wired e"
  shows "engine_wired e'"
proof (cases op)
  case Start
  with assms show ?thesis
    by (auto simp: start_def split: sum.splits prod.splits intro: wired_start)
next
  case (Add k spec)
  with assms wired_spawn_listener[of "push_mapping _ e" "state e"] show ?thesis
    by (auto simp: add_op_eq add_mapping_def Let_def engine_wired_def split: sum.splits option.splits)
next
  case (Remove k sched spec)
  show ?thesis
  proof (rule wired_same[OF assms(2)])
    fix k' l assume "hm_get (listeners e') k' = Some l"
    then show "hm_get (listeners e) k' = Some l"
      using Remove assms(1)
      by (auto simp: remove_op_eq stop_listener_def split: sum.splits option.splits if_splits)
  qed (use Remove assms(1) in \<open>auto simp: remove_op_eq stop_listener_def split: sum.splits option.splits\<close>)
next
  case (Stop sched)
  with assms(1) have e': "e' = stop sched e" by simp
  show ?thesis
    by (rule wired_same[OF assms(2)])
      (auto simp: e' stop_def Let_def split: option.splits)
next
  case Clear_Mappings
  with assms(1) have e': "e' = clear_mappings e" by simp
  show ?thesis by (rule wired_same[OF assms(2)]) (auto simp: e' clear_mappings_def on_rt_def)
next
  case (Task_Event ev)
  with assms(1) have e': "e' = on_rt (task_event ev) e" by simp
  show ?thesis by (rule wired_same[OF assms(2)]) (auto simp: e')
next
  case (Start_Ping a n t i)
  show ?thesis
    by (rule wired_same[OF assms(2)])
      (use Start_Ping assms(1) in \<open>auto simp: start_ping_def Let_def split: option.splits if_splits\<close>)
next
  case Stop_Ping
  with assms(1) have e': "e' = stop_ping e" by simp
  show ?thesis by (rule wired_same[OF assms(2)]) (auto simp: e')
qed (use assms wired_same[OF assms(2), of e'] in \<open>auto simp: load_config_def generate_and_load_config_def set_socks_def set_http_def set_nameserver_def
    set_peer_status_callback_def split: sum.splits\<close>)

interpretation wiring: call_invariant "exec_op lib" engine_wired for lib
  by unfold_locales (rule wired_op)

lemma wired_new [simp]: "engine_wired engine_new"
  by (simp add: engine_wired_def engine_new_def wired_def entries_ok_def chans_ok_def task_shapes_def)

section \<open>Listeners out of reach\<close>

text \<open>A task serving its port with no stop pending, on its channel.\<close>

definition serves :: "nat \<Rightarrow> nat \<Rightarrow> runtime \<Rightarrow> bool" where
  "serves i c R \<longleftrightarrow> i < length (rt_tasks R) \<and> tk_phase (rt_tasks R ! i) = Serving False \<and>
     tk_chan (rt_tasks R ! i) = c"

lemma set_phase_nth:
  "i < length (rt_tasks R) \<Longrightarrow> rt_tasks (set_phase j ph R) ! i =
     (if j = i then (rt_tasks R ! i)\<lparr>tk_phase := ph\<rparr> else rt_tasks R ! i)"
  "length (rt_tasks (set_phase j ph R)) = length (rt_tasks R)"
  by (auto simp: set_phase_def upd_task_def nth_list_update)

lemma rt_tasks_unregister [simp]: "rt_tasks (unregister inst k R) = rt_tasks R"
  by (simp add: unregister_def)

lemma serves_set_phase: "serves i c R \<Longrightarrow> j \<noteq> i \<Longrightarrow> serves i c (set_phase j ph R)"
  by (simp add: serves_def set_phase_nth)

lemma serves_upd_inst [simp]: "serves i c (upd_inst n f R) = serves i c R"
  by (simp add: serves_def)

lemma serves_bound: "serves i c R \<Longrightarrow> j \<noteq> i \<Longrightarrow> serves i c (task_bound k inst j res R)"
  by (cases "(k, inst, j, res, R)" rule: task_bound.cases) (simp_all add: serves_set_phase unregister_def)

lemma serves_stops: "serves i c R \<Longrightarrow> j \<noteq> i \<Longrightarrow> serves i c (task_stops k inst j R)"
  by (cases k) (simp_all add: serves_set_phase unregister_def)

lemma serves_task_event: "serves i c R \<Longrightarrow> serves i c (task_event ev R)"
proof (cases ev)
  case (Bound j res)
  assume s: "serves i c R"
  then have "tk_phase (rt_tasks R ! j) = Starting \<Longrightarrow> j \<noteq> i" by (auto simp: serves_def)
  with s Bound show ?thesis by (auto intro: serves_bound)
next
  case (Sees_Stop j)
  assume s: "serves i c R"
  then have "tk_phase (rt_tasks R ! j) = Serving True \<Longrightarrow> j \<noteq> i" by (auto simp: serves_def)
  with s Sees_Stop show ?thesis by (auto intro: serves_stops)
qed

lemma serves_run_tasks: "serves i c R \<Longrightarrow> serves i c (run_tasks evs R)"
  unfolding run_tasks_def by (induction evs arbitrary: R) (simp_all add: serves_task_event)

lemma serves_send_stop: "serves i c R \<Longrightarrow> c' \<noteq> c \<Longrightarrow> serves i c (send_stop c' R)"
  by (auto simp: serves_def send_stop_def hear_stop_def)

lemma serves_join: "serves i c R \<Longrightarrow> j \<noteq> i \<Longrightarrow> serves i c (join_listener sched j R)"
  by (simp add: join_listener_def Let_def serves_run_tasks serves_set_phase)

lemma serves_send_stops: "serves i c R \<Longrightarrow> \<forall>l\<in>set ls. rl_stop l \<noteq> c \<Longrightarrow> serves i c (send_stops ls R)"
  unfolding send_stops_def by (induction ls arbitrary: R) (simp_all add: serves_send_stop)

lemma serves_stop_listeners:
  assumes "serves i c R" and "\<forall>l\<in>set ls. rl_stop l \<noteq> c \<and> rl_handle l \<noteq> i"
  shows "serves i c (stop_listeners sched ls R)"
proof -
  have "serves i c (fold (\<lambda>l. join_listener sched (rl_handle l)) ls R)"
    if "serves i c R" "\<forall>l\<in>set ls. rl_handle l \<noteq> i" for R
    using that by (induction ls arbitrary: R) (simp_all add: serves_join)
  with assms serves_send_stops[of i c R ls] show ?thesis by (simp add: stop_listeners_def)
qed

lemma serves_stop_node:
  assumes "serves i c R" and "ns_stop n \<noteq> c" and "i \<notin> node_handles n"
  shows "serves i c (stop_node sched n R)"
  using assms
  by (auto simp: stop_node_def Let_def join_optional_def node_handles_def
      intro!: serves_join serves_send_stop split: option.splits)

text \<open>An entry's task, from the wiring.\<close>

lemma entry_task:
  assumes "engine_wired e" and "hm_get (listeners e) k = Some l"
  shows "rl_handle l < length (rt_tasks (rt e))" "tk_kind (rt_tasks (rt e) ! rl_handle l) = Forwarder k"
    "tk_chan (rt_tasks (rt e) ! rl_handle l) = rl_stop l"
proof -
  have "entries_ok (task_shapes (rt e)) (listeners e)"
    using assms(1) by (simp add: engine_wired_def wired_def)
  with assms(2) have h: "rl_handle l < length (task_shapes (rt e))"
    "task_shapes (rt e) ! rl_handle l = (Forwarder k, rl_stop l)"
    unfolding entries_ok_def by blast+
  then show "rl_handle l < length (rt_tasks (rt e))" "tk_kind (rt_tasks (rt e) ! rl_handle l) = Forwarder k"
    "tk_chan (rt_tasks (rt e) ! rl_handle l) = rl_stop l" by simp_all
qed

text \<open>A forwarder that no entry refers to.\<close>

definition untracked :: "nat \<Rightarrow> 'x YggstackMobile \<Rightarrow> bool" where
  "untracked i e \<longleftrightarrow> i < length (rt_tasks (rt e)) \<and> is_forwarder (tk_kind (rt_tasks (rt e) ! i)) \<and>
     (\<forall>k l. hm_get (listeners e) k = Some l \<longrightarrow> rl_handle l \<noteq> i)"

lemma untracked_unreachable:
  assumes "engine_wired e" and "untracked i e"
  shows "\<And>k l. hm_get (listeners e) k = Some l \<Longrightarrow> rl_stop l \<noteq> tk_chan (rt_tasks (rt e) ! i) \<and> rl_handle l \<noteq> i"
    and "\<And>n. state e = Some n \<Longrightarrow> ns_stop n \<noteq> tk_chan (rt_tasks (rt e) ! i) \<and> i \<notin> node_handles n"
proof -
  have w: "chans_ok (task_shapes (rt e)) (rt_chans (rt e))"
    using assms(1) by (simp_all add: engine_wired_def wired_def)
  have u: "i < length (rt_tasks (rt e))" "is_forwarder (tk_kind (rt_tasks (rt e) ! i))"
    "\<And>k l. hm_get (listeners e) k = Some l \<Longrightarrow> rl_handle l \<noteq> i"
    using assms(2) by (auto simp: untracked_def)
  fix k l assume g: "hm_get (listeners e) k = Some l"
  note h = entry_task(1)[OF assms(1) g] and hc = entry_task(3)[OF assms(1) g]
  have "tk_chan (rt_tasks (rt e) ! i) \<noteq> tk_chan (rt_tasks (rt e) ! rl_handle l)"
    using w u(1,2) u(3)[OF g] h by (auto simp: chans_ok_def)
  with hc u(3)[OF g] show "rl_stop l \<noteq> tk_chan (rt_tasks (rt e) ! i) \<and> rl_handle l \<noteq> i" by auto
next
  fix n assume "state e = Some n"
  with assms show "ns_stop n \<noteq> tk_chan (rt_tasks (rt e) ! i) \<and> i \<notin> node_handles n"
    by (auto simp: engine_wired_def wired_def node_ok_def untracked_def)
qed

text \<open>The old tasks of a runtime are the prefix that later spawns leave alone.\<close>

lemma spawn_listener_old:
  "\<exists>t. rt_tasks (rt (mobile_spawn_listener n m e)) = rt_tasks (rt e) @ [t]"
  by (auto simp: mobile_spawn_listener_def Let_def spawn_task_def split: prod.splits)

lemma spawn_all_old: "\<exists>ts. rt_tasks (rt (fold (mobile_spawn_listener n) ms e)) = rt_tasks (rt e) @ ts"
proof (induction ms arbitrary: e)
  case (Cons m ms)
  obtain t where t: "rt_tasks (rt (mobile_spawn_listener n m e)) = rt_tasks (rt e) @ [t]"
    using spawn_listener_old by blast
  from Cons[of "mobile_spawn_listener n m e"] t show ?case by auto
qed simp

lemma start_old:
  assumes "start_build lib c e = (node, e1)"
  shows "\<exists>ts. rt_tasks (rt e1) = rt_tasks (rt e) @ ts"
  using spawn_all_old[of "ns_inst node" "all_mappings e" "e\<lparr>rt := node_runtime lib c e\<rparr>"]
  by (auto simp: start_build_eq(1)[OF assms] node_runtime_def)

lemma serves_append: "serves i c R \<Longrightarrow> rt_tasks R' = rt_tasks R @ ts \<Longrightarrow> serves i c R'"
  by (auto simp: serves_def nth_append)

lemma serves_op:
  assumes op: "exec_op lib op e = (r, e')" and w: "engine_wired e" and u: "untracked i e"
    and s: "serves i c (rt e)" and inv: "hm_invar (listeners e)"
  shows "serves i c (rt e')"
proof -
  have ci: "tk_chan (rt_tasks (rt e) ! i) = c" using s by (simp add: serves_def)
  note un = untracked_unreachable[OF w u, unfolded ci]
  have ls: "\<forall>l\<in>set (hm_values (listeners e)). rl_stop l \<noteq> c \<and> rl_handle l \<noteq> i"
  proof
    fix l assume "l \<in> set (hm_values (listeners e))"
    then obtain k where "hm_get (listeners e) k = Some l" using hm_values_get[OF inv] by blast
    then show "rl_stop l \<noteq> c \<and> rl_handle l \<noteq> i" by (rule un(1))
  qed
  show ?thesis
  proof (cases op)
    case Start
    show ?thesis
    proof (cases "start_check lib e")
      case (Inr cc)
      obtain node e1 where b: "start_build lib cc e = (node, e1)" by fastforce
      with start_old[OF b] Start Inr op s show ?thesis by (auto simp: start_def intro: serves_append)
    qed (use Start op s in \<open>auto simp: start_def\<close>)
  next
    case (Add k spec)
    show ?thesis
    proof (cases "parse_spec k spec")
      case (Inr m)
      show ?thesis
      proof (cases "state e")
        case (Some node)
        with Inr Add op have "e' = mobile_spawn_listener (ns_inst node) m (push_mapping m e)"
          by (simp add: add_op_eq add_mapping_def)
        with spawn_listener_old[of "ns_inst node" m "push_mapping m e"] s show ?thesis
          by (auto intro: serves_append)
      qed (use Inr Add op s in \<open>auto simp: add_op_eq add_mapping_def\<close>)
    qed (use Add op s in \<open>auto simp: add_op_eq add_mapping_def\<close>)
  next
    case (Remove k sched spec)
    with op s un(1) show ?thesis
      by (auto simp: remove_op_eq stop_listener_def serves_join serves_send_stop split: sum.splits option.splits)
  next
    case (Stop sched)
    have "serves i c (rt (stop_ping e))" using s by (simp add: serves_def)
    with Stop op un(2) ls show ?thesis
      by (auto simp: stop_def Let_def serves_stop_listeners serves_stop_node split: option.splits)
  next
    case Clear_Mappings
    with op s ls show ?thesis by (auto simp: clear_mappings_def serves_send_stops)
  next
    case (Task_Event ev)
    with op s show ?thesis by (auto simp: serves_task_event)
  next
    case (Start_Ping a n t j)
    with op s show ?thesis
      by (auto simp: start_ping_def Let_def serves_def split: option.splits if_splits)
  next
    case Stop_Ping
    with op s show ?thesis by (auto simp: serves_def)
  qed (use op s in \<open>auto simp: load_config_def generate_and_load_config_def set_socks_def set_http_def
      set_nameserver_def set_peer_status_callback_def split: sum.splits\<close>)
qed

text \<open>Operations only append tasks, and a new entry refers to a new task.\<close>

definition grows :: "'x YggstackMobile \<Rightarrow> 'x YggstackMobile \<Rightarrow> bool" where
  "grows e e' \<longleftrightarrow> (\<exists>xs. task_shapes (rt e') = task_shapes (rt e) @ xs) \<and>
     (\<forall>k l. hm_get (listeners e') k = Some l \<longrightarrow>
        hm_get (listeners e) k = Some l \<or> length (rt_tasks (rt e)) \<le> rl_handle l)"

lemma growsI:
  assumes "task_shapes (rt e') = task_shapes (rt e) @ xs"
    and "\<And>k l. hm_get (listeners e') k = Some l \<Longrightarrow>
      hm_get (listeners e) k = Some l \<or> length (rt_tasks (rt e)) \<le> rl_handle l"
  shows "grows e e'"
  using assms unfolding grows_def by blast

lemma grows_trans:
  assumes "grows e e'" and "grows e' e''"
  shows "grows e e''"
proof -
  from assms obtain xs ys where x: "task_shapes (rt e') = task_shapes (rt e) @ xs"
    and y: "task_shapes (rt e'') = task_shapes (rt e') @ ys" unfolding grows_def by blast
  then have "length (rt_tasks (rt e)) \<le> length (rt_tasks (rt e'))"
    by (metis length_append length_task_shapes le_add1)
  then have "hm_get (listeners e) k = Some l \<or> length (rt_tasks (rt e)) \<le> rl_handle l"
    if "hm_get (listeners e'') k = Some l" for k l
    using assms that unfolding grows_def by (meson le_trans)
  with x y show ?thesis by (intro growsI[where xs = "xs @ ys"]) simp_all
qed

lemma grows_spawn: "grows e (mobile_spawn_listener n m e)"
  by (rule growsI[where xs = "[(Forwarder (mapping_key m), rt_chans (rt e))]"])
    (auto simp: spawn_listener_wiring spawn_listener_listeners split: if_splits)

lemma grows_spawn_all: "grows e (fold (mobile_spawn_listener n) ms e)"
proof (induction ms arbitrary: e)
  case (Cons m ms)
  from grows_trans[OF grows_spawn Cons.IH] show ?case by simp
qed (auto intro: growsI[where xs = "[]"])

lemma grows_start:
  assumes "start_build lib c e = (node, e1)"
  shows "grows e (e1\<lparr>state := Some node\<rparr>)"
proof -
  have "grows e (e\<lparr>rt := node_runtime lib c e\<rparr>)"
    by (rule growsI[where xs = "map (\<lambda>(k, ph). (k, rt_chans (rt e))) (node_tasks e)"])
      (auto simp: task_shapes_def node_runtime_def)
  from grows_trans[OF this grows_spawn_all] have "grows e e1" by (simp add: start_build_eq(1)[OF assms])
  then show ?thesis by (simp add: grows_def)
qed

lemma grows_same:
  "task_shapes (rt e') = task_shapes (rt e) \<Longrightarrow> listeners e' = listeners e \<Longrightarrow> grows e e'"
  by (rule growsI[where xs = "[]"]) auto

lemma grows_op:
  assumes op: "exec_op lib op e = (r, e')"
  shows "grows e e'"
proof (cases op)
  case Start
  with op show ?thesis
    by (auto simp: start_def split: sum.splits prod.splits intro: grows_start grows_same)
next
  case (Add k spec)
  have "grows e (push_mapping m e)" for m by (rule grows_same) simp_all
  then have "grows e (mobile_spawn_listener n m (push_mapping m e))" for n m
    by (rule grows_trans[OF _ grows_spawn])
  with Add op show ?thesis
    by (auto simp: add_op_eq add_mapping_def Let_def split: sum.splits option.splits intro: grows_same)
next
  case (Remove k sched spec)
  show ?thesis
    by (rule growsI[where xs = "[]"])
      (use Remove op in \<open>auto simp: remove_op_eq stop_listener_def split: sum.splits option.splits if_splits\<close>)
next
  case (Stop sched)
  show ?thesis
    by (rule growsI[where xs = "[]"]) (use Stop op in \<open>auto simp: stop_def Let_def split: option.splits\<close>)
next
  case Clear_Mappings
  show ?thesis
    by (rule growsI[where xs = "[]"]) (use Clear_Mappings op in \<open>auto simp: clear_mappings_def\<close>)
next
  case (Start_Ping a n t i)
  show ?thesis
    by (rule grows_same)
      (use Start_Ping op in \<open>auto simp: start_ping_def Let_def split: option.splits if_splits\<close>)
qed (rule grows_same; use op in \<open>auto simp: load_config_def generate_and_load_config_def set_socks_def
    set_http_def set_nameserver_def set_peer_status_callback_def split: sum.splits\<close>)+

lemma untracked_grows:
  assumes "untracked i e" and "grows e e'"
  shows "untracked i e'"
proof -
  from assms(2) obtain xs where xs: "task_shapes (rt e') = task_shapes (rt e) @ xs"
    and l: "\<And>k l. hm_get (listeners e') k = Some l \<Longrightarrow>
      hm_get (listeners e) k = Some l \<or> length (rt_tasks (rt e)) \<le> rl_handle l"
    unfolding grows_def by blast
  from assms(1) have i: "i < length (rt_tasks (rt e))" by (simp add: untracked_def)
  from arg_cong[OF xs, of length] i have i': "i < length (rt_tasks (rt e'))" by simp
  from arg_cong[OF xs, of "\<lambda>ts. fst (ts ! i)"] i i'
  have "tk_kind (rt_tasks (rt e') ! i) = tk_kind (rt_tasks (rt e) ! i)" by (simp add: nth_append)
  with assms(1) i i' show ?thesis using l by (fastforce simp: untracked_def)
qed

text \<open>A serving forwarder that no entry refers to is served forever: no operation reaches it.\<close>

definition out_of_reach :: "nat \<Rightarrow> nat \<Rightarrow> 'x YggstackMobile \<Rightarrow> bool" where
  "out_of_reach i c e \<longleftrightarrow> engine_inv e \<and> engine_wired e \<and> untracked i e \<and> serves i c (rt e)"

interpretation unreachable: call_invariant "exec_op lib" "out_of_reach i c" for lib i c
proof
  fix op e r and e' :: "'a YggstackMobile"
  assume s: "exec_op lib op e = (r, e')" and o: "out_of_reach i c e"
  then have "hm_invar (listeners e)" by (simp add: out_of_reach_def engine_inv_def)
  with o show "out_of_reach i c e'"
    using sim_op[OF s] wired_op[OF s] untracked_grows[OF _ grows_op[OF s]] serves_op[OF s]
    by (simp add: out_of_reach_def)
qed

lemma untracked_unstoppable:
  assumes "engine_inv e" and "engine_wired e" and "untracked i e" and "serves i c (rt e)"
  shows "serves i c (rt (snd (exec_ops lib ops e)))"
  using unreachable.run_keeps[of i c e lib ops] assms by (simp add: out_of_reach_def)

section \<open>Two ways out of reach\<close>

lemma exec_reachable_inv:
  "engine_inv (snd (exec_ops lib ops engine_new))" "engine_wired (snd (exec_ops lib ops engine_new))"
  by (rule engine.run_keeps[OF conjunct1[OF engine_inv_new]], rule wiring.run_keeps[OF wired_new])

lemma other_entry:
  assumes "engine_wired e" and "hm_get (listeners e) k = Some l" and "hm_get (listeners e) k' = Some l'"
    and "k \<noteq> k'"
  shows "rl_handle l' \<noteq> rl_handle l"
  using entry_task(2)[OF assms(1,2)] entry_task(2)[OF assms(1,3)] assms(4) by auto

lemma spawn_again_untracks:
  assumes "engine_wired e" and "hm_get (listeners e) (mapping_key m) = Some l"
  shows "untracked (rl_handle l) (mobile_spawn_listener n m e)"
proof -
  note t = entry_task[OF assms]
  obtain nt where nt: "rt_tasks (rt (mobile_spawn_listener n m e)) = rt_tasks (rt e) @ [nt]"
    using spawn_listener_old by blast
  have "rl_handle l' \<noteq> rl_handle l" if "hm_get (listeners (mobile_spawn_listener n m e)) k' = Some l'" for k' l'
    using that t(1) other_entry[OF assms, of k' l']
    by (auto simp: spawn_listener_listeners split: if_splits)
  with nt t show ?thesis by (simp add: untracked_def nth_append)
qed

lemma engine_wired_push [simp]: "engine_wired (push_mapping m e) = engine_wired e"
  by (simp add: engine_wired_def)

text \<open>C33. Adding a mapping that a running engine already serves
  replaces its listener entry, and with it the only handle on the task that serves the port:
  whatever is called afterwards, removing the mapping, clearing all mappings and stopping the
  engine included, that task goes on serving.  (The runtime of a dropped engine ends it.)\<close>
theorem duplicate_mapping_unstoppable:
  assumes "e = snd (exec_ops lib ops engine_new)" and "state e = Some node"
    and "parse_spec k spec = Inr m" and "hm_get (listeners e) (mapping_key m) = Some l"
    and "tk_phase (rt_tasks (rt e) ! rl_handle l) = Serving False"
  shows "tk_phase (rt_tasks (rt (snd (exec_ops lib (Add k spec # later) e))) ! rl_handle l) = Serving False"
proof -
  have inv: "engine_inv e" "engine_wired e" unfolding assms(1) by (rule exec_reachable_inv)+
  obtain r e1 where s: "exec_op lib (Add k spec) e = (r, e1)" by fastforce
  with assms(2,3) have e1: "e1 = mobile_spawn_listener (ns_inst node) m (push_mapping m e)"
    by (simp add: add_op_eq add_mapping_def)
  note t = entry_task[OF inv(2) assms(4)]
  have "serves (rl_handle l) (rl_stop l) (rt e)" using t assms(5) by (simp add: serves_def)
  with spawn_listener_old[of "ns_inst node" m "push_mapping m e"]
  have "serves (rl_handle l) (rl_stop l) (rt e1)" by (auto simp: e1 intro: serves_append)
  moreover have "untracked (rl_handle l) e1"
    unfolding e1 by (rule spawn_again_untracks) (use inv(2) assms(4) in simp_all)
  ultimately have "serves (rl_handle l) (rl_stop l) (rt (snd (exec_ops lib later e1)))"
    using untracked_unstoppable conjunct1[OF sim_op[OF s inv(1)]] wired_op[OF s inv(2)] by blast
  with s show ?thesis by (simp add: serves_def case_prod_beta)
qed

lemma send_stops_starting:
  assumes "i < length (rt_tasks R)" "tk_phase (rt_tasks R ! i) = Starting"
  shows "i < length (rt_tasks (send_stops ls R)) \<and> rt_tasks (send_stops ls R) ! i = rt_tasks R ! i"
proof -
  have "i < length (rt_tasks (send_stop c R)) \<and> rt_tasks (send_stop c R) ! i = rt_tasks R ! i"
    if "i < length (rt_tasks R)" "tk_phase (rt_tasks R ! i) = Starting" for c R
    using that by (simp add: send_stop_def hear_stop_def)
  with assms show ?thesis
    unfolding send_stops_def by (induction ls arbitrary: R) simp_all
qed

text \<open>C34. \<open>clear_mappings\<close> sends each listener its stop and forgets
  it.  A listener whose task has not subscribed yet does not get it: it binds its port
  afterwards and serves from then on, whatever is called later.\<close>
theorem cleared_listener_unstoppable:
  assumes "e = snd (exec_ops lib ops engine_new)" and "hm_get (listeners e) k = Some l"
    and "tk_phase (rt_tasks (rt e) ! rl_handle l) = Starting"
  shows "tk_phase (rt_tasks (rt (snd (exec_ops lib
    (Clear_Mappings # Task_Event (Bound (rl_handle l) (Inr a)) # later) e))) ! rl_handle l) = Serving False"
proof -
  have inv: "engine_inv e" "engine_wired e" unfolding assms(1) by (rule exec_reachable_inv)+
  note t = entry_task[OF inv(2) assms(2)]
  let ?i = "rl_handle l" and ?c = "clear_mappings e"
  let ?b = "on_rt (task_event (Bound ?i (Inr a))) ?c"
  have s1: "exec_op lib Clear_Mappings e = (Inr (), ?c)" by simp
  have s2: "exec_op lib (Task_Event (Bound ?i (Inr a))) ?c = (Inr (), ?b)" by simp
  have same: "?i < length (rt_tasks (rt ?c))" "rt_tasks (rt ?c) ! ?i = rt_tasks (rt e) ! ?i"
    using send_stops_starting[OF t(1) assms(3), of "hm_values (listeners e)"]
    by (simp_all add: clear_mappings_def)
  then have "untracked ?i ?c" using t by (simp add: untracked_def)
  then have "untracked ?i ?b" by (rule untracked_grows[OF _ grows_op[OF s2]])
  moreover have "serves ?i (rl_stop l) (rt ?b)"
    using same t assms(3) by (simp add: serves_def set_phase_nth)
  moreover have "engine_inv ?b" "engine_wired ?b"
    using sim_op[OF s2] sim_op[OF s1 inv(1)] wired_op[OF s2] wired_op[OF s1 inv(2)] by simp_all
  ultimately have "serves ?i (rl_stop l) (rt (snd (exec_ops lib later ?b)))"
    using untracked_unstoppable by blast
  then show ?thesis by (simp add: serves_def case_prod_beta)
qed

text \<open>A small engine: one configuration, one remote TCP mapping.\<close>

definition demo_engine_lib :: "unit engine_lib" where
  "demo_engine_lib = config_lib.extend demo_lib
     (engine_lib.fields (\<lambda>c. Inr (replicate 32 1)) (\<lambda>c. False) (Inr ()) (\<lambda>bs. []))"

lemma demo_engine_lib_simps [simp]:
  "toml_from_str demo_engine_lib = demo_read []" "verifying_key demo_engine_lib c = Inr (replicate 32 1)"
  "has_multicast demo_engine_lib c = False"
  by (simp_all add: demo_engine_lib_def engine_lib.defs config_lib.defs demo_lib_def)

definition demo_mapping :: mapping where
  "demo_mapping = Remote_Tcp \<lparr>tcp_listen = sock_new (V4 v4_unspecified) 22, tcp_target = SockV4 v4_localhost 22\<rparr>"

lemma demo_parse: "parse_spec K_Remote_Tcp (print_remote 22 Same_Port) = Inr demo_mapping"
  by (simp add: tcp_parse_remote_def parse_remote_print parse_addr_or_def demo_mapping_def del: print_remote.simps)

definition demo_started :: "mobile_op list" where
  "demo_started = [Load_Config ''y'', Start, Add K_Remote_Tcp (print_remote 22 Same_Port)]"

definition demo_node :: NodeState where
  "demo_node = \<lparr>ns_inst = 0, ns_stop = 0, socks_handle = None, http_handle = None, peer_events_handle = None\<rparr>"

lemma demo_running:
  "\<exists>rs e. exec_ops demo_engine_lib [Load_Config ''y'', Start] engine_new = (rs, e) \<and>
     state e = Some demo_node \<and> rt_tasks (rt e) = [] \<and> listeners e = hm_new"
  by (simp add: load_config_def start_def start_check_def start_build_def spawn_optional_def Let_def
      all_mappings_def engine_new_def demo_node_def)

lemma demo_started_run:
  "\<exists>rs e. exec_ops demo_engine_lib demo_started engine_new = (rs, e) \<and> state e = Some demo_node \<and>
     (\<exists>l t. hm_get (listeners e) (mapping_key demo_mapping) = Some l \<and> rl_handle l = 0 \<and>
        rt_tasks (rt e) = [t] \<and> tk_kind t = Forwarder (mapping_key demo_mapping) \<and> tk_phase t = Starting)"
proof -
  obtain rs e where r: "exec_ops demo_engine_lib [Load_Config ''y'', Start] engine_new = (rs, e)"
    and e: "state e = Some demo_node" "rt_tasks (rt e) = []" "listeners e = hm_new"
    using demo_running by blast
  have a: "exec_op demo_engine_lib (Add K_Remote_Tcp (print_remote 22 Same_Port)) e =
      (Inr (), mobile_spawn_listener 0 demo_mapping (push_mapping demo_mapping e))"
    using e(1) unfolding exec_op.simps add_op_eq demo_parse by (simp add: add_mapping_def demo_node_def)
  have "fst (spawn_fn demo_mapping r) = mapping_key demo_mapping" for r by (rule fst_spawn_fn)
  then have "\<exists>t. rt_tasks (rt (mobile_spawn_listener 0 demo_mapping (push_mapping demo_mapping e))) = [t] \<and>
      tk_kind t = Forwarder (mapping_key demo_mapping) \<and> tk_phase t = Starting"
    using e(2) by (simp add: mobile_spawn_listener_def Let_def spawn_task_def case_prod_beta)
  moreover have "\<exists>rs'. exec_ops demo_engine_lib demo_started engine_new =
      (rs', mobile_spawn_listener 0 demo_mapping (push_mapping demo_mapping e))"
    using run_calls_append[OF r, of "[Add K_Remote_Tcp (print_remote 22 Same_Port)]"] a
    by (simp add: demo_started_def del: exec_op.simps)
  ultimately show ?thesis
    using e by (auto simp: spawn_listener_listeners)
qed

theorem duplicate_mapping_unstoppable_witness:
  "\<exists>e l. snd (exec_ops demo_engine_lib (demo_started @ [Task_Event (Bound 0 (Inr []))]) engine_new) = e \<and>
     hm_get (listeners e) (mapping_key demo_mapping) = Some l \<and>
     tk_phase (rt_tasks (rt (snd (exec_ops demo_engine_lib [Add K_Remote_Tcp (print_remote 22 Same_Port),
       Remove K_Remote_Tcp (\<lambda>i. []) (print_remote 22 Same_Port), Stop (\<lambda>i. [])] e))) ! rl_handle l) = Serving False"
proof -
  obtain rs e l t where r: "exec_ops demo_engine_lib demo_started engine_new = (rs, e)"
    and e: "state e = Some demo_node" "hm_get (listeners e) (mapping_key demo_mapping) = Some l"
      "rl_handle l = 0" "rt_tasks (rt e) = [t]" "tk_kind t = Forwarder (mapping_key demo_mapping)"
      "tk_phase t = Starting"
    using demo_started_run by blast
  let ?b = "on_rt (task_event (Bound 0 (Inr []))) e"
  have b: "snd (exec_ops demo_engine_lib (demo_started @ [Task_Event (Bound 0 (Inr []))]) engine_new) = ?b"
    using run_calls_append[OF r, of "[Task_Event (Bound 0 (Inr []))]"] by simp
  have "tk_phase (rt_tasks (rt ?b) ! rl_handle l) = Serving False"
    using e by (simp add: set_phase_def upd_task_def)
  with duplicate_mapping_unstoppable[OF b[symmetric] _ demo_parse, of demo_node l
      "[Remove K_Remote_Tcp (\<lambda>i. []) (print_remote 22 Same_Port), Stop (\<lambda>i. [])]"] e b
  show ?thesis by (intro exI[of _ ?b] exI[of _ l]) (simp only: on_rt_fields simp_thms)
qed

theorem cleared_listener_unstoppable_witness:
  "tk_phase (rt_tasks (rt (snd (exec_ops demo_engine_lib [Clear_Mappings, Task_Event (Bound 0 (Inr [])), Stop (\<lambda>i. [])]
     (snd (exec_ops demo_engine_lib demo_started engine_new))))) ! 0) = Serving False"
proof -
  obtain rs e l t where r: "exec_ops demo_engine_lib demo_started engine_new = (rs, e)"
    and e: "hm_get (listeners e) (mapping_key demo_mapping) = Some l"
      "rl_handle l = 0" "rt_tasks (rt e) = [t]" "tk_phase t = Starting"
    using demo_started_run by blast
  with cleared_listener_unstoppable[of e demo_engine_lib demo_started "mapping_key demo_mapping" l "[]" "[Stop (\<lambda>i. [])]"]
  show ?thesis by (simp del: run_calls.simps)
qed

end
