(* ===== verification/Mobile_Stop.thy ===== *)
theory Mobile_Stop
  imports Mobile_Tasks
begin

text \<open>
  What \<open>stop\<close> leaves behind.  Alive is a task that has not ended; open is an instance whose core,
  multicast or netstack has not been closed.  At every moment at most the current instance is
  open and the proxies alive are its own; after \<open>stop\<close> nothing is open and the only tasks alive
  are forwarders no entry referred to.  With the two ways to lose one excluded, none is.
\<close>

section \<open>Tasks alive\<close>

definition alive :: "runtime \<Rightarrow> nat set" where
  "alive R = {i. i < length (rt_tasks R) \<and> tk_phase (rt_tasks R ! i) \<noteq> Ended}"

lemma alive_upd_inst [simp]: "alive (upd_inst i f R) = alive R"
  by (simp add: alive_def)

lemma alive_set_phase: "alive (set_phase i ph R) \<subseteq> (if ph = Ended then alive R - {i} else insert i (alive R))"
  by (auto simp: alive_def set_phase_nth split: if_splits)

lemma alive_unregister [simp]: "alive (unregister n k R) = alive R"
  by (simp add: alive_def)

lemma alive_task_event: "alive (task_event ev R) \<subseteq> alive R"
proof (cases ev)
  case (Bound i res)
  have "alive (task_bound k n i res R) \<subseteq> insert i (alive R)" for k n
    using alive_set_phase[of i "Serving False" R] alive_set_phase[of i Ended R]
    by (cases "(k, n, i, res, R)" rule: task_bound.cases) auto
  then have b: "alive (task_bound (tk_kind (rt_tasks R ! i)) (tk_inst (rt_tasks R ! i)) i res R) \<subseteq>
      insert i (alive R)" .
  show ?thesis
  proof (cases "i < length (rt_tasks R) \<and> tk_phase (rt_tasks R ! i) = Starting")
    case True
    then have "i \<in> alive R" by (simp add: alive_def)
    with True Bound b show ?thesis by (simp add: insert_absorb)
  next
    case False
    then have "task_event ev R = R" using Bound by auto
    then show ?thesis by simp
  qed
next
  case (Sees_Stop i)
  have "alive (task_stops k n i R) \<subseteq> alive R" for k n
    using alive_set_phase[of i Ended R] by (cases k) auto
  with Sees_Stop show ?thesis by simp
qed

lemma alive_run_tasks: "alive (run_tasks evs R) \<subseteq> alive R"
  unfolding run_tasks_def
proof (induction evs arbitrary: R)
  case (Cons ev evs)
  from Cons.IH[of "task_event ev R"] alive_task_event[of ev R] show ?case by simp
qed simp

lemma alive_send_stop [simp]: "alive (send_stop c R) = alive R"
proof -
  have "tk_phase (hear_stop c t) = Ended \<longleftrightarrow> tk_phase t = Ended" for t
    by (simp add: hear_stop_def split: phase.splits)
  then show ?thesis unfolding alive_def send_stop_def by (intro set_eqI) (simp cong: conj_cong)
qed

lemma alive_send_stops [simp]: "alive (send_stops ls R) = alive R"
  unfolding send_stops_def by (induction ls arbitrary: R) simp_all

lemma alive_join: "alive (join_listener sched i R) \<subseteq> alive R - {i}"
  using alive_run_tasks[of "sched i" R] alive_set_phase[of i Ended "run_tasks (sched i) R"]
  by (auto simp: join_listener_def Let_def alive_def[of "run_tasks (sched i) R"])

lemma alive_joins:
  "alive (fold (\<lambda>l. join_listener sched (rl_handle l)) ls R) \<subseteq> alive R - rl_handle ` set ls"
proof (induction ls arbitrary: R)
  case (Cons l ls)
  from Cons.IH[of "join_listener sched (rl_handle l) R"] alive_join[of sched "rl_handle l" R]
  show ?case by auto
qed simp

lemma alive_stop_listeners: "alive (stop_listeners sched ls R) \<subseteq> alive R - rl_handle ` set ls"
  using alive_joins[of sched ls "send_stops ls R"] by (simp add: stop_listeners_def)

lemma alive_join_optional: "alive (join_optional sched h R) \<subseteq> alive R - set_option h"
  using alive_join[of sched _ R] by (cases h) (auto simp: join_optional_def)

lemma alive_stop_node: "alive (stop_node sched n R) \<subseteq> alive R - node_handles n"
proof -
  let ?R1 = "case peer_events_handle n of Some i \<Rightarrow> join_listener sched i (send_stop (ns_stop n) R) | None \<Rightarrow> R"
  let ?R4 = "send_stop (ns_stop n) (upd_inst (ns_inst n) (\<lambda>n. n\<lparr>core_open := False\<rparr>)
    (upd_inst (ns_inst n) (\<lambda>n. n\<lparr>multicast_open := False\<rparr>) ?R1))"
  have "alive ?R4 \<subseteq> alive R - set_option (peer_events_handle n)"
    using alive_join[of sched _ "send_stop (ns_stop n) R"] by (cases "peer_events_handle n") auto
  with alive_join_optional[of sched "socks_handle n" ?R4]
    alive_join_optional[of sched "http_handle n" "join_optional sched (socks_handle n) ?R4"]
  show ?thesis by (auto simp: stop_node_def Let_def node_handles_def)
qed

lemma alive_spawn_listener:
  "alive (rt (mobile_spawn_listener n m e)) \<subseteq> insert (length (rt_tasks (rt e))) (alive (rt e))"
  using spawn_listener_old[of n m e] by (auto simp: alive_def nth_append less_Suc_eq split: if_splits)

section \<open>Open instances\<close>

definition inst_flags :: "runtime \<Rightarrow> (bool \<times> bool \<times> bool) list" where
  "inst_flags R = map (\<lambda>n. (core_open n, multicast_open n, netstack_open n)) (rt_insts R)"

lemma length_inst_flags [simp]: "length (inst_flags R) = length (rt_insts R)"
  by (simp add: inst_flags_def)

lemma flags_same [simp]:
  "inst_flags (set_phase i ph R) = inst_flags R" "inst_flags (send_stop c R) = inst_flags R"
  "inst_flags (send_stops ls R) = inst_flags R" "inst_flags (R\<lparr>rt_pings := ps\<rparr>) = inst_flags R"
  "inst_flags (R\<lparr>rt_chans := cs\<rparr>) = inst_flags R" "inst_flags (R\<lparr>rt_tasks := ts\<rparr>) = inst_flags R"
  by (simp_all add: inst_flags_def)

lemma flags_upd_stats [simp]: "inst_flags (upd_inst i (\<lambda>n. n\<lparr>ni_stats := f n\<rparr>) R) = inst_flags R"
  by (cases "i < length (rt_insts R)")
    (auto simp: inst_flags_def upd_inst_def list_eq_iff_nth_eq nth_list_update)

lemma flags_unregister [simp]: "inst_flags (unregister i k R) = inst_flags R"
  by (simp add: unregister_def)

lemma flags_task_event [simp]: "inst_flags (task_event ev R) = inst_flags R"
proof -
  have "inst_flags (task_bound k n i res R) = inst_flags R" for k n i res
    by (cases "(k, n, i, res, R)" rule: task_bound.cases) simp_all
  moreover have "inst_flags (task_stops k n i R) = inst_flags R" for k n i by (cases k) simp_all
  ultimately show ?thesis by (cases ev) simp_all
qed

lemma flags_run_tasks [simp]: "inst_flags (run_tasks evs R) = inst_flags R"
  unfolding run_tasks_def by (induction evs arbitrary: R) simp_all

lemma flags_join [simp]: "inst_flags (join_listener sched i R) = inst_flags R"
  by (simp add: join_listener_def Let_def)

lemma flags_stop_listeners [simp]: "inst_flags (stop_listeners sched ls R) = inst_flags R"
proof -
  have "inst_flags (fold (\<lambda>l. join_listener sched (rl_handle l)) ls R) = inst_flags R" for R
    by (induction ls arbitrary: R) simp_all
  then show ?thesis by (simp add: stop_listeners_def)
qed

lemma flags_upd:
  "inst_flags (upd_inst i (\<lambda>n. n\<lparr>core_open := False\<rparr>) R) =
     (inst_flags R)[i := (False, snd (inst_flags R ! i))]"
  "inst_flags (upd_inst i (\<lambda>n. n\<lparr>multicast_open := False\<rparr>) R) =
     (inst_flags R)[i := (fst (inst_flags R ! i), False, snd (snd (inst_flags R ! i)))]"
  "inst_flags (upd_inst i (\<lambda>n. n\<lparr>netstack_open := False\<rparr>) R) =
     (inst_flags R)[i := (fst (inst_flags R ! i), fst (snd (inst_flags R ! i)), False)]"
  by (cases "i < length (rt_insts R)";
      auto simp: inst_flags_def upd_inst_def list_eq_iff_nth_eq nth_list_update)+

lemma flags_stop_node:
  "ns_inst n < length (rt_insts R) \<Longrightarrow>
   inst_flags (stop_node sched n R) = (inst_flags R)[ns_inst n := (False, False, False)]"
  by (simp add: stop_node_def Let_def join_optional_def flags_upd split: option.splits)

lemma flags_spawn_listener [simp]: "inst_flags (rt (mobile_spawn_listener n m e)) = inst_flags (rt e)"
  by (simp add: mobile_spawn_listener_def Let_def spawn_task_def split: prod.splits)

lemma flags_spawn_all [simp]: "inst_flags (rt (fold (mobile_spawn_listener n) ms e)) = inst_flags (rt e)"
  by (induction ms arbitrary: e) simp_all

section \<open>The invariant\<close>

definition current_inst :: "'x YggstackMobile \<Rightarrow> nat option" where
  "current_inst e = map_option ns_inst (state e)"

fun flag_ok :: "bool \<Rightarrow> bool \<times> bool \<times> bool \<Rightarrow> bool" where
  "flag_ok here (core, mc, net) = (if here then core \<and> net else \<not> core \<and> \<not> mc \<and> \<not> net)"

definition only_open :: "(bool \<times> bool \<times> bool) list \<Rightarrow> nat option \<Rightarrow> bool" where
  "only_open fs cur \<longleftrightarrow> (\<forall>i<length fs. flag_ok (cur = Some i) (fs ! i)) \<and> (\<forall>i\<in>set_option cur. i < length fs)"

definition insts_ok :: "'x YggstackMobile \<Rightarrow> bool" where
  "insts_ok e \<longleftrightarrow> only_open (inst_flags (rt e)) (current_inst e)"

definition proxies_ok :: "'x YggstackMobile \<Rightarrow> bool" where
  "proxies_ok e \<longleftrightarrow> (\<forall>i\<in>alive (rt e). is_forwarder (tk_kind (rt_tasks (rt e) ! i)) \<or>
     (\<exists>n. state e = Some n \<and> i \<in> node_handles n))"

definition only_alive :: "ping_task list \<Rightarrow> nat option \<Rightarrow> bool" where
  "only_alive ps cur \<longleftrightarrow> (\<forall>i<length ps. pt_alive (ps ! i) \<longrightarrow> i \<in> set_option cur) \<and>
     (\<forall>i\<in>set_option cur. i < length ps)"

definition pings_ok :: "'x YggstackMobile \<Rightarrow> bool" where
  "pings_ok e \<longleftrightarrow> only_alive (rt_pings (rt e)) (ping e)"

definition engine_ok :: "'x YggstackMobile \<Rightarrow> bool" where
  "engine_ok e \<longleftrightarrow> engine_inv e \<and> engine_wired e \<and> insts_ok e \<and> proxies_ok e \<and> pings_ok e"

lemma kind_of_old:
  assumes "task_shapes R' = task_shapes R @ xs" and "i < length (rt_tasks R)"
  shows "tk_kind (rt_tasks R' ! i) = tk_kind (rt_tasks R ! i)"
proof -
  from arg_cong[OF assms(1), of length] assms(2) have "i < length (rt_tasks R')" by simp
  with arg_cong[OF assms(1), of "\<lambda>ts. fst (ts ! i)"] assms(2) show ?thesis by (simp add: nth_append)
qed

lemma aliveD: "i \<in> alive R \<Longrightarrow> i < length (rt_tasks R)"
  by (simp add: alive_def)

lemma proxies_ok_fewer:
  assumes "proxies_ok e" and "alive (rt e') \<subseteq> alive (rt e)" and "task_shapes (rt e') = task_shapes (rt e)"
    and "state e' = state e"
  shows "proxies_ok e'"
  unfolding proxies_ok_def
proof
  fix i assume "i \<in> alive (rt e')"
  with assms(2) have i: "i \<in> alive (rt e)" by blast
  have "tk_kind (rt_tasks (rt e') ! i) = tk_kind (rt_tasks (rt e) ! i)"
    using kind_of_old[of "rt e'" "rt e" "[]" i] assms(3) aliveD[OF i] by simp
  with assms(1)[unfolded proxies_ok_def, rule_format, OF i] assms(4)
  show "is_forwarder (tk_kind (rt_tasks (rt e') ! i)) \<or> (\<exists>n. state e' = Some n \<and> i \<in> node_handles n)"
    by simp
qed

lemma insts_ok_same:
  "insts_ok e \<Longrightarrow> inst_flags (rt e') = inst_flags (rt e) \<Longrightarrow> state e' = state e \<Longrightarrow> insts_ok e'"
  by (simp add: insts_ok_def current_inst_def)

lemma only_open_new: "only_open fs None \<Longrightarrow> only_open (fs @ [(True, m, True)]) (Some (length fs))"
  by (auto simp: only_open_def nth_append less_Suc_eq)

lemma only_open_close:
  assumes "only_open fs cur"
  shows "only_open (case cur of Some n \<Rightarrow> fs[n := (False, False, False)] | None \<Rightarrow> fs) None"
proof (cases cur)
  case (Some n)
  have "flag_ok False (fs[n := (False, False, False)] ! i)" if "i < length fs" for i
  proof (cases "i = n")
    case False
    with that assms Some show ?thesis by (auto simp: only_open_def)
  qed (use that in simp)
  with Some show ?thesis by (simp add: only_open_def)
qed (use assms in simp)

lemma only_open_None: "only_open fs None \<Longrightarrow> i < length fs \<Longrightarrow> fs ! i = (False, False, False)"
  by (cases "fs ! i") (auto simp: only_open_def)

lemma pings_ok_same:
  "pings_ok e \<Longrightarrow> rt_pings (rt e') = rt_pings (rt e) \<Longrightarrow> ping e' = ping e \<Longrightarrow> pings_ok e'"
  by (simp add: pings_ok_def)

lemma only_alive_kill:
  "only_alive ps (Some i) \<Longrightarrow> only_alive (ps[i := (ps ! i)\<lparr>pt_alive := False\<rparr>]) None"
  by (auto simp: only_alive_def nth_list_update split: if_splits)

lemma only_alive_new: "only_alive ps None \<Longrightarrow> only_alive (ps @ [p]) (Some (length ps))"
  by (auto simp: only_alive_def nth_append less_Suc_eq)

lemma proxies_ok_spawn:
  assumes "proxies_ok e"
  shows "proxies_ok (mobile_spawn_listener n m e)"
  unfolding proxies_ok_def
proof
  let ?e = "mobile_spawn_listener n m e"
  fix i assume "i \<in> alive (rt ?e)"
  with alive_spawn_listener[of n m e] consider "i = length (rt_tasks (rt e))" | "i \<in> alive (rt e)" by blast
  then show "is_forwarder (tk_kind (rt_tasks (rt ?e) ! i)) \<or> (\<exists>n. state ?e = Some n \<and> i \<in> node_handles n)"
  proof cases
    case 1
    have "fst (task_shapes (rt ?e) ! i) = Forwarder (mapping_key m)"
      using 1 by (simp add: spawn_listener_wiring nth_append)
    moreover have "i < length (rt_tasks (rt ?e))" using 1 spawn_listener_old[of n m e] by auto
    ultimately show ?thesis by simp
  next
    case 2
    with assms kind_of_old[OF spawn_listener_wiring(1) aliveD[OF 2]] show ?thesis
      by (auto simp: proxies_ok_def)
  qed
qed

lemma proxies_ok_spawn_all: "proxies_ok e \<Longrightarrow> proxies_ok (fold (mobile_spawn_listener n) ms e)"
  by (induction ms arbitrary: e) (simp_all add: proxies_ok_spawn)

lemma spawn_listener_state:
  "mobile_spawn_listener n m (x\<lparr>state := s\<rparr>) = (mobile_spawn_listener n m x)\<lparr>state := s\<rparr>"
  by (simp add: mobile_spawn_listener_def Let_def split: prod.splits)

lemma proxies_ok_start:
  assumes "proxies_ok e" and "state e = None" and "start_build lib c e = (node, e1)"
  shows "proxies_ok (e1\<lparr>state := Some node\<rparr>)"
proof -
  note b = start_build_eq[OF assms(3)]
  let ?e0 = "e\<lparr>rt := node_runtime lib c e, state := Some node\<rparr>"
  have "proxies_ok ?e0"
    unfolding proxies_ok_def
  proof
    fix i assume i: "i \<in> alive (rt ?e0)"
    show "is_forwarder (tk_kind (rt_tasks (rt ?e0) ! i)) \<or> (\<exists>n. state ?e0 = Some n \<and> i \<in> node_handles n)"
    proof (cases "i < length (rt_tasks (rt e))")
      case True
      with i have "i \<in> alive (rt e)" by (simp add: alive_def node_runtime_def nth_append)
      with assms(1,2) True show ?thesis by (auto simp: proxies_ok_def node_runtime_def nth_append)
    next
      case False
      with i b(4) show ?thesis by (auto simp: alive_def node_runtime_def)
    qed
  qed
  from proxies_ok_spawn_all[OF this, of "ns_inst node" "all_mappings e"]
  have "proxies_ok (fold (mobile_spawn_listener (ns_inst node)) (all_mappings e) ?e0)" .
  moreover have "fold (mobile_spawn_listener n) ms (x\<lparr>state := s\<rparr>) = (fold (mobile_spawn_listener n) ms x)\<lparr>state := s\<rparr>"
    for n ms s and x :: "'a YggstackMobile"
    by (induction ms arbitrary: x) (simp_all add: spawn_listener_state)
  ultimately show ?thesis by (simp add: b(1))
qed

lemma insts_ok_start:
  assumes "insts_ok e" and "state e = None" and "start_build lib c e = (node, e1)"
  shows "insts_ok (e1\<lparr>state := Some node\<rparr>)"
proof -
  note b = start_build_eq[OF assms(3)]
  have "inst_flags (rt e1) = inst_flags (rt e) @ [(True, multicast_open (fresh_inst lib c), True)]"
    by (simp add: b(1)) (simp add: node_runtime_def inst_flags_def fresh_inst_def)
  with only_open_new[of "inst_flags (rt e)"] assms(1,2) b(2) show ?thesis
    by (simp add: insts_ok_def current_inst_def)
qed

lemma rt_pings_spawn_all [simp]: "rt_pings (rt (fold (mobile_spawn_listener n) ms e)) = rt_pings (rt e)"
  by (induction ms arbitrary: e) (simp_all add: spawn_listener_wiring)

lemma pings_ok_start:
  assumes "pings_ok e" and "start_build lib c e = (node, e1)"
  shows "pings_ok (e1\<lparr>state := Some node\<rparr>)"
  by (rule pings_ok_same[OF assms(1)]) (simp_all add: start_build_eq(1)[OF assms(2)] node_runtime_def)

lemma pings_ok_stop_ping: "pings_ok e \<Longrightarrow> pings_ok (stop_ping e)"
  by (cases "ping e") (simp_all add: pings_ok_def stop_ping_def only_alive_kill)

lemma pings_ok_start_ping:
  assumes "start_ping a n t i e = (r, e')" and "pings_ok e"
  shows "pings_ok e'"
proof -
  have n: "only_alive (rt_pings (rt (stop_ping e))) None"
    using pings_ok_stop_ping[OF assms(2)] by (simp add: pings_ok_def)
  show ?thesis
    using assms only_alive_new[OF n]
    by (auto simp: start_ping_def Let_def pings_ok_def split: option.splits if_splits)
qed

lemma stop_pings [simp]: "rt_pings (rt (stop sched e)) = rt_pings (rt (stop_ping e))"
  by (auto simp: stop_def Let_def split: option.splits)

lemma stop_alive:
  assumes "hm_invar (listeners e)"
  shows "alive (rt (stop sched e)) \<subseteq> alive (rt e) - {i. \<exists>n. state e = Some n \<and> i \<in> node_handles n} -
    {i. \<exists>k l. hm_get (listeners e) k = Some l \<and> rl_handle l = i}"
proof -
  let ?e2 = "case state e of Some node \<Rightarrow> on_rt (stop_node sched node) ((stop_ping e)\<lparr>state := None\<rparr>)
    | None \<Rightarrow> stop_ping e"
  have ap: "alive (rt (stop_ping e)) = alive (rt e)" by (simp add: alive_def)
  have 1: "alive (rt ?e2) \<subseteq> alive (rt e) - {i. \<exists>n. state e = Some n \<and> i \<in> node_handles n}"
    using alive_stop_node[of sched _ "rt (stop_ping e)"] ap by (cases "state e") auto
  have l: "listeners ?e2 = listeners e" by (simp split: option.splits)
  have "rt (stop sched e) = stop_listeners sched (hm_values (listeners e)) (rt ?e2)"
    by (simp add: stop_def Let_def l split: option.splits)
  then have "alive (rt (stop sched e)) \<subseteq> alive (rt ?e2) - rl_handle ` set (hm_values (listeners e))"
    using alive_stop_listeners by simp
  moreover have "rl_handle ` set (hm_values (listeners e)) =
      {i. \<exists>k l. hm_get (listeners e) k = Some l \<and> rl_handle l = i}"
  proof (intro set_eqI iffI)
    fix i assume "i \<in> rl_handle ` set (hm_values (listeners e))"
    then obtain l where "l \<in> set (hm_values (listeners e))" "rl_handle l = i" by blast
    then show "i \<in> {i. \<exists>k l. hm_get (listeners e) k = Some l \<and> rl_handle l = i}"
      using hm_values_get[OF assms, of l] by blast
  next
    fix i assume "i \<in> {i. \<exists>k l. hm_get (listeners e) k = Some l \<and> rl_handle l = i}"
    then obtain k l where "hm_get (listeners e) k = Some l" "rl_handle l = i" by blast
    then show "i \<in> rl_handle ` set (hm_values (listeners e))"
      using hm_values_get[OF assms, of l] by blast
  qed
  ultimately show ?thesis using Diff_mono[OF 1 order_refl] by (metis (no_types, lifting) order_trans)
qed

lemma stop_flags:
  assumes "insts_ok e"
  shows "only_open (inst_flags (rt (stop sched e))) None"
proof -
  have p: "inst_flags (rt (stop_ping e)) = inst_flags (rt e)" by (simp add: inst_flags_def)
  have n: "ns_inst n < length (rt_insts (rt e))" if "state e = Some n" for n
    using assms that by (simp add: insts_ok_def only_open_def current_inst_def)
  have "inst_flags (rt (stop sched e)) = (case current_inst e of
      Some n \<Rightarrow> (inst_flags (rt e))[n := (False, False, False)] | None \<Rightarrow> inst_flags (rt e))"
    using n by (cases "state e") (simp_all add: stop_def Let_def current_inst_def flags_stop_node p)
  with only_open_close assms show ?thesis by (simp add: insts_ok_def)
qed

lemma engine_ok_op:
  assumes op: "exec_op lib op e = (r, e')" and ok: "engine_ok e"
  shows "engine_ok e'"
proof -
  from ok have i: "insts_ok e" and p: "proxies_ok e" and g: "pings_ok e" by (simp_all add: engine_ok_def)
  have base: "engine_inv e'" "engine_wired e'"
    using ok sim_op[OF op] wired_op[OF op] by (simp_all add: engine_ok_def)
  have keep: "insts_ok e' \<and> proxies_ok e' \<and> pings_ok e'"
    if "inst_flags (rt e') = inst_flags (rt e)" "alive (rt e') \<subseteq> alive (rt e)"
      "task_shapes (rt e') = task_shapes (rt e)" "rt_pings (rt e') = rt_pings (rt e)"
      "state e' = state e" "ping e' = ping e"
    by (intro conjI; (rule insts_ok_same[OF i] proxies_ok_fewer[OF p] pings_ok_same[OF g]; simp add: that))
  have "insts_ok e' \<and> proxies_ok e' \<and> pings_ok e'"
  proof (cases op)
    case Start
    show ?thesis
    proof (cases "start_check lib e")
      case (Inr c)
      then have "state e = None" by (auto simp: start_check_def split: if_splits)
      moreover obtain node e1 where "start_build lib c e = (node, e1)" by fastforce
      ultimately show ?thesis
        using Start op Inr insts_ok_start[OF i] proxies_ok_start[OF p] pings_ok_start[OF g]
        by (auto simp: start_def)
    qed (use Start op i p g in \<open>auto simp: start_def\<close>)
  next
    case (Add k spec)
    have pm: "insts_ok (push_mapping m e) \<and> proxies_ok (push_mapping m e) \<and> pings_ok (push_mapping m e)" for m
      using i p g by (simp add: insts_ok_def current_inst_def proxies_ok_def pings_ok_def)
    have "insts_ok (mobile_spawn_listener n m (push_mapping m e)) \<and>
        proxies_ok (mobile_spawn_listener n m (push_mapping m e)) \<and>
        pings_ok (mobile_spawn_listener n m (push_mapping m e))" for n m
      using pm[of m] insts_ok_same[of "push_mapping m e" "mobile_spawn_listener n m (push_mapping m e)"]
        pings_ok_same[of "push_mapping m e" "mobile_spawn_listener n m (push_mapping m e)"]
      by (simp add: proxies_ok_spawn spawn_listener_wiring)
    with pm Add op i p g show ?thesis
      by (auto simp: add_op_eq add_mapping_def Let_def split: sum.splits option.splits)
  next
    case (Remove k sched spec)
    have "alive (join_listener sched j (send_stop c R)) \<subseteq> alive R" for j c R
      using alive_join[of sched j "send_stop c R"] by auto
    then have sub: "alive (rt (stop_listener sched key x)) \<subseteq> alive (rt x)" for key and x :: "'a YggstackMobile"
      by (simp add: stop_listener_def split: option.splits)
    have flags: "inst_flags (rt (stop_listener sched key x)) = inst_flags (rt x)"
      "task_shapes (rt (stop_listener sched key x)) = task_shapes (rt x)"
      "rt_pings (rt (stop_listener sched key x)) = rt_pings (rt x)" for key and x :: "'a YggstackMobile"
      by (simp_all add: stop_listener_def split: option.splits)
    show ?thesis
    proof (cases "parse_spec k spec")
      case (Inr m)
      with Remove op have "e' = stop_listener sched (mapping_key m) (drop_key m e)"
        by (simp add: remove_op_eq)
      with sub[of "mapping_key m" "drop_key m e"] flags[of "mapping_key m" "drop_key m e"] show ?thesis
        by (intro keep) simp_all
    qed (use Remove op i p g in \<open>auto simp: remove_op_eq\<close>)
  next
    case (Stop sched)
    with op have e': "e' = stop sched e" by simp
    have "hm_invar (listeners e)" using ok by (simp add: engine_ok_def engine_inv_def)
    from stop_alive[OF this, of sched] have al: "alive (rt e') \<subseteq> alive (rt e) -
        {i. \<exists>n. state e = Some n \<and> i \<in> node_handles n}" unfolding e' by blast
    have "is_forwarder (tk_kind (rt_tasks (rt e') ! j))" if "j \<in> alive (rt e')" for j
    proof -
      from that al have j: "j \<in> alive (rt e)" by blast
      moreover have "task_shapes (rt e') = task_shapes (rt e)"
        unfolding e' by (auto simp: stop_def Let_def split: option.splits)
      ultimately have "tk_kind (rt_tasks (rt e') ! j) = tk_kind (rt_tasks (rt e) ! j)"
        using kind_of_old[of "rt e'" "rt e" "[]" j] aliveD[OF j] by simp
      with p[unfolded proxies_ok_def, rule_format, OF j] al that show ?thesis by auto
    qed
    then have "proxies_ok e'" by (simp add: proxies_ok_def)
    moreover have "insts_ok e'" using stop_flags[OF i, of sched] by (simp add: e' insts_ok_def current_inst_def)
    moreover have "pings_ok e'" using pings_ok_stop_ping[OF g] by (simp add: e' pings_ok_def)
    ultimately show ?thesis by simp
  next
    case Clear_Mappings
    with op show ?thesis by (intro keep) (auto simp: clear_mappings_def)
  next
    case (Task_Event ev)
    with op alive_task_event[of ev "rt e"] show ?thesis by (intro keep) auto
  next
    case (Start_Ping a n t j)
    have al: "alive (rt e') = alive (rt e)" "task_shapes (rt e') = task_shapes (rt e)"
      "inst_flags (rt e') = inst_flags (rt e)" "state e' = state e"
      using Start_Ping op
      by (auto simp: start_ping_def Let_def alive_def inst_flags_def split: option.splits if_splits)
    then have "insts_ok e'" "proxies_ok e'" by (intro insts_ok_same[OF i] proxies_ok_fewer[OF p]; simp)+
    with pings_ok_start_ping[OF _ g] Start_Ping op show ?thesis by simp
  next
    case Stop_Ping
    with op have e': "e' = stop_ping e" by simp
    have "alive (rt e') = alive (rt e)" "inst_flags (rt e') = inst_flags (rt e)"
      by (simp_all add: e' alive_def inst_flags_def)
    moreover from this have "insts_ok e'" "proxies_ok e'"
      by (intro insts_ok_same[OF i] proxies_ok_fewer[OF p]; simp add: e')+
    ultimately show ?thesis using pings_ok_stop_ping[OF g] by (simp add: e')
  qed (intro keep; use op in \<open>auto simp: load_config_def generate_and_load_config_def set_socks_def
      set_http_def set_nameserver_def set_peer_status_callback_def split: sum.splits\<close>)+
  with base show ?thesis by (simp add: engine_ok_def)
qed

lemma engine_ok_new: "engine_ok engine_new"
  unfolding engine_ok_def
  by (intro conjI conjunct1[OF engine_inv_new] wired_new)
    (simp_all add: insts_ok_def only_open_def proxies_ok_def pings_ok_def only_alive_def
      engine_new_def inst_flags_def current_inst_def alive_def)

interpretation engine_state: call_invariant "exec_op lib" engine_ok for lib
  by unfold_locales (rule engine_ok_op)

section \<open>Stopping\<close>



section \<open>Careful use\<close>

text \<open>The two ways out of reach excluded: no mapping is added twice, and mappings are cleared only
  while the engine is off.\<close>

fun careful_op :: "mobile_op \<Rightarrow> 'x spec \<Rightarrow> bool" where
  "careful_op (Add k s) A = (case parse_spec k s of Inr m \<Rightarrow> mapping_key m \<notin> wanted A | Inl _ \<Rightarrow> True)"
| "careful_op Clear_Mappings A = (\<not> on A)"
| "careful_op _ A = True"

fun careful :: "'x engine_lib \<Rightarrow> mobile_op list \<Rightarrow> 'x spec \<Rightarrow> bool" where
  "careful lib [] A = True"
| "careful lib (op # ops) A = (careful_op op A \<and> careful lib ops (snd (spec_op lib op A)))"

definition all_tracked :: "'x YggstackMobile \<Rightarrow> bool" where
  "all_tracked e \<longleftrightarrow> (\<forall>i\<in>alive (rt e). \<not> untracked i e)"

definition keys_distinct :: "'x YggstackMobile \<Rightarrow> bool" where
  "keys_distinct e \<longleftrightarrow> distinct (map mapping_key (all_mappings e))"

lemma all_mappings_push: "mset (all_mappings (push_mapping m e)) = add_mset m (mset (all_mappings e))"
  by (cases m) (simp_all add: all_mappings_def)

lemma keys_distinct_push:
  assumes "keys_distinct e" and "mapping_key m \<notin> mapped_keys e"
  shows "keys_distinct (push_mapping m e)"
proof -
  have "mset (map mapping_key (all_mappings (push_mapping m e))) =
      mset (mapping_key m # map mapping_key (all_mappings e))"
    using all_mappings_push[of m e] by (simp only: mset_map list.map mset.simps image_mset_add_mset)
  from mset_eq_imp_distinct_iff[OF this] assms show ?thesis
    by (simp add: keys_distinct_def mapped_keys_def)
qed

lemma untrackedE:
  assumes "\<not> untracked i e" and "i < length (rt_tasks (rt e))" and "is_forwarder (tk_kind (rt_tasks (rt e) ! i))"
  obtains k l where "hm_get (listeners e) k = Some l" "rl_handle l = i"
  using assms unfolding untracked_def by blast

lemma tracked_spawn:
  assumes "all_tracked e" and "mapping_key m \<notin> listener_keys e"
  shows "all_tracked (mobile_spawn_listener n m e)"
  unfolding all_tracked_def
proof
  let ?e = "mobile_spawn_listener n m e"
  fix i assume "i \<in> alive (rt ?e)"
  with alive_spawn_listener[of n m e] consider "i = length (rt_tasks (rt e))" | "i \<in> alive (rt e)" by blast
  then show "\<not> untracked i ?e"
  proof cases
    case 1
    have "hm_get (listeners ?e) (mapping_key m) = Some \<lparr>rl_stop = rt_chans (rt e), rl_handle = i\<rparr>"
      by (simp add: spawn_listener_listeners 1)
    then show ?thesis unfolding untracked_def by (metis RunningListener.select_convs(2))
  next
    case 2
    show ?thesis
    proof
      assume u: "untracked i ?e"
      have old: "tk_kind (rt_tasks (rt ?e) ! i) = tk_kind (rt_tasks (rt e) ! i)"
        by (rule kind_of_old[OF spawn_listener_wiring(1) aliveD[OF 2]])
      from assms(1) 2 u old obtain k l where kl: "hm_get (listeners e) k = Some l" "rl_handle l = i"
        using untrackedE[of i e] aliveD[OF 2] by (auto simp: all_tracked_def untracked_def)
      with assms(2) have "k \<noteq> mapping_key m" by (auto simp: listener_keys_def)
      with kl(1) have "hm_get (listeners ?e) k = Some l" by (simp add: spawn_listener_listeners)
      with kl(2) u show False unfolding untracked_def by blast
    qed
  qed
qed

lemma tracked_spawn_all:
  "all_tracked e \<Longrightarrow> distinct (map mapping_key ms) \<Longrightarrow> mapping_key ` set ms \<inter> listener_keys e = {} \<Longrightarrow>
   all_tracked (fold (mobile_spawn_listener n) ms e)"
proof (induction ms arbitrary: e)
  case (Cons m ms)
  have "all_tracked (mobile_spawn_listener n m e)" using Cons.prems by (intro tracked_spawn) auto
  moreover have "mapping_key ` set ms \<inter> listener_keys (mobile_spawn_listener n m e) = {}"
    using Cons.prems by auto
  ultimately show ?case using Cons.IH Cons.prems(2) by simp
qed simp

text \<open>Fewer tasks alive, the entries of the others kept.\<close>

lemma tracked_fewer:
  assumes "all_tracked e" and "alive (rt e') \<subseteq> alive (rt e)" and "task_shapes (rt e') = task_shapes (rt e)"
    and "\<And>k l. hm_get (listeners e) k = Some l \<Longrightarrow> rl_handle l \<in> alive (rt e') \<Longrightarrow> hm_get (listeners e') k = Some l"
  shows "all_tracked e'"
  unfolding all_tracked_def
proof
  fix i assume i: "i \<in> alive (rt e')"
  with assms(2) have i': "i \<in> alive (rt e)" by blast
  have "tk_kind (rt_tasks (rt e') ! i) = tk_kind (rt_tasks (rt e) ! i)"
    using kind_of_old[of "rt e'" "rt e" "[]" i] assms(3) aliveD[OF i'] by simp
  with assms(1) i i' assms(4) show "\<not> untracked i e'"
    using aliveD[OF i'] unfolding all_tracked_def untracked_def by metis
qed

definition tidy :: "'x YggstackMobile \<Rightarrow> bool" where
  "tidy e \<longleftrightarrow> engine_ok e \<and> all_tracked e \<and> keys_distinct e"

lemma tidy_start:
  assumes "tidy e" and "state e = None" and "start_build lib c e = (node, e1)"
  shows "all_tracked (e1\<lparr>state := Some node\<rparr>) \<and> keys_distinct (e1\<lparr>state := Some node\<rparr>)"
proof -
  note b = start_build_eq[OF assms(3)]
  from assms(1,2) have none: "listener_keys e = {}"
    by (auto simp: tidy_def engine_ok_def engine_inv_def listening_def abs_engine_def)
  let ?e0 = "e\<lparr>rt := node_runtime lib c e\<rparr>"
  have "all_tracked ?e0"
    unfolding all_tracked_def
  proof
    fix i assume i: "i \<in> alive (rt ?e0)"
    show "\<not> untracked i ?e0"
    proof (cases "i < length (rt_tasks (rt e))")
      case True
      with i have "i \<in> alive (rt e)" by (simp add: alive_def node_runtime_def nth_append)
      with assms(1) True show ?thesis
        by (auto simp: tidy_def all_tracked_def untracked_def node_runtime_def nth_append)
    next
      case False
      with i have "(node_tasks e ! (i - length (rt_tasks (rt e)))) \<in> set (node_tasks e)"
        by (auto simp: alive_def node_runtime_def)
      with False i node_tasks_proxy[OF this] show ?thesis
        by (auto simp: untracked_def node_runtime_def nth_append alive_def case_prod_beta)
    qed
  qed
  with none assms(1) have "all_tracked e1"
    unfolding b(1) by (intro tracked_spawn_all) (simp_all add: tidy_def keys_distinct_def)
  moreover have "keys_distinct e1" using assms(1) by (simp add: b(1) tidy_def keys_distinct_def)
  ultimately show ?thesis by (simp add: all_tracked_def untracked_def keys_distinct_def)
qed

lemma tidy_keep:
  assumes "tidy e" and "alive (rt e') \<subseteq> alive (rt e)" and "task_shapes (rt e') = task_shapes (rt e)"
    and "listeners e' = listeners e" and "all_mappings e' = all_mappings e"
  shows "all_tracked e' \<and> keys_distinct e'"
  using assms tracked_fewer[of e e'] by (simp add: tidy_def keys_distinct_def)

lemma tidy_remove:
  assumes "tidy e"
  shows "all_tracked (stop_listener sched (mapping_key m) (drop_key m e)) \<and>
    keys_distinct (stop_listener sched (mapping_key m) (drop_key m e))"
proof -
  let ?k = "mapping_key m" and ?x = "drop_key m e"
  have x: "all_tracked ?x" "keys_distinct ?x"
    using assms by (simp_all add: tidy_def all_tracked_def untracked_def keys_distinct_def drop_key_mappings
        distinct_map_filter)
  have "all_tracked (stop_listener sched ?k ?x)"
  proof (cases "hm_get (listeners e) ?k")
    case (Some l)
    have "alive (rt (stop_listener sched ?k ?x)) \<subseteq> alive (rt ?x) - {rl_handle l}"
      using alive_join[of sched "rl_handle l" "send_stop (rl_stop l) (rt e)"] Some
      by (simp add: stop_listener_def)
    then show ?thesis using Some x(1)
      by (intro tracked_fewer[OF x(1)]) (auto simp: stop_listener_def)
  qed (use x(1) in \<open>simp add: stop_listener_def\<close>)
  with x(2) show ?thesis by (simp add: keys_distinct_def)
qed

lemma tidy_op:
  assumes op: "exec_op lib op e = (r, e')" and t: "tidy e" and c: "careful_op op (abs_engine e)"
  shows "tidy e'"
proof -
  have ok: "engine_ok e'" using engine_ok_op[OF op] t by (simp add: tidy_def)
  have "all_tracked e' \<and> keys_distinct e'"
  proof (cases op)
    case Start
    show ?thesis
    proof (cases "start_check lib e")
      case (Inr c)
      then have "state e = None" by (auto simp: start_check_def split: if_splits)
      moreover obtain node e1 where "start_build lib c e = (node, e1)" by fastforce
      ultimately show ?thesis using Start op Inr tidy_start[OF t] by (auto simp: start_def)
    qed (use Start op t in \<open>auto simp: start_def tidy_def\<close>)
  next
    case (Add k spec)
    show ?thesis
    proof (cases "parse_spec k spec")
      case (Inr m)
      with c Add have f: "mapping_key m \<notin> mapped_keys e" by (simp add: abs_engine_def)
      have push: "all_tracked (push_mapping m e)" "keys_distinct (push_mapping m e)"
        using t f keys_distinct_push[of e m] by (simp_all add: tidy_def all_tracked_def untracked_def)
      show ?thesis
      proof (cases "state e")
        case (Some node)
        with t have "listener_keys e = mapped_keys e"
          by (auto simp: tidy_def engine_ok_def engine_inv_def listening_def abs_engine_def)
        with f have "mapping_key m \<notin> listener_keys (push_mapping m e)" by (simp add: listener_keys_def)
        from tracked_spawn[OF push(1) this, of "ns_inst node"] push(2) Some Inr Add op show ?thesis
          by (auto simp: add_op_eq add_mapping_def Let_def keys_distinct_def)
      qed (use Inr Add op push in \<open>simp add: add_op_eq add_mapping_def Let_def\<close>)
    qed (use Add op t in \<open>auto simp: add_op_eq add_mapping_def tidy_def\<close>)
  next
    case (Remove k sched spec)
    with op t tidy_remove[OF t] show ?thesis
      by (auto simp: remove_op_eq tidy_def split: sum.splits)
  next
    case (Stop sched)
    with op have e': "e' = stop sched e" by simp
    have "alive (rt e') = {}"
    proof -
      have "hm_invar (listeners e)" "proxies_ok e" using t by (simp_all add: tidy_def engine_ok_def engine_inv_def)
      with stop_alive[of e sched] t aliveD[of _ "rt e"] show ?thesis
        unfolding e' by (fastforce simp: tidy_def all_tracked_def untracked_def proxies_ok_def)
    qed
    with t show ?thesis by (simp add: e' all_tracked_def keys_distinct_def tidy_def)
  next
    case Clear_Mappings
    with c have "state e = None" by (simp add: abs_engine_def)
    with t have none: "hm_get (listeners e) k = None" for k
      by (auto simp: tidy_def engine_ok_def engine_inv_def listening_def abs_engine_def listener_keys_def)
    have "all_tracked (clear_mappings e)"
    proof (rule tracked_fewer)
      show "all_tracked e" using t by (simp add: tidy_def)
    qed (simp_all add: none, simp_all add: clear_mappings_def)
    with Clear_Mappings op show ?thesis by (auto simp: keys_distinct_def)
  next
    case (Task_Event ev)
    with op alive_task_event[of ev "rt e"] show ?thesis by (intro tidy_keep[OF t]) auto
  next
    case (Start_Ping a n tm j)
    show ?thesis
      by (rule tidy_keep[OF t]) (use Start_Ping op in \<open>auto simp: start_ping_def Let_def alive_def
          split: option.splits if_splits\<close>)
  next
    case Stop_Ping
    show ?thesis by (rule tidy_keep[OF t]) (use Stop_Ping op in \<open>auto simp: alive_def\<close>)
  qed (rule tidy_keep[OF t]; use op in \<open>auto simp: load_config_def generate_and_load_config_def set_socks_def
      set_http_def set_nameserver_def set_peer_status_callback_def all_mappings_def split: sum.splits\<close>)+
  with ok show ?thesis by (simp add: tidy_def)
qed

lemma tidy_ops: "tidy e \<Longrightarrow> careful lib ops (abs_engine e) \<Longrightarrow> tidy (snd (exec_ops lib ops e))"
proof (induction ops arbitrary: e)
  case (Cons op ops)
  obtain r e1 where s: "exec_op lib op e = (r, e1)" by fastforce
  have "spec_op lib op (abs_engine e) = (r, abs_engine e1)"
    using sim_op[OF s] Cons.prems(1) by (simp add: tidy_def engine_ok_def)
  with Cons.prems(2) have "careful lib ops (abs_engine e1)" "careful_op op (abs_engine e)" by simp_all
  with Cons.IH[OF tidy_op[OF s Cons.prems(1)]] s show ?case by (simp add: case_prod_beta)
qed simp

lemma tidy_new: "tidy engine_new"
  unfolding tidy_def
  by (intro conjI engine_ok_new) (simp_all add: all_tracked_def keys_distinct_def engine_new_def alive_def all_mappings_def)



section \<open>Racing starts\<close>

text \<open>\<open>start\<close> checks the state under its lock, releases it, builds the node and commits it.  Two
  calls that both pass the check both succeed; the node of the first to commit is replaced, and
  a later \<open>stop\<close> closes only the second: the first core stays open with no handle left.\<close>

lemma racing_starts_leak:
  assumes "start_check lib e = Inr c" and a: "start_build lib c e = (n1, e1)"
    and b: "start_build lib c (e1\<lparr>state := Some n1\<rparr>) = (n2, e2)"
  shows "core_open (rt_insts (rt (stop sched (e2\<lparr>state := Some n2\<rparr>))) ! ns_inst n1)"
proof -
  let ?f = "(True, multicast_open (fresh_inst lib c), True)"
  note A = start_build_eq[OF a] and B = start_build_eq[OF b]
  have f1: "inst_flags (rt e1) = inst_flags (rt e) @ [?f]"
    by (simp add: A(1)) (simp add: node_runtime_def inst_flags_def fresh_inst_def)
  have f2: "inst_flags (rt e2) = inst_flags (rt e1) @ [?f]"
    by (simp add: B(1)) (simp add: node_runtime_def inst_flags_def fresh_inst_def)
  have n: "ns_inst n1 = length (inst_flags (rt e))" "ns_inst n2 = Suc (length (inst_flags (rt e)))"
    using A(2) B(2) arg_cong[OF f1, of length] by simp_all
  have l: "length (rt_insts (rt e2)) = Suc (Suc (length (inst_flags (rt e))))"
    using arg_cong[OF f1, of length] arg_cong[OF f2, of length] by simp
  let ?s = "stop sched (e2\<lparr>state := Some n2\<rparr>)"
  have p: "inst_flags (rt (stop_ping (e2\<lparr>state := Some n2\<rparr>))) = inst_flags (rt e2)" by (simp add: inst_flags_def)
  have s: "inst_flags (rt ?s) = (inst_flags (rt e2))[ns_inst n2 := (False, False, False)]"
    using l n p by (simp add: stop_def Let_def flags_stop_node)
  have len: "ns_inst n1 < length (rt_insts (rt ?s))" using arg_cong[OF s, of length] l n by simp
  have "fst (inst_flags (rt ?s) ! ns_inst n1)" unfolding s f2 f1 using n by (simp add: nth_append)
  with len show ?thesis by (simp add: inst_flags_def)
qed

section \<open>Dropping the engine\<close>

text \<open>\<open>drop\<close> stops the engine and shuts the runtime down, which ends every task that is left.\<close>

definition engine_drop :: "schedule \<Rightarrow> 'x YggstackMobile \<Rightarrow> 'x YggstackMobile" where
  "engine_drop sched e =
     on_rt (\<lambda>R. R\<lparr>rt_tasks := map (\<lambda>t. t\<lparr>tk_phase := Ended\<rparr>) (rt_tasks R),
                 rt_pings := map (\<lambda>p. p\<lparr>pt_alive := False\<rparr>) (rt_pings R)\<rparr>) (stop sched e)"

lemma engine_drop_ends_all: "alive (rt (engine_drop sched e)) = {}"
  by (auto simp: engine_drop_def alive_def)

end
