(* ===== verification/Mobile_Probe.thy ===== *)
theory Mobile_Probe
  imports Ping Config Stats
begin

text \<open>
  The parts of \<open>mobile.rs\<close> around the engine: the address parsers of the probe calls, the TCP and
  UDP port checks, the renderings handed to the application's callbacks and the log filter.
  A check runs against the answers of the netstack and the times they take; floating-point
  formatting is a parameter.
\<close>

section \<open>Model\<close>

definition parse_ygg_addr_port :: "string \<Rightarrow> socket_addr option" where
  "parse_ygg_addr_port s =
     (case parse_socket (trim s) of
        Some (SockV6 a p f sc) \<Rightarrow> if is_ygg_address a then Some (SockV6 a p f sc) else None
      | _ \<Rightarrow> None)"

definition parse_ygg_addr :: "string \<Rightarrow> ipv6 option" where
  "parse_ygg_addr s =
     (let t = trim s;
          inner = (case strip_prefix ''['' t of Some rest \<Rightarrow> hd (str_split (CHR '']'') rest) | None \<Rightarrow> t)
      in case parse_ipv6 inner of
           Some ip \<Rightarrow> if is_ygg_address ip then Some ip else None
         | None \<Rightarrow> None)"

text \<open>\<open>subsec_nanos as u16\<close> keeps the low sixteen bits.\<close>

definition probe_ephemeral_port :: "u32 \<Rightarrow> u16" where
  "probe_ephemeral_port nanos = (ucast nanos :: u16) mod 16384 + 49152"

definition udp_probe_payload :: "u16 \<Rightarrow> bytes" where
  "udp_probe_payload port =
     (if port = 53
      then [0x12, 0x34, 0x01, 0x00, 0x00, 0x01, 0x00, 0x00, 0x00, 0x00, 0x00, 0x00,
            0x00, 0x00, 0x02, 0x00, 0x01]
      else replicate 16 0)"

text \<open>\<open>clamp\<close> on milliseconds, as a duration.\<close>

definition clamp_millis :: "int \<Rightarrow> int \<Rightarrow> int \<Rightarrow> duration" where
  "clamp_millis lo hi ms = from_millis (nat (if ms < lo then lo else if hi < ms then hi else ms))"

text \<open>What a dial answers, and when; \<open>timeout(window, dial)\<close> sees it if it comes within the
  window.\<close>

type_synonym dial_answer = "(io_error + unit) \<times> duration"

definition within :: "duration \<Rightarrow> dial_answer \<Rightarrow> (io_error + unit) option" where
  "within window d = (if snd d \<le> window then Some (fst d) else None)"

definition time_spent :: "duration \<Rightarrow> dial_answer \<Rightarrow> duration" where
  "time_spent window d = min window (snd d)"

definition dial_verdict :: "(io_error + unit) option \<Rightarrow> string" where
  "dial_verdict r =
     (case r of
        Some (Inr _) \<Rightarrow> ''connected''
      | Some (Inl (Io ConnectionRefused _)) \<Rightarrow> ''refused''
      | _ \<Rightarrow> ''timeout'')"

text \<open>The verdict with the time the call takes.\<close>

definition check_tcp_port ::
  "bool \<Rightarrow> string \<Rightarrow> int \<Rightarrow> (socket_addr \<Rightarrow> nat \<Rightarrow> dial_answer) \<Rightarrow> string \<times> duration" where
  "check_tcp_port running addr_port timeout_ms dial =
     (case parse_ygg_addr_port addr_port of
        None \<Rightarrow> (''error'', 0)
      | Some addr \<Rightarrow>
          if \<not> running then (''error'', 0)
          else
            let timeout = clamp_millis 100 15000 timeout_ms;
                first_window = min timeout (from_secs 1);
                r0 = within first_window (dial addr 0);
                t0 = time_spent first_window (dial addr 0)
            in if dial_verdict r0 = ''connected'' then (''connected'', t0)
               else (dial_verdict (within timeout (dial addr 1)),
                     t0 + from_millis 400 + time_spent timeout (dial addr 1)))"

text \<open>The UDP check: its socket, then a loop that sends the probe at fixed times and waits for a
  reply or the next event.  Each iteration gives the result of the send, what ended the wait
  and the clock reading (since the start) after it.\<close>

datatype udp_wake = Udp_Received "io_error + unit" | Slept

type_synonym probe_step = "(io_error + unit) \<times> udp_wake \<times> duration"

definition send_at :: "duration list" where
  "send_at = [from_millis 0, from_millis 400, from_millis 1000, from_millis 1800]"

definition send_due :: "nat \<Rightarrow> duration \<Rightarrow> bool" where
  "send_due sent elapsed \<longleftrightarrow> sent < length send_at \<and> send_at ! sent \<le> elapsed"

definition next_event :: "duration \<Rightarrow> nat \<Rightarrow> duration \<Rightarrow> duration" where
  "next_event timeout sent elapsed = (if sent < length send_at then send_at ! sent else timeout) - elapsed"

fun udp_probe_loop :: "duration \<Rightarrow> nat \<Rightarrow> duration \<Rightarrow> probe_step list \<Rightarrow> (string option \<times> duration) option" where
  "udp_probe_loop timeout sent elapsed [] = None"
| "udp_probe_loop timeout sent elapsed ((send, wake, now) # steps) =
     (if send_due sent elapsed \<and> send \<noteq> Inr () then Some (None, elapsed)
      else let sent = (if send_due sent elapsed then Suc sent else sent)
        in case wake of
             Udp_Received (Inr _) \<Rightarrow> Some (Some ''replied'', now)
           | Udp_Received (Inl _) \<Rightarrow> Some (None, now)
           | Slept \<Rightarrow>
               if timeout \<le> now then Some (Some ''silent'', now)
               else udp_probe_loop timeout sent now steps)"

text \<open>Up to three binds on a random port, then an unbound socket.\<close>

definition probe_socket :: "(nat \<Rightarrow> io_error + unit) \<Rightarrow> io_error + unit \<Rightarrow> bool" where
  "probe_socket bind_udp open_udp \<longleftrightarrow> (\<exists>i\<in>{0, 1, 2}. bind_udp i = Inr ()) \<or> open_udp = Inr ()"

definition check_udp_port ::
  "bool \<Rightarrow> string \<Rightarrow> int \<Rightarrow> (nat \<Rightarrow> io_error + unit) \<Rightarrow> io_error + unit \<Rightarrow> probe_step list \<Rightarrow>
     (string \<times> duration) option" where
  "check_udp_port running addr_port timeout_ms bind_udp open_udp steps =
     (case parse_ygg_addr_port addr_port of
        None \<Rightarrow> Some (''error'', 0)
      | Some addr \<Rightarrow>
          if \<not> running \<or> \<not> probe_socket bind_udp open_udp then Some (''error'', 0)
          else map_option (\<lambda>(r, t). (case r of Some s \<Rightarrow> s | None \<Rightarrow> ''error'', t))
                 (udp_probe_loop (clamp_millis 100 15000 timeout_ms) 0 0 steps))"

text \<open>The JSON of the ping protocol; \<open>fmt\<close> prints a duration in milliseconds with two digits.\<close>

fun done_reason :: "PingDoneReason \<Rightarrow> string" where
  "done_reason Completed = ''completed''"
| "done_reason Stopped = ''stopped''"
| "done_reason Failed = ''error''"

fun ping_event_json :: "(duration \<Rightarrow> string) \<Rightarrow> PingEvent \<Rightarrow> string" where
  "ping_event_json fmt (Probe seq (Some rtt) err) =
     ''{'' @ dquoted ''Type'' @ '':'' @ dquoted ''probe'' @ '','' @ dquoted ''Seq'' @ '':'' @ show_nat (unat seq) @
     '','' @ dquoted ''Success'' @ '':true,'' @ dquoted ''RttMs'' @ '':'' @ fmt rtt @ ''}''"
| "ping_event_json fmt (Probe seq None err) =
     ''{'' @ dquoted ''Type'' @ '':'' @ dquoted ''probe'' @ '','' @ dquoted ''Seq'' @ '':'' @ show_nat (unat seq) @
     '','' @ dquoted ''Success'' @ '':false,'' @ dquoted ''Error'' @ '':'' @
     dquoted (case err of Some x \<Rightarrow> x | None \<Rightarrow> ''timeout'') @ ''}''"
| "ping_event_json fmt (Done reason) =
     ''{'' @ dquoted ''Type'' @ '':'' @ dquoted ''done'' @ '','' @ dquoted ''Reason'' @ '':'' @
     dquoted (done_reason reason) @ ''}''"

text \<open>The peer list; the counters of the core come printed.\<close>

record peer_info =
  pi_uri :: string
  pi_key :: bytes
  pi_up :: bool
  pi_inbound :: bool
  pi_priority :: string
  pi_cost :: string
  pi_rx :: string
  pi_tx :: string
  pi_uptime :: string
  pi_latency :: string

definition peer_port :: "string \<Rightarrow> u16" where
  "peer_port uri =
     (case parse_u16 (last (str_split (CHR '':'') (hd (str_split (CHR ''?'') uri)))) of
        Some p \<Rightarrow> p | None \<Rightarrow> 0)"

definition peer_address :: "'x config_lib \<Rightarrow> bytes \<Rightarrow> string" where
  "peer_address lib key = (if list_ex (\<lambda>b. b \<noteq> 0) key then show_ipv6 (addr_for_key lib key) else [])"

definition json_bool :: "bool \<Rightarrow> string" where
  "json_bool b = (if b then ''true'' else ''false'')"

definition peer_json :: "(string \<Rightarrow> 'e + string) \<Rightarrow> 'x config_lib \<Rightarrow> peer_info \<Rightarrow> string" where
  "peer_json to_string lib p =
     ''{'' @ dquoted ''URI'' @ '':'' @ json_or_empty (to_string (pi_uri p)) @
     '','' @ dquoted ''Up'' @ '':'' @ json_bool (pi_up p) @
     '','' @ dquoted ''Inbound'' @ '':'' @ json_bool (pi_inbound p) @
     '','' @ dquoted ''Address'' @ '':'' @ json_or_empty (to_string (peer_address lib (pi_key p))) @
     '','' @ dquoted ''Port'' @ '':'' @ show_nat (unat (peer_port (pi_uri p))) @
     '','' @ dquoted ''Priority'' @ '':'' @ pi_priority p @
     '','' @ dquoted ''Cost'' @ '':'' @ pi_cost p @
     '','' @ dquoted ''RXBytes'' @ '':'' @ pi_rx p @
     '','' @ dquoted ''TXBytes'' @ '':'' @ pi_tx p @
     '','' @ dquoted ''Uptime'' @ '':'' @ pi_uptime p @
     '','' @ dquoted ''Latency'' @ '':'' @ pi_latency p @ ''}''"

definition peers_snapshot_json :: "(string \<Rightarrow> 'e + string) \<Rightarrow> 'x config_lib \<Rightarrow> peer_info list \<Rightarrow> string" where
  "peers_snapshot_json to_string lib peers = ''['' @ join '','' (map (peer_json to_string lib) peers) @ '']''"

text \<open>The peer-event task: the snapshots it delivers.  An iteration waits for the stop or an
  event, then for the stop or the debounce time; the events queued by then are drained.\<close>

datatype peer_wake = Peer_Stop | Peer_Changed | Peer_Lagged | Peer_Closed

fun peer_forwarder :: "(peer_wake \<times> bool \<times> 's) list \<Rightarrow> 's list" where
  "peer_forwarder [] = []"
| "peer_forwarder ((w, stopped, snapshot) # ws) =
     (if w = Peer_Stop \<or> w = Peer_Closed \<or> stopped then []
      else snapshot # peer_forwarder ws)"

definition peer_deliveries :: "'s \<Rightarrow> (peer_wake \<times> bool \<times> 's) list \<Rightarrow> 's list" where
  "peer_deliveries baseline ws = baseline # peer_forwarder ws"

text \<open>The log filter of the application callback.\<close>

datatype tracing_level = ERROR | WARN | INFO | DEBUG | TRACE

fun level_rank :: "tracing_level \<Rightarrow> u8" where
  "level_rank ERROR = 0"
| "level_rank WARN = 1"
| "level_rank INFO = 2"
| "level_rank DEBUG = 3"
| "level_rank TRACE = 4"

definition set_log_level :: "string \<Rightarrow> u8" where
  "set_log_level level =
     (let l = to_ascii_lowercase level
      in if l = ''error'' then 0 else if l = ''warn'' then 1 else if l = ''trace'' then 4
         else if l = ''debug'' then 3 else 2)"

definition callback_enabled :: "u8 \<Rightarrow> tracing_level \<Rightarrow> bool" where
  "callback_enabled log_level lvl \<longleftrightarrow> level_rank lvl \<le> log_level"

section \<open>Addresses\<close>

lemma trim_show_ipv6 [simp]: "trim (show_ipv6 a) = show_ipv6 a"
  by (intro trim_list_graphic list_all_mono_pred[OF show_ipv6_chars addr_char_graphic])

lemma no_bracket_in_ipv6: "CHR ''['' \<notin> set (show_ipv6 a)" "CHR '']'' \<notin> set (show_ipv6 a)"
  using show_ipv6_chars[of a] by (auto simp: list_all_iff)

lemma strip_bracket_ipv6: "strip_prefix ''['' (show_ipv6 a) = None"
  using no_bracket_in_ipv6(1)[of a] by (cases "show_ipv6 a") auto

lemma trim_bracketed: "trim (''['' @ show_ipv6 a @ '']'') = ''['' @ show_ipv6 a @ '']''"
  by (intro trim_graphic) (simp_all add: graphic_def)

lemma split_bracketed: "hd (str_split (CHR '']'') (show_ipv6 a @ CHR '']'' # r)) = show_ipv6 a"
  using str_split_append[OF no_bracket_in_ipv6(2), of a r] by simp

lemma parse_ygg_addr_socket:
  "parse_ygg_addr (show_socket (SockV6 a p 0 0)) = (if is_ygg_address a then Some a else None)"
  unfolding parse_ygg_addr_def trim_show_socket by (simp add: split_bracketed)

text \<open>Exactly the addresses of \<open>200::/7\<close> are accepted, and each in all
  its printed forms: bare, in brackets, and with a port, which the warm-up call ignores and the
  port checks require.\<close>
theorem ygg_address_forms:
  "parse_ygg_addr (show_ipv6 a) = (if is_ygg_address a then Some a else None) \<and>
   parse_ygg_addr (''['' @ show_ipv6 a @ '']'') = (if is_ygg_address a then Some a else None) \<and>
   parse_ygg_addr (show_socket (SockV6 a p 0 0)) = (if is_ygg_address a then Some a else None) \<and>
   parse_ygg_addr_port (show_socket (SockV6 a p 0 0)) =
     (if is_ygg_address a then Some (SockV6 a p 0 0) else None)"
proof -
  have "parse_ygg_addr (show_ipv6 a) = (if is_ygg_address a then Some a else None)"
    by (simp add: parse_ygg_addr_def strip_bracket_ipv6)
  moreover have "parse_ygg_addr (''['' @ show_ipv6 a @ '']'') = (if is_ygg_address a then Some a else None)"
    unfolding parse_ygg_addr_def trim_bracketed using split_bracketed[of a "[]"] by simp
  moreover have "parse_ygg_addr_port (show_socket (SockV6 a p 0 0)) =
      (if is_ygg_address a then Some (SockV6 a p 0 0) else None)"
    unfolding parse_ygg_addr_port_def trim_show_socket using parse_socket_show[of "SockV6 a p 0 0"] by simp
  ultimately show ?thesis using parse_ygg_addr_socket[of a p] by simp
qed

lemma parse_ygg_addr_port_range:
  "parse_ygg_addr_port s = Some a \<Longrightarrow> \<exists>x p f sc. a = SockV6 x p f sc \<and> is_ygg_address x"
  by (auto simp: parse_ygg_addr_port_def split: option.splits socket_addr.splits if_splits)

text \<open>Whatever the clock reads, the source port of a UDP probe is in the
  dynamic range \<open>49152..65535\<close>: the sum does not wrap.\<close>
theorem probe_port_range: "49152 \<le> unat (probe_ephemeral_port nanos) \<and> unat (probe_ephemeral_port nanos) \<le> 65535"
proof -
  let ?m = "(ucast nanos :: u16) mod 16384"
  have "unat ?m < 16384" by (simp add: unat_mod_distrib)
  then have "unat (?m + 49152) = unat ?m + 49152"
    by (simp add: unat_word_ariths(1) unat_mod_distrib)
  with \<open>unat ?m < 16384\<close> show ?thesis by (simp add: probe_ephemeral_port_def)
qed

section \<open>The TCP check\<close>

lemma clamp_millis_bounds:
  "lo \<le> hi \<Longrightarrow> 0 \<le> lo \<Longrightarrow> from_millis (nat lo) \<le> clamp_millis lo hi ms \<and> clamp_millis lo hi ms \<le> from_millis (nat hi)"
  by (auto simp: clamp_millis_def from_millis_def)

text \<open>On a running node and a Yggdrasil address the check says
  \<open>connected\<close> exactly when the first dial succeeds within its window (a second at most) or the
  retry within the full time limit; otherwise its verdict is the retry's alone.  It returns
  within the limit plus \<open>1.4\<close> seconds.\<close>
theorem tcp_check_verdict:
  assumes "limit = clamp_millis 100 15000 timeout_ms"
    and "parse_ygg_addr_port s = Some addr" and "check_tcp_port True s timeout_ms dial = (verdict, t)"
  shows "(verdict = ''connected'' \<longleftrightarrow> within (min limit (from_secs 1)) (dial addr 0) = Some (Inr ()) \<or>
      within limit (dial addr 1) = Some (Inr ())) \<and>
    verdict \<in> {''connected'', dial_verdict (within limit (dial addr 1))} \<and>
    t \<le> limit + from_millis 1400"
proof -
  have con: "dial_verdict r = ''connected'' \<longleftrightarrow> r = Some (Inr ())" for r
    by (auto simp: dial_verdict_def split: option.splits sum.splits io_error.splits error_kind.splits)
  have m: "from_secs 1 = from_millis 1000" "from_millis 1000 + from_millis 400 = from_millis 1400"
    by (simp_all add: from_secs_def from_millis_def)
  have t0: "time_spent (min limit (from_secs 1)) (dial addr 0) \<le> from_millis 1000"
    using m(1) by (simp add: time_spent_def)
  have t1: "time_spent limit (dial addr 1) \<le> limit" by (simp add: time_spent_def)
  show ?thesis
    using assms(2,3) con m(2) t0 t1
    by (auto simp: check_tcp_port_def Let_def assms(1)[symmetric] split: if_splits)
qed

definition demo_target :: socket_addr where
  "demo_target = SockV6 (v6_of_segments [0x200, 0, 0, 0, 0, 0, 0, 1]) 80 0 0"

lemma demo_target_parses: "parse_ygg_addr_port (show_socket demo_target) = Some demo_target"
proof -
  have "is_ygg_address (v6_of_segments [0x200, 0, 0, 0, 0, 0, 0, 1])" by (simp add: is_ygg_address_def)
  then show ?thesis
    unfolding parse_ygg_addr_port_def trim_show_socket
    using parse_socket_show[of demo_target] by (simp add: demo_target_def)
qed

text \<open>A cold destination: the first dial gets no answer in its second, the retry connects.\<close>
theorem tcp_check_verdict_witness:
  "fst (check_tcp_port True (show_socket demo_target) 3000
     (\<lambda>a i. if i = 0 then (Inr (), from_millis 1500) else (Inr (), from_millis 20))) = ''connected''"
proof -
  obtain verdict t where c: "check_tcp_port True (show_socket demo_target) 3000
      (\<lambda>a i. if i = 0 then (Inr (), from_millis 1500) else (Inr (), from_millis 20)) = (verdict, t)" by fastforce
  from tcp_check_verdict[OF refl demo_target_parses c] have "verdict = ''connected''"
    by (simp add: within_def clamp_millis_def from_millis_def)
  with c show ?thesis by simp
qed

text \<open>A refusal of the first dial does not decide: the retry may report a timeout instead.\<close>

lemma retry_overrides_refusal:
  assumes "parse_ygg_addr_port s = Some addr" and "dial addr 0 = (Inl (Io ConnectionRefused m), 0)"
    and "snd (dial addr 1) > from_millis 15000"
  shows "fst (check_tcp_port True s timeout_ms dial) = ''timeout''"
proof -
  have "\<not> snd (dial addr 1) \<le> clamp_millis 100 15000 timeout_ms"
    using assms(3) clamp_millis_bounds[of 100 15000 timeout_ms] by auto
  then have "within (clamp_millis 100 15000 timeout_ms) (dial addr 1) = None" by (simp add: within_def)
  then show ?thesis using assms(1,2) by (simp add: check_tcp_port_def Let_def within_def dial_verdict_def)
qed

section \<open>The UDP check\<close>

text \<open>Timers do not fire early: after a sleep the clock has reached the next event.\<close>

fun timers_ok :: "duration \<Rightarrow> nat \<Rightarrow> duration \<Rightarrow> probe_step list \<Rightarrow> bool" where
  "timers_ok timeout sent elapsed [] = True"
| "timers_ok timeout sent elapsed ((send, wake, now) # steps) =
     (let sent' = (if send_due sent elapsed then Suc sent else sent)
      in elapsed \<le> now \<and> (wake = Slept \<longrightarrow> elapsed + next_event timeout sent' elapsed \<le> now) \<and>
         timers_ok timeout sent' now steps)"

lemma length_send_at [simp]: "length send_at = 4"
  by (simp add: send_at_def)

lemma send_at_0 [simp]: "send_at ! 0 = 0"
  by (simp add: send_at_def from_millis_def)

lemma slept_is_due:
  assumes "elapsed + next_event timeout sent elapsed \<le> now" and "sent < 4"
  shows "send_due sent now"
  using assms by (auto simp: send_due_def next_event_def)

text \<open>At the head of the loop the next probe is due, or all are sent and the rest is one sleep.\<close>

lemma udp_loop_ends:
  assumes "timers_ok timeout sent elapsed steps" and "send_due sent elapsed" and "sent < 4"
    and "4 - sent \<le> length steps"
  shows "\<exists>r. udp_probe_loop timeout sent elapsed steps = Some r"
  using assms
proof (induction timeout sent elapsed steps rule: udp_probe_loop.induct)
  case (2 timeout sent elapsed send wake now steps)
  show ?case
  proof (cases "send = Inr () \<and> wake = Slept \<and> now < timeout")
    case False
    with "2.prems"(2) show ?thesis by (cases wake; cases send) (auto split: sum.splits)
  next
    case True
    with "2.prems"(1,2) have n: "elapsed + next_event timeout (Suc sent) elapsed \<le> now"
      and t: "timers_ok timeout (Suc sent) now steps" by (simp_all add: Let_def)
    show ?thesis
    proof (cases "Suc sent < 4")
      case less: True
      with slept_is_due[OF n] "2.prems"(4)
      have "send_due (Suc sent) now" "4 - Suc sent \<le> length steps" by auto
      with "2.IH"[of "Suc sent"] "2.prems"(2) True t less show ?thesis by auto
    next
      case False
      with n have "timeout \<le> now" by (auto simp: next_event_def)
      with True show ?thesis by simp
    qed
  qed
qed simp

lemma udp_loop_verdict:
  "udp_probe_loop timeout sent elapsed steps = Some (v, t) \<Longrightarrow>
   v = None \<or> v = Some ''replied'' \<or> v = Some ''silent''"
  by (induction timeout sent elapsed steps rule: udp_probe_loop.induct)
    (auto simp: Let_def split: if_splits udp_wake.splits sum.splits)

text \<open>C35. The UDP check ends: as timers do not fire early, four rounds of the
  loop always give a verdict, whatever the replies and the time limit are.\<close>
theorem udp_check_ends:
  assumes "timers_ok (clamp_millis 100 15000 timeout_ms) 0 0 steps" and "4 \<le> length steps"
  shows "\<exists>verdict t. check_udp_port running s timeout_ms bind_udp open_udp steps = Some (verdict, t) \<and>
    verdict \<in> {''replied'', ''silent'', ''error''}"
proof -
  have "send_due 0 0" by (simp add: send_due_def)
  with udp_loop_ends[OF assms(1)] assms(2)
  obtain r where r: "udp_probe_loop (clamp_millis 100 15000 timeout_ms) 0 0 steps = Some r" by auto
  obtain v t where vt: "r = (v, t)" by fastforce
  have "v = None \<or> v = Some ''replied'' \<or> v = Some ''silent''"
    using udp_loop_verdict[OF r[unfolded vt]] .
  then show ?thesis
    using r vt by (cases "parse_ygg_addr_port s") (auto simp: check_udp_port_def)
qed

text \<open>Silence on an idle line: four sends, four sleeps.\<close>

definition demo_silence :: "probe_step list" where
  "demo_silence = map (\<lambda>ms. (Inr (), Slept, from_millis ms)) [400, 1000, 1800, 5000]"

lemma demo_silence_timers: "timers_ok (clamp_millis 100 15000 5000) 0 0 demo_silence"
  by (simp add: demo_silence_def clamp_millis_def from_millis_def send_due_def send_at_def next_event_def Let_def)

theorem udp_check_ends_witness:
  "\<exists>verdict t. check_udp_port True (show_socket demo_target) 5000 (\<lambda>i. Inr ()) (Inr ()) demo_silence =
     Some (verdict, t) \<and> verdict \<in> {''replied'', ''silent'', ''error''}"
  using udp_check_ends[OF demo_silence_timers, of True "show_socket demo_target" "\<lambda>i. Inr ()" "Inr ()"]
  by (simp add: demo_silence_def)

text \<open>The time limit is looked at only after a sleep, and the first sleep lasts until the second
  probe is due: with a limit of 400 ms or less, silence is reported no earlier than that, and a
  reply that comes later than the limit still counts.\<close>

lemma udp_check_overshoots:
  assumes "timeout \<le> from_millis 400" and "timers_ok timeout 0 0 ((Inr (), Slept, now) # steps)"
  shows "udp_probe_loop timeout 0 0 ((Inr (), Slept, now) # steps) = Some (Some ''silent'', now) \<and>
    from_millis 400 \<le> now"
proof -
  have "send_due 0 0" by (simp add: send_due_def)
  with assms(2) have "from_millis 400 \<le> now" by (simp add: Let_def next_event_def send_at_def)
  with assms(1) show ?thesis by (simp add: send_due_def)
qed

end
