(* ===== verification/Mobile_Calls.thy ===== *)
theory Mobile_Calls
  imports Mobile_Stop Mobile_Probe
begin

text \<open>
  The calls of the mobile library that ask a running node for something without changing the
  engine: peers, statistics, probes and the warm-up.  Each looks at the engine's state once and
  uses the instance it finds there.  What the core or the netstack of that instance answers is
  an argument.
\<close>

section \<open>Model\<close>

definition add_live_peer :: "(nat \<Rightarrow> string \<Rightarrow> string + unit) \<Rightarrow> string \<Rightarrow> 'x YggstackMobile \<Rightarrow> YggstackError + unit" where
  "add_live_peer add_peer uri e =
     and_then (ok_or (running_core e) (NotRunning ''not running''))
       (\<lambda>core. map_err Runtime_Error (add_peer core uri))"

definition remove_live_peer :: "(nat \<Rightarrow> string \<Rightarrow> string + unit) \<Rightarrow> string \<Rightarrow> 'x YggstackMobile \<Rightarrow> YggstackError + unit" where
  "remove_live_peer remove_peer uri e =
     and_then (ok_or (running_core e) (NotRunning ''not running''))
       (\<lambda>core. map_err Runtime_Error (remove_peer core uri))"

text \<open>The core that is asked, if any.\<close>

definition retry_peers_now :: "'x YggstackMobile \<Rightarrow> nat option" where
  "retry_peers_now e = running_core e"

definition get_peers_json ::
  "(string \<Rightarrow> 'e + string) \<Rightarrow> 'x engine_lib \<Rightarrow> (nat \<Rightarrow> peer_info list) \<Rightarrow> 'x YggstackMobile \<Rightarrow> string" where
  "get_peers_json to_string lib get_peers e =
     (case running_core e of
        None \<Rightarrow> ''[]''
      | Some core \<Rightarrow> peers_snapshot_json to_string (config_lib.truncate lib) (get_peers core))"

text \<open>The core that sends the lookup and the address looked up.\<close>

definition warmup_address :: "string \<Rightarrow> 'x YggstackMobile \<Rightarrow> (nat \<times> ipv6) option" where
  "warmup_address addr e =
     (case parse_ygg_addr addr of
        None \<Rightarrow> None
      | Some ip \<Rightarrow> (case running_core e of None \<Rightarrow> None | Some core \<Rightarrow> Some (core, ip)))"

definition engine_check_tcp ::
  "(nat \<Rightarrow> socket_addr \<Rightarrow> nat \<Rightarrow> dial_answer) \<Rightarrow> string \<Rightarrow> int \<Rightarrow> 'x YggstackMobile \<Rightarrow> string \<times> duration" where
  "engine_check_tcp dial addr_port timeout_ms e =
     (case running_netstack e of
        None \<Rightarrow> check_tcp_port False addr_port timeout_ms (dial 0)
      | Some ns \<Rightarrow> check_tcp_port True addr_port timeout_ms (dial ns))"

definition engine_check_udp ::
  "(nat \<Rightarrow> nat \<Rightarrow> io_error + unit) \<Rightarrow> (nat \<Rightarrow> io_error + unit) \<Rightarrow> (nat \<Rightarrow> probe_step list) \<Rightarrow> string \<Rightarrow> int \<Rightarrow>
     'x YggstackMobile \<Rightarrow> (string \<times> duration) option" where
  "engine_check_udp bind_udp open_udp steps addr_port timeout_ms e =
     (case running_netstack e of
        None \<Rightarrow> check_udp_port False addr_port timeout_ms (bind_udp 0) (open_udp 0) (steps 0)
      | Some ns \<Rightarrow> check_udp_port True addr_port timeout_ms (bind_udp ns) (open_udp ns) (steps ns))"

section \<open>Properties\<close>


lemma running_core_open:
  assumes "engine_ok e" and "running_core e = Some i"
  shows "i < length (rt_insts (rt e)) \<and> core_open (rt_insts (rt e) ! i) \<and> netstack_open (rt_insts (rt e) ! i)"
proof -
  have oo: "only_open (inst_flags (rt e)) (Some i)"
    using assms by (auto simp: engine_ok_def insts_ok_def current_inst_def running_core_def)
  then have l: "i < length (rt_insts (rt e))" by (simp add: only_open_def)
  with oo have "flag_ok True (inst_flags (rt e) ! i)" by (auto simp: only_open_def)
  with l show ?thesis by (simp add: inst_flags_def)
qed

text \<open>After any sequence of calls, the warm-up sends a lookup only for
  an address of \<open>200::/7\<close>, only through the core of an instance whose core and netstack are
  open, and that is the instance every other call uses.\<close>
theorem calls_reach_open_node:
  assumes "e = snd (exec_ops lib ops engine_new)" and "warmup_address s e = Some (i, ip)"
  shows "is_ygg_address ip \<and> i < length (rt_insts (rt e)) \<and> core_open (rt_insts (rt e) ! i) \<and>
    netstack_open (rt_insts (rt e) ! i) \<and> mobile_is_running e \<and>
    engine_check_tcp dial t ms e = check_tcp_port True t ms (dial i) \<and>
    get_peers_json to_string lib get_peers e =
      peers_snapshot_json to_string (config_lib.truncate lib) (get_peers i) \<and>
    get_listeners_json to_string e = to_json to_string (ni_stats (rt_insts (rt e) ! i))"
proof -
  from assms(2) have r: "running_core e = Some i" and a: "parse_ygg_addr s = Some ip"
    by (auto simp: warmup_address_def split: option.splits)
  have ok: "engine_ok e" unfolding assms(1) by (rule engine_state.run_keeps[OF engine_ok_new])
  have "is_ygg_address ip" using a by (auto simp: parse_ygg_addr_def Let_def split: option.splits if_splits)
  moreover obtain n where "state e = Some n" "ns_inst n = i" using r by (auto simp: running_core_def)
  ultimately show ?thesis
    using running_core_open[OF ok r] r
    by (simp add: mobile_is_running_def engine_check_tcp_def running_netstack_def get_peers_json_def
        get_listeners_json_def)
qed

theorem calls_reach_open_node_witness:
  "\<exists>e. e = snd (exec_ops demo_engine_lib [Load_Config ''y'', Start] engine_new) \<and>
     warmup_address (show_socket demo_target) e = Some (0, v6_of_segments [0x200, 0, 0, 0, 0, 0, 0, 1]) \<and>
     core_open (rt_insts (rt e) ! 0) \<and> mobile_is_running e"
proof -
  define e where "e = snd (exec_ops demo_engine_lib [Load_Config ''y'', Start] engine_new)"
  let ?a = "v6_of_segments [0x200, 0, 0, 0, 0, 0, 0, 1]"
  have "is_ygg_address ?a" by (simp add: is_ygg_address_def)
  then have "parse_ygg_addr (show_socket demo_target) = Some ?a"
    using parse_ygg_addr_socket[of ?a 80] by (simp add: demo_target_def)
  moreover have "state e = Some demo_node" using demo_running by (auto simp: e_def)
  ultimately have "warmup_address (show_socket demo_target) e = Some (0, ?a)"
    by (simp add: warmup_address_def running_core_def demo_node_def)
  with calls_reach_open_node[OF e_def this] show ?thesis using e_def by blast
qed

end
