(* ===== verification/Std_Utf8.thy ===== *)
theory Std_Utf8
  imports Std_Io
begin

text \<open>
  \<open>String::from_utf8_lossy\<close>: the bytes are read in units, each a well-formed character or the
  longest prefix of one that the next byte breaks off, and every broken unit becomes the
  replacement character.  Well-formed text is unchanged and the result is always well-formed.
\<close>

text \<open>The second byte of a three or four byte character, as the first one restricts it.\<close>

definition three_lead :: "char \<Rightarrow> char \<Rightarrow> bool" where
  "three_lead a b \<longleftrightarrow>
     (byte_val a = 0xE0 \<and> in_range 0xA0 0xBF b) \<or> (in_range 0xE1 0xEC a \<and> cont b) \<or>
     (byte_val a = 0xED \<and> in_range 0x80 0x9F b) \<or> (in_range 0xEE 0xEF a \<and> cont b)"

definition four_lead :: "char \<Rightarrow> char \<Rightarrow> bool" where
  "four_lead a b \<longleftrightarrow>
     (byte_val a = 0xF0 \<and> in_range 0x90 0xBF b) \<or> (in_range 0xF1 0xF3 a \<and> cont b) \<or>
     (byte_val a = 0xF4 \<and> in_range 0x80 0x8F b)"

text \<open>The length of the first unit, and whether it is well-formed.\<close>

definition utf8_unit :: "string \<Rightarrow> nat \<times> bool" where
  "utf8_unit s =
     (case s of
        [] \<Rightarrow> (0, True)
      | a # s1 \<Rightarrow>
          if byte_val a < 0x80 then (1, True)
          else (case s1 of
              [] \<Rightarrow> (1, False)
            | b # s2 \<Rightarrow>
                if utf8_two a b then (2, True)
                else if three_lead a b then
                  (case s2 of c # _ \<Rightarrow> if cont c then (3, True) else (2, False) | [] \<Rightarrow> (2, False))
                else if four_lead a b then
                  (case s2 of
                     [] \<Rightarrow> (2, False)
                   | c # s3 \<Rightarrow>
                       if \<not> cont c then (2, False)
                       else (case s3 of d # _ \<Rightarrow> if cont d then (4, True) else (3, False) | [] \<Rightarrow> (3, False)))
                else (1, False)))"

definition replacement :: string where
  "replacement = [CHR 0xEF, CHR 0xBF, CHR 0xBD]"

lemma unit_pos: "s \<noteq> [] \<Longrightarrow> 0 < fst (utf8_unit s)"
  by (auto simp: utf8_unit_def neq_Nil_conv split: list.splits)

lemma unit_le: "fst (utf8_unit s) \<le> length s"
  by (auto simp: utf8_unit_def split: list.splits)

function from_utf8_lossy :: "string \<Rightarrow> string" where
  "from_utf8_lossy s =
     (if s = [] then []
      else (case utf8_unit s of (n, valid) \<Rightarrow>
              (if valid then take n s else replacement) @ from_utf8_lossy (drop n s)))"
  by pat_completeness auto

termination from_utf8_lossy
proof (relation "measure length")
  fix s :: string and n valid
  assume "s \<noteq> []" "(n, valid) = utf8_unit s"
  with unit_pos[of s] show "(drop n s, s) \<in> measure length" by (cases "utf8_unit s") auto
qed simp

declare from_utf8_lossy.simps [simp del]

lemma three_lead_iff: "utf8_three a b c \<longleftrightarrow> three_lead a b \<and> cont c"
  by (auto simp: utf8_three_def three_lead_def)

lemma four_lead_iff: "utf8_four a b c d \<longleftrightarrow> four_lead a b \<and> cont c \<and> cont d"
  by (auto simp: utf8_four_def four_lead_def)

lemma leads_disjoint:
  "utf8_two a b \<Longrightarrow> \<not> three_lead a b \<and> \<not> four_lead a b" "three_lead a b \<Longrightarrow> \<not> four_lead a b"
  "byte_val a < 0x80 \<Longrightarrow> \<not> utf8_two a b \<and> \<not> three_lead a b \<and> \<not> four_lead a b"
  by (auto simp: utf8_two_def three_lead_def four_lead_def in_range_def)

text \<open>Validity is that of the first unit and of the rest.\<close>

lemma utf8_valid_unit:
  assumes "s \<noteq> []"
  shows "utf8_valid s \<longleftrightarrow> snd (utf8_unit s) \<and> utf8_valid (drop (fst (utf8_unit s)) s)"
proof (cases s rule: utf8_valid.cases)
  case (2 a)
  then show ?thesis by (simp add: utf8_unit_def)
next
  case (3 a b)
  then show ?thesis using leads_disjoint[of a b] by (simp add: utf8_unit_def)
next
  case (4 a b c)
  then show ?thesis using leads_disjoint[of a b] by (auto simp: utf8_unit_def three_lead_iff)
next
  case (5 a b c d t)
  then show ?thesis using leads_disjoint[of a b] by (auto simp: utf8_unit_def three_lead_iff four_lead_iff)
qed (use assms in simp)

lemma unit_append:
  assumes "s \<noteq> []" and "snd (utf8_unit s)"
  shows "utf8_unit (take (fst (utf8_unit s)) s @ t) = utf8_unit s"
proof (cases s rule: utf8_valid.cases)
  case (2 a)
  with assms show ?thesis by (simp add: utf8_unit_def split: if_splits)
next
  case (3 a b)
  with assms(2) show ?thesis by (simp add: utf8_unit_def split: if_splits)
next
  case (4 a b c)
  with assms(2) show ?thesis by (simp add: utf8_unit_def split: if_splits)
next
  case (5 a b c d u)
  with assms(2) show ?thesis by (simp add: utf8_unit_def split: if_splits)
qed (use assms in simp)

lemma valid_unit_append:
  assumes "s \<noteq> []" and "snd (utf8_unit s)" and "utf8_valid t"
  shows "utf8_valid (take (fst (utf8_unit s)) s @ t)"
proof -
  have "take (fst (utf8_unit s)) s @ t \<noteq> []" using assms(1) unit_pos[of s] by (auto simp: take_eq_Nil)
  moreover have "drop (fst (utf8_unit s)) (take (fst (utf8_unit s)) s @ t) = t" using unit_le[of s] by simp
  ultimately show ?thesis
    using utf8_valid_unit[of "take (fst (utf8_unit s)) s @ t"] unit_append[OF assms(1,2), of t] assms(2,3) by simp
qed

lemma valid_replacement: "utf8_valid t \<Longrightarrow> utf8_valid (replacement @ t)"
  by (cases t) (simp_all add: replacement_def utf8_two_def utf8_three_def in_range_def cont_def of_char_def)

lemma lossy_keeps_valid: "utf8_valid s \<Longrightarrow> from_utf8_lossy s = s"
proof (induction s rule: from_utf8_lossy.induct)
  case (1 s)
  show ?case
  proof (cases "s = []")
    case False
    then have v: "snd (utf8_unit s)" "utf8_valid (drop (fst (utf8_unit s)) s)"
      using 1(2) utf8_valid_unit by blast+
    have "from_utf8_lossy (drop (fst (utf8_unit s)) s) = drop (fst (utf8_unit s)) s"
      using "1.IH"[OF False, of "fst (utf8_unit s)" "snd (utf8_unit s)"] v(2) by simp
    with False v(1) show ?thesis by (subst from_utf8_lossy.simps) (simp add: case_prod_beta)
  qed (simp add: from_utf8_lossy.simps)
qed

lemma lossy_is_valid: "utf8_valid (from_utf8_lossy s)"
proof (induction s rule: from_utf8_lossy.induct)
  case (1 s)
  show ?case
  proof (cases "s = []")
    case False
    have ih: "utf8_valid (from_utf8_lossy (drop (fst (utf8_unit s)) s))"
      using "1.IH"[OF False, of "fst (utf8_unit s)" "snd (utf8_unit s)"] by simp
    show ?thesis
      using False valid_unit_append[OF False _ ih] valid_replacement[OF ih]
      by (subst from_utf8_lossy.simps) (simp add: case_prod_beta)
  qed (simp add: from_utf8_lossy.simps)
qed

end
