(* ===== verification/Mobile_Log.thy ===== *)
theory Mobile_Log
  imports Mobile_Probe Std_Utf8 Machine
begin

text \<open>
  The log bridge of the mobile library, the first part of \<open>mobile.rs\<close>: two process-wide
  variables, the application's sink behind a mutex and the level as an atomic, a subscriber
  installed once, and a writer that passes each formatted event to the sink.  Formatting an
  event is the tracing library's; an event comes with its bytes.  What the application's
  \<open>on_log\<close> does while it is called, the events it logs itself and whether it panics, is part of
  the event, because the writer holds the mutex over the call: a standard mutex locked twice by
  one thread never returns, and one whose holder panics refuses every later lock.
\<close>

section \<open>Model\<close>

record 'cb log_state =
  log_sink :: "'cb option"
  log_level :: u8
  tracing_init :: bool
  sink_poisoned :: bool

definition log_initial :: "'cb log_state" where
  "log_initial = \<lparr>log_sink = None, log_level = 2, tracing_init = False, sink_poisoned = False\<rparr>"

record on_log_act =
  act_logs :: "tracing_level list"
  act_panics :: bool

datatype log_end = Wrote nat | Blocked | Panicked

text \<open>The filter of the callback layer; before \<open>init_tracing\<close> no subscriber sees an event.\<close>

definition event_enabled :: "'cb log_state \<Rightarrow> tracing_level \<Rightarrow> bool" where
  "event_enabled st lvl \<longleftrightarrow> tracing_init st \<and> callback_enabled (log_level st) lvl"

definition init_tracing :: "'cb log_state \<Rightarrow> 'cb log_state" where
  "init_tracing st = (if tracing_init st then st else st\<lparr>tracing_init := True\<rparr>)"

text \<open>\<open>CallbackWriter::write\<close>: what reaches the application, how the call ends, and the state.\<close>

definition callback_write ::
  "on_log_act \<Rightarrow> string \<Rightarrow> 'cb log_state \<Rightarrow> (('cb \<times> string) list \<times> log_end) \<times> 'cb log_state" where
  "callback_write act buf st =
     (let line = from_utf8_lossy buf in
      if sink_poisoned st then (([], Panicked), st)
      else (case log_sink st of
          None \<Rightarrow> (([], Wrote (length buf)), st)
        | Some cb \<Rightarrow>
            (let out = [(cb, trim_end line)] in
             if list_ex (event_enabled st) (act_logs act) then ((out, Blocked), st)
             else if act_panics act then ((out, Panicked), st\<lparr>sink_poisoned := True\<rparr>)
             else ((out, Wrote (length buf)), st))))"

definition set_log_callback :: "'cb \<Rightarrow> 'cb log_state \<Rightarrow> log_end \<times> 'cb log_state" where
  "set_log_callback cb st =
     (if sink_poisoned st then (Panicked, st) else (Wrote 0, st\<lparr>log_sink := Some cb\<rparr>))"

definition store_log_level :: "string \<Rightarrow> 'cb log_state \<Rightarrow> 'cb log_state" where
  "store_log_level level st = st\<lparr>log_level := set_log_level level\<rparr>"

text \<open>The calls and events of the process, in order.\<close>

datatype 'cb log_op =
    New_Engine
  | Set_Log_Callback 'cb
  | Set_Log_Level string
  | Log_Event tracing_level string on_log_act

fun log_step :: "'cb log_op \<Rightarrow> 'cb log_state \<Rightarrow> (('cb \<times> string) list \<times> log_end) \<times> 'cb log_state" where
  "log_step New_Engine st = (([], Wrote 0), init_tracing st)"
| "log_step (Set_Log_Callback cb) st = (case set_log_callback cb st of (r, st') \<Rightarrow> (([], r), st'))"
| "log_step (Set_Log_Level level) st = (([], Wrote 0), store_log_level level st)"
| "log_step (Log_Event lvl buf act) st =
     (if event_enabled st lvl then callback_write act buf st else (([], Wrote 0), st))"

section \<open>What the application sees\<close>

text \<open>The settings in force after a sequence of calls.\<close>

definition sink_after :: "'cb log_op list \<Rightarrow> 'cb option" where
  "sink_after ops = fold (\<lambda>op s. case op of Set_Log_Callback cb \<Rightarrow> Some cb | _ \<Rightarrow> s) ops None"

definition level_after :: "'cb log_op list \<Rightarrow> u8" where
  "level_after ops = fold (\<lambda>op l. case op of Set_Log_Level level \<Rightarrow> set_log_level level | _ \<Rightarrow> l) ops 2"

definition well_behaved :: "'cb log_op \<Rightarrow> bool" where
  "well_behaved op = (case op of Log_Event lvl buf act \<Rightarrow> act_logs act = [] \<and> \<not> act_panics act | _ \<Rightarrow> True)"

lemma callback_write_state:
  "act_logs act = [] \<Longrightarrow> \<not> act_panics act \<Longrightarrow> snd (callback_write act buf st) = st"
  by (simp add: callback_write_def Let_def split: option.split)

lemma log_state_after:
  assumes "list_all well_behaved ops"
  shows "snd (run_calls log_step ops log_initial) =
    \<lparr>log_sink = sink_after ops, log_level = level_after ops, tracing_init = New_Engine \<in> set ops, sink_poisoned = False\<rparr>"
  using assms
proof (induction ops rule: rev_induct)
  case (snoc op ops)
  let ?st = "snd (run_calls log_step ops log_initial)"
  have "snd (run_calls log_step (ops @ [op]) log_initial) = snd (log_step op ?st)"
    using run_calls_append[of log_step ops log_initial "fst (run_calls log_step ops log_initial)" ?st "[op]"]
    by (simp add: case_prod_beta)
  with snoc show ?case
    by (cases op) (auto simp: sink_after_def level_after_def well_behaved_def init_tracing_def set_log_callback_def
        store_log_level_def callback_write_state)
qed (simp add: log_initial_def sink_after_def level_after_def)


definition demo_log :: "nat log_op list" where
  "demo_log = [New_Engine, Set_Log_Callback 1, Set_Log_Level ''WARN'', Set_Log_Callback 7]"


section \<open>What a misbehaving sink does\<close>

text \<open>The writer holds the sink's mutex while it calls the
  application: an \<open>on_log\<close> that logs an event the filter admits blocks its thread forever, and
  after one that panics every later admitted event and every change of the sink panics too.\<close>
theorem sink_lock_held_over_callback:
  assumes "event_enabled st lvl" and "log_sink st = Some cb" and "\<not> sink_poisoned st"
  shows "(snd (fst (log_step (Log_Event lvl buf act) st)) = Blocked \<longleftrightarrow> list_ex (event_enabled st) (act_logs act)) \<and>
    (\<not> list_ex (event_enabled st) (act_logs act) \<and> act_panics act \<longrightarrow>
      (let st' = snd (log_step (Log_Event lvl buf act) st)
       in log_step (Log_Event lvl buf2 act2) st' = (([], Panicked), st') \<and>
          log_step (Set_Log_Callback cb2) st' = (([], Panicked), st')))"
  using assms by (auto simp: callback_write_def set_log_callback_def event_enabled_def Let_def)

theorem sink_lock_held_over_callback_witness:
  "snd (fst (log_step (Log_Event ERROR ''up'' \<lparr>act_logs = [INFO], act_panics = False\<rparr>)
     \<lparr>log_sink = Some (1 :: nat), log_level = 2, tracing_init = True, sink_poisoned = False\<rparr>)) = Blocked"
  using sink_lock_held_over_callback[of "\<lparr>log_sink = Some (1 :: nat), log_level = 2, tracing_init = True, sink_poisoned = False\<rparr>"
      ERROR 1 "''up''" "\<lparr>act_logs = [INFO], act_panics = False\<rparr>"]
  by (simp add: event_enabled_def callback_enabled_def)

end
