(* ===== verification/Mobile_Ping.thy ===== *)
theory Mobile_Ping
  imports Mobile_Stop Mobile_Probe Quic_Check
begin

text \<open>
  Ping sessions of the mobile engine end to end: the parameters \<open>start_ping\<close> gives to a session,
  the stop signal of its watch channel, and the lines its callback gets.  The module functions
  that need no engine are here too.
\<close>

section \<open>Model\<close>

text \<open>\<open>watch_stop\<close>: the receiver sees the current value, then each change it is woken for, or that
  the sender is gone.  The number of wake-ups until the future resolves; \<open>None\<close> while it waits.\<close>

datatype watch_ev = Sent bool | Sender_Dropped

fun watch_stop :: "bool \<Rightarrow> watch_ev list \<Rightarrow> nat option" where
  "watch_stop cur evs =
     (if cur then Some 0
      else case evs of
          [] \<Rightarrow> None
        | Sender_Dropped # _ \<Rightarrow> Some 1
        | Sent v # evs' \<Rightarrow> map_option Suc (watch_stop v evs'))"

declare watch_stop.simps [simp del]

text \<open>The task of a session: its events as the lines given to \<open>on_result\<close>.\<close>

definition session_lines :: "(duration \<Rightarrow> string) \<Rightarrow> ping_act list \<Rightarrow> string list" where
  "session_lines fmt acts = List.map_filter (\<lambda>a. case a of Report ev \<Rightarrow> Some (ping_event_json fmt ev) | Echo _ _ _ \<Rightarrow> None) acts"

definition ping_session ::
  "(duration \<Rightarrow> string) \<Rightarrow> io_error + unit \<Rightarrow> ping_task \<Rightarrow> ping_script list \<Rightarrow> string list" where
  "ping_session fmt opened p scripts =
     session_lines fmt (run_ping opened (pt_dst p) (pt_count p) (pt_timeout p) scripts)"

definition generate_config :: "'x config_lib \<Rightarrow> string" where
  "generate_config lib = generate_text lib"

definition get_version :: "string \<Rightarrow> string" where
  "get_version cargo_pkg_version = ''yggstack '' @ cargo_pkg_version"

definition check_quic_peer :: "bool \<Rightarrow> 'conn quic_env \<Rightarrow> string \<Rightarrow> i64" where
  "check_quic_peer runtime_ok env uri = check_quic_rtt runtime_ok env uri"

section \<open>The stop signal\<close>

lemma watch_stop_resolves:
  "watch_stop False evs \<noteq> None \<longleftrightarrow> Sent True \<in> set evs \<or> Sender_Dropped \<in> set evs"
proof (induction evs)
  case (Cons ev evs)
  show ?case
  proof (cases ev)
    case (Sent v)
    then show ?thesis using Cons by (cases v) (simp_all add: watch_stop.simps)
  qed (simp add: watch_stop.simps)
qed (simp add: watch_stop.simps)

section \<open>The parameters of a session\<close>

definition ping_wf :: "ping_task \<Rightarrow> bool" where
  "ping_wf p \<longleftrightarrow> is_ygg_address (pt_dst p) \<and> from_millis 50 \<le> pt_timeout p \<and> pt_timeout p \<le> from_millis 60000 \<and>
     pt_interval p \<le> from_millis 60000"

definition pings_wf :: "'x YggstackMobile \<Rightarrow> bool" where
  "pings_wf e \<longleftrightarrow> list_all ping_wf (rt_pings (rt e))"

lemma pings_wf_stop_ping: "pings_wf e \<Longrightarrow> pings_wf (stop_ping e)"
proof (cases "ping e")
  case (Some i)
  assume wf: "pings_wf e"
  have "ping_wf ((rt_pings (rt e) ! i)\<lparr>pt_alive := False\<rparr>)" if "i < length (rt_pings (rt e))"
    using wf that by (simp add: pings_wf_def list_all_length ping_wf_def)
  with wf Some show ?thesis
    by (cases "i < length (rt_pings (rt e))")
      (auto simp: pings_wf_def stop_ping_def on_rt_def list_all_length nth_list_update)
qed (simp add: stop_ping_def)

lemma pings_wf_start_ping:
  assumes "start_ping a n t i e = (r, e')" and "pings_wf e"
  shows "pings_wf e'"
  using assms pings_wf_stop_ping[OF assms(2)]
  by (auto simp: start_ping_def Let_def pings_wf_def ping_wf_def clamp_def from_millis_def on_rt_def
      split: option.splits if_splits)

lemma pings_wf_op:
  assumes op: "exec_op lib op e = (r, e')" and wf: "pings_wf e"
  shows "pings_wf e'"
proof -
  have keep: "pings_wf e'" if "rt_pings (rt e') = rt_pings (rt e)" using wf that by (simp add: pings_wf_def)
  show ?thesis
  proof (cases op)
    case Start
    show ?thesis
    proof (cases "start_check lib e")
      case (Inr c)
      obtain node e1 where b: "start_build lib c e = (node, e1)" by fastforce
      with Start op Inr have "e' = e1\<lparr>state := Some node\<rparr>" by (simp add: start_def)
      then show ?thesis by (intro keep) (simp add: start_build_eq(1)[OF b] node_runtime_def)
    qed (use Start op wf in \<open>auto simp: start_def\<close>)
  next
    case (Add k spec)
    with op show ?thesis
      by (intro keep) (auto simp: add_op_eq add_mapping_def Let_def spawn_listener_wiring split: sum.splits option.splits)
  next
    case (Remove k sched spec)
    have "rt_pings (rt (stop_listener sched key x)) = rt_pings (rt x)" for key and x :: "'a YggstackMobile"
      by (simp add: stop_listener_def split: option.splits)
    with Remove op show ?thesis by (intro keep) (auto simp: remove_op_eq split: sum.splits)
  next
    case (Stop sched)
    with op pings_wf_stop_ping[OF wf] show ?thesis by (auto simp: pings_wf_def)
  next
    case Start_Ping
    with op wf show ?thesis using pings_wf_start_ping by (metis exec_op.simps(12))
  next
    case Stop_Ping
    with op pings_wf_stop_ping[OF wf] show ?thesis by auto
  qed (intro keep; use op in \<open>auto simp: load_config_def generate_and_load_config_def set_socks_def clear_mappings_def
      set_http_def set_nameserver_def set_peer_status_callback_def split: sum.splits\<close>)+
qed

interpretation ping_params: call_invariant "exec_op lib" pings_wf for lib
  by unfold_locales (rule pings_wf_op)

text \<open>C37. Whatever arguments the application passes, negative and huge
  ones included, and whatever calls it makes, every session the engine has ever started pings an
  address of \<open>200::/7\<close>, waits between 50 ms and a minute for each reply and pauses a minute at
  most.\<close>
theorem ping_parameters_bounded:
  "list_all (\<lambda>p. is_ygg_address (pt_dst p) \<and> from_millis 50 \<le> pt_timeout p \<and> pt_timeout p \<le> from_millis 60000 \<and>
     pt_interval p \<le> from_millis 60000) (rt_pings (rt (snd (exec_ops lib ops engine_new))))"
proof -
  have "pings_wf engine_new" by (simp add: pings_wf_def engine_new_def)
  from ping_params.run_keeps[OF this, of lib ops] show ?thesis
    by (simp add: pings_wf_def list_all_iff ping_wf_def)
qed

section \<open>The lines of a session\<close>

lemma session_lines_simps [simp]:
  "session_lines fmt [] = []" "session_lines fmt (Echo d q b # acts) = session_lines fmt acts"
  "session_lines fmt (Report ev # acts) = ping_event_json fmt ev # session_lines fmt acts"
  "session_lines fmt (acts @ acts') = session_lines fmt acts @ session_lines fmt acts'"
  by (simp_all add: session_lines_def List.map_filter_def)

definition probe_lines :: "(duration \<Rightarrow> string) \<Rightarrow> nat \<Rightarrow> duration option list \<Rightarrow> string list" where
  "probe_lines fmt k rtts = map (\<lambda>(i, r). ping_event_json fmt (probe_event (of_nat i) r)) (enumerate k rtts)"

lemma session_lines_probes: "session_lines fmt (probe_log dst k rtts) = probe_lines fmt k rtts"
  by (induction rtts arbitrary: k) (simp_all add: probe_lines_def)

lemma probe_line_not_done: "ping_event_json fmt (Probe q rtt err) \<noteq> ping_event_json fmt (Done reason)"
  by (cases rtt) (simp_all add: dquoted_def)

lemma ending_lines:
  assumes "log_ending dst cnt n tail"
  shows "(session_lines fmt tail = [] \<or> session_lines fmt tail = [ping_event_json fmt (Done Stopped)] \<or>
      session_lines fmt tail = [ping_event_json fmt (Done Failed)] \<or>
      session_lines fmt tail = [ping_event_json fmt (Done Completed)] \<and> n = unat cnt) \<and> (cnt = 0 \<or> n \<le> unat cnt)"
  using assms by (auto simp: log_ending_def may_probe_def simp del: ping_event_json.simps)

text \<open>C14. The callback of a session gets the results of the probes
  numbered from one, in order and one line each, never more than \<open>count\<close> of them in a bounded
  session, and then at most one line that ends it, which no result can be mistaken for; after it
  nothing.  A session that gets no socket is ended by a single line.\<close>
theorem ping_callback_protocol:
  "(\<exists>rtts tail. ping_session fmt (Inr ()) p scripts = probe_lines fmt 1 rtts @ tail \<and>
      (tail = [] \<or> tail = [ping_event_json fmt (Done Stopped)] \<or> tail = [ping_event_json fmt (Done Failed)] \<or>
       tail = [ping_event_json fmt (Done Completed)] \<and> length rtts = unat (pt_count p)) \<and>
      (pt_count p = 0 \<or> length rtts \<le> unat (pt_count p))) \<and>
   ping_session fmt (Inl err) p scripts = [ping_event_json fmt (Done Failed)] \<and>
   ping_event_json fmt (Probe q rtt cause) \<noteq> ping_event_json fmt (Done reason)"
proof -
  have "log_shape (pt_dst p) (pt_count p) 0 (run_ping (Inr ()) (pt_dst p) (pt_count p) (pt_timeout p) scripts)"
    using ping_loop_shape[of "pt_count p" 0 0] by (simp add: run_ping_def counts_ok_def)
  then obtain rtts tail where a: "run_ping (Inr ()) (pt_dst p) (pt_count p) (pt_timeout p) scripts =
      probe_log (pt_dst p) 1 rtts @ tail" and t: "log_ending (pt_dst p) (pt_count p) (length rtts) tail"
    by (auto simp: log_shape_def)
  have "ping_session fmt (Inr ()) p scripts = probe_lines fmt 1 rtts @ session_lines fmt tail"
    by (simp add: ping_session_def a session_lines_probes)
  moreover have "ping_session fmt (Inl err) p scripts = [ping_event_json fmt (Done Failed)]"
    by (simp add: ping_session_def run_ping_def del: ping_event_json.simps)
  ultimately show ?thesis using ending_lines[OF t, of fmt] probe_line_not_done by blast
qed

end
