(* ===== verification/Cli.thy ===== *)
theory Cli
  imports Mobile "HOL-Library.Monad_Syntax"
begin

text \<open>
  The command line program, \<open>main.rs\<close>: from the options to a message, an error, or a running node,
  and from a signal to its end.  The option parser is the \<open>getopts\<close> crate; its result is an
  argument, as are the configuration library, the file system and standard input.  A lookup of
  \<open>getopts\<close> panics on a name that was not declared, so a lookup returns an option and the whole
  program runs in the option monad: \<open>None\<close> is the panic.  A running node is the value \<open>run_plan\<close>:
  its configuration, the addresses of the proxies, the mappings, and the runtime with the tasks
  \<open>main\<close> has spawned, in order, and the statistics as the spawn calls leave them (the tasks change
  them later: a proxy adds its entry once it is bound, a forwarder that cannot bind removes its
  own).
\<close>

section \<open>Model\<close>

datatype arity = Opt_Flag | Opt_Single | Opt_Multi

text \<open>The declared options: short name, long name and arity.\<close>

definition cli_options :: "(string \<times> string \<times> arity) list" where
  "cli_options =
     [([], ''genconf'', Opt_Flag), ([], ''useconf'', Opt_Flag), ([], ''useconffile'', Opt_Single),
      ([], ''normaliseconf'', Opt_Flag), ([], ''json'', Opt_Flag), ([], ''autoconf'', Opt_Flag),
      ([], ''version'', Opt_Flag), ([], ''address'', Opt_Flag), ([], ''subnet'', Opt_Flag),
      ([], ''publickey'', Opt_Flag), ([], ''exportkey'', Opt_Flag), ([], ''loglevel'', Opt_Single),
      ([], ''logto'', Opt_Single), ([], ''socks'', Opt_Single), ([], ''http'', Opt_Single),
      ([], ''nameserver'', Opt_Single), ([], ''local-tcp'', Opt_Multi), ([], ''local-udp'', Opt_Multi),
      ([], ''remote-tcp'', Opt_Multi), ([], ''remote-udp'', Opt_Multi), (''h'', ''help'', Opt_Flag)]"

record getopts_matches =
  opt_present :: "string \<Rightarrow> bool option"
  opt_str :: "string \<Rightarrow> string option option"
  opt_strs :: "string \<Rightarrow> string list option"

text \<open>The law of \<open>getopts\<close>: a lookup of a declared name does not panic.\<close>

definition getopts_ok :: "(string \<times> string \<times> arity) list \<Rightarrow> getopts_matches \<Rightarrow> bool" where
  "getopts_ok opts m \<longleftrightarrow>
     (\<forall>(s, l, a)\<in>set opts. \<forall>nm\<in>{s, l} - {[]}. opt_present m nm \<noteq> None \<and> opt_str m nm \<noteq> None \<and> opt_strs m nm \<noteq> None)"

record cli_env =
  env_stdin :: "string + string"
  env_read :: "string \<Rightarrow> string + string"
  env_usage :: string
  env_version :: string
  env_append :: "string \<Rightarrow> bool"

text \<open>What \<open>main\<close> uses of the signing key beside the mobile library.\<close>

record 'x cli_lib = "'x engine_lib" +
  keypair_bytes :: "'x ygg_config_scheme \<Rightarrow> bytes"

datatype log_sink = Log_Stdout | Log_File string

record 'x run_plan =
  rp_log :: "string \<times> log_sink"
  rp_config :: "'x ygg_config_scheme"
  rp_address :: ipv6
  rp_nameserver :: string
  rp_socks :: "string option"
  rp_http :: "string option"
  rp_mappings :: "mapping list"
  rp_rt :: runtime

datatype 'x outcome =
    Usage_Exit string string
  | Prints string
  | Fails string
  | Runs "'x run_plan"

text \<open>The filter and the destination of the log; a file that cannot be opened for appending
  leaves the log on standard output.\<close>

definition init_logging :: "(string \<Rightarrow> bool) \<Rightarrow> string \<Rightarrow> string option \<Rightarrow> string \<times> log_sink" where
  "init_logging can_append level logto =
     (''yggstack='' @ level @ '',yggdrasil='' @ level @ '',ironwood=warn'',
      case logto of
        None \<Rightarrow> Log_Stdout
      | Some path \<Rightarrow> if path = ''stdout'' then Log_Stdout
                     else if can_append path then Log_File path else Log_Stdout)"

text \<open>The first of the given options that is present decides.\<close>

fun first_present :: "getopts_matches \<Rightarrow> (string \<times> 'r) list \<Rightarrow> 'r option option" where
  "first_present m [] = Some None"
| "first_present m ((nm, r) # rest) =
     do { present \<leftarrow> opt_present m nm; if present then Some (Some r) else first_present m rest }"

text \<open>Choosing the configuration; \<open>Some None\<close> when no option names one.\<close>

definition choose_config ::
  "'x cli_lib \<Rightarrow> cli_env \<Rightarrow> getopts_matches \<Rightarrow> (string + 'x ygg_config_scheme) option option" where
  "choose_config lib env m =
     (let clib = config_lib.truncate lib in
      do { c \<leftarrow> first_present m
             [(''autoconf'', Inr (generate clib)),
              (''useconf'', map_err (\<lambda>e. ''stdin: '' @ e) (load_stdin clib (env_stdin env)))];
           case c of
             Some r \<Rightarrow> Some (Some r)
           | None \<Rightarrow>
               do { file \<leftarrow> opt_str m ''useconffile'';
                    Some (case file of
                        Some path \<Rightarrow> Some (map_err (\<lambda>e. path @ '': '' @ e) (load_file clib (env_read env) path))
                      | None \<Rightarrow> None) } })"

text \<open>\<open>println!\<close> ends its text with a line feed.\<close>

definition println :: "string \<Rightarrow> string" where
  "println s = s @ [CHR 0x0A]"

text \<open>The queries that print something about the configuration and end the program.\<close>

definition query ::
  "'x cli_lib \<Rightarrow> getopts_matches \<Rightarrow> 'x ygg_config_scheme \<Rightarrow> bytes \<Rightarrow> string option option" where
  "query lib m c pk =
     (let clib = config_lib.truncate lib in
      first_present m
        [(''address'', println (show_ipv6 (addr_for_key clib pk))),
         (''subnet'', case subnet_for_key clib pk of (ip, plen) \<Rightarrow> println (show_ipv6 ip @ ''/'' @ show_nat (unat plen))),
         (''publickey'', println (hex_encode lib pk)),
         (''exportkey'', println (hex_encode lib (keypair_bytes lib c))),
         (''normaliseconf'', case toml_to_string_pretty lib c of Inr s \<Rightarrow> s | Inl _ \<Rightarrow> [])])"

text \<open>The loops over the specifications of one option: the first that does not parse ends the
  program with its message.\<close>

fun parse_specs :: "string \<Rightarrow> (string \<Rightarrow> string + 'm) \<Rightarrow> string list \<Rightarrow> string + 'm list" where
  "parse_specs opt parse [] = Inr []"
| "parse_specs opt parse (spec # specs) =
     and_then (map_err (\<lambda>e. ''--'' @ opt @ '' '' @ quoted spec @ '': '' @ e) (parse spec))
       (\<lambda>m. and_then (parse_specs opt parse specs) (\<lambda>ms. Inr (m # ms)))"

fun parse_opts :: "getopts_matches \<Rightarrow> (string \<times> (string \<Rightarrow> string + mapping)) list \<Rightarrow> (string + mapping list) option" where
  "parse_opts m [] = Some (Inr [])"
| "parse_opts m ((opt, parse) # rest) =
     do { specs \<leftarrow> opt_strs m opt;
          case parse_specs opt parse specs of
            Inl e \<Rightarrow> Some (Inl e)
          | Inr ms \<Rightarrow> map_option (\<lambda>r. and_then r (\<lambda>ms'. Inr (ms @ ms'))) (parse_opts m rest) }"

definition spec_options :: "(string \<times> (string \<Rightarrow> string + mapping)) list" where
  "spec_options =
     [(''local-tcp'', \<lambda>s. and_then (tcp_parse_local s) (\<lambda>x. Inr (Local_Tcp x))),
      (''local-udp'', \<lambda>s. and_then (udp_parse_local s) (\<lambda>x. Inr (Udp_Local x))),
      (''remote-tcp'', \<lambda>s. and_then (tcp_parse_remote s) (\<lambda>x. Inr (Remote_Tcp x))),
      (''remote-udp'', \<lambda>s. and_then (udp_parse_remote s) (\<lambda>x. Inr (Udp_Remote x)))]"

definition parse_all_specs :: "getopts_matches \<Rightarrow> (string + mapping list) option" where
  "parse_all_specs m = parse_opts m spec_options"

text \<open>A proxy address that starts with a colon means every IPv4 interface.\<close>

definition listen_addr :: "string \<Rightarrow> string" where
  "listen_addr addr = (case addr of x # _ \<Rightarrow> if x = CHR '':'' then ''0.0.0.0'' @ addr else addr | [] \<Rightarrow> addr)"

text \<open>The tasks of the node share one stop channel, number 0.\<close>

definition spawn_proxy :: "string option \<Rightarrow> string \<Rightarrow> string \<Rightarrow> runtime \<Rightarrow> runtime" where
  "spawn_proxy addr key kind R = (if addr = None then R else spawn_task (Proxy key kind) 0 0 Starting R)"

definition spawn_forwarder :: "mapping \<Rightarrow> runtime \<Rightarrow> runtime" where
  "spawn_forwarder mp R =
     (case spawn_fn mp (ni_stats (rt_insts R ! 0)) of (key, stats) \<Rightarrow>
        spawn_task (Forwarder key) 0 0 Starting (upd_inst 0 (\<lambda>n. n\<lparr>ni_stats := stats\<rparr>) R))"

definition fresh_node :: runtime where
  "fresh_node =
     \<lparr>rt_tasks = [], rt_insts = [\<lparr>ni_stats = new_registry, core_open = True, multicast_open = False, netstack_open = True\<rparr>],
      rt_chans = 1, rt_pings = []\<rparr>"

definition start_node ::
  "'x cli_lib \<Rightarrow> getopts_matches \<Rightarrow> string \<times> log_sink \<Rightarrow> 'x ygg_config_scheme \<Rightarrow> bytes \<Rightarrow> mapping list \<Rightarrow>
     'x run_plan option" where
  "start_node lib m log c pk ms =
     do { nameserver \<leftarrow> opt_str m ''nameserver'';
          socks \<leftarrow> opt_str m ''socks'';
          http \<leftarrow> opt_str m ''http'';
          Some \<lparr>rp_log = log, rp_config = c, rp_address = addr_for_key (config_lib.truncate lib) pk,
            rp_nameserver = (case nameserver of Some s \<Rightarrow> s | None \<Rightarrow> []),
            rp_socks = map_option listen_addr socks, rp_http = map_option listen_addr http, rp_mappings = ms,
            rp_rt = fold spawn_forwarder ms (spawn_proxy http HTTP_STATS_KEY ''http''
                      (spawn_proxy socks SOCKS_STATS_KEY ''socks'' fresh_node))\<rparr> }"

definition run_configured ::
  "'x cli_lib \<Rightarrow> getopts_matches \<Rightarrow> string \<times> log_sink \<Rightarrow> 'x ygg_config_scheme \<Rightarrow> 'x outcome option" where
  "run_configured lib m log c =
     (case verifying_key lib c of
        Inl e \<Rightarrow> Some (Fails (''key error: '' @ e))
      | Inr pk \<Rightarrow>
          do { q \<leftarrow> query lib m c pk;
               case q of
                 Some txt \<Rightarrow> Some (Prints txt)
               | None \<Rightarrow>
                   do { specs \<leftarrow> parse_all_specs m;
                        case specs of
                          Inl e \<Rightarrow> Some (Fails e)
                        | Inr ms \<Rightarrow> map_option Runs (start_node lib m log c pk ms) } })"

definition cli_main :: "'x cli_lib \<Rightarrow> cli_env \<Rightarrow> string + getopts_matches \<Rightarrow> 'x outcome option" where
  "cli_main lib env args =
     (case args of
        Inl e \<Rightarrow> Some (Usage_Exit (''Error: '' @ e) (env_usage env))
      | Inr m \<Rightarrow>
          do { early \<leftarrow> first_present m
                 [(''help'', env_usage env), (''version'', println (''yggstack '' @ env_version env))];
               case early of
                 Some txt \<Rightarrow> Some (Prints txt)
               | None \<Rightarrow>
                   do { level \<leftarrow> opt_str m ''loglevel'';
                        logto \<leftarrow> opt_str m ''logto'';
                        gen \<leftarrow> opt_present m ''genconf'';
                        if gen then Some (Prints (generate_text (config_lib.truncate lib)))
                        else do {
                          chosen \<leftarrow> choose_config lib env m;
                          case chosen of
                            None \<Rightarrow> Some (Usage_Exit
                              ''No config specified. Use --genconf, --useconf, --useconffile, or --autoconf.''
                              (env_usage env))
                          | Some (Inl e) \<Rightarrow> Some (Fails e)
                          | Some (Inr c) \<Rightarrow>
                              run_configured lib m
                                (init_logging (env_append env) (case level of Some l \<Rightarrow> l | None \<Rightarrow> ''info'') logto) c } } })"

text \<open>The end of \<open>main\<close>: a signal, or the failure to install the handler.  A signal sends the stop;
  in both cases \<open>main\<close> returns, which drops the runtime with every task in it.\<close>

datatype wake_signal = Ctrl_C | Sigterm | No_Handler string

definition send_shutdown :: "wake_signal \<Rightarrow> runtime \<Rightarrow> (string + unit) \<times> runtime" where
  "send_shutdown sig R =
     (case sig of No_Handler e \<Rightarrow> (Inl e, R) | Ctrl_C \<Rightarrow> (Inr (), send_stop 0 R) | Sigterm \<Rightarrow> (Inr (), send_stop 0 R))"

section \<open>Lookups\<close>

definition declared :: "string \<Rightarrow> bool" where
  "declared nm \<longleftrightarrow> nm \<noteq> [] \<and> list_ex (\<lambda>(s, l, a). nm = s \<or> nm = l) cli_options"

lemma lookup_ok:
  assumes "getopts_ok cli_options m" and "declared nm"
  obtains b v vs where "opt_present m nm = Some b" "opt_str m nm = Some v" "opt_strs m nm = Some vs"
proof -
  have "opt_present m nm \<noteq> None \<and> opt_str m nm \<noteq> None \<and> opt_strs m nm \<noteq> None"
    using assms by (fastforce simp: getopts_ok_def declared_def list_ex_iff)
  with that show ?thesis by auto
qed

lemma first_present_ok:
  assumes "getopts_ok cli_options m" and "list_all (\<lambda>(nm, r). declared nm) rs"
  shows "\<exists>r. first_present m rs = Some r"
  using assms(2)
proof (induction rs)
  case (Cons x rs)
  obtain nm r where x: "x = (nm, r)" by fastforce
  with Cons.prems obtain b where "opt_present m nm = Some b" using lookup_ok[OF assms(1), of nm] by auto
  with Cons x show ?case by simp
qed simp

lemma first_present_None:
  "first_present m rs = Some None \<longleftrightarrow> list_all (\<lambda>(nm, r). opt_present m nm = Some False) rs"
  by (induction m rs rule: first_present.induct) (auto simp: bind_eq_Some_conv split: if_splits)

lemma parse_opts_ok:
  assumes "getopts_ok cli_options m" and "list_all (\<lambda>(nm, p). declared nm) os"
  shows "\<exists>r. parse_opts m os = Some r"
  using assms(2)
proof (induction os)
  case (Cons x os)
  obtain nm p where x: "x = (nm, p)" by fastforce
  with Cons.prems obtain vs where "opt_strs m nm = Some vs" using lookup_ok[OF assms(1), of nm] by auto
  with Cons x show ?case by (auto split: sum.split)
qed simp

lemma declared_simps [simp]:
  "declared ''help''" "declared ''version''" "declared ''loglevel''" "declared ''logto''"
  "declared ''genconf''" "declared ''autoconf''" "declared ''useconf''" "declared ''useconffile''"
  "declared ''address''" "declared ''subnet''" "declared ''publickey''" "declared ''exportkey''"
  "declared ''normaliseconf''" "declared ''local-tcp''" "declared ''local-udp''" "declared ''remote-tcp''"
  "declared ''remote-udp''" "declared ''nameserver''" "declared ''socks''" "declared ''http''"
  by (simp_all add: declared_def cli_options_def)

lemma choose_config_ok:
  assumes "getopts_ok cli_options m"
  shows "\<exists>c. choose_config lib env m = Some c"
proof -
  let ?rs = "[(''autoconf'', Inr (generate (config_lib.truncate lib))),
     (''useconf'', map_err (\<lambda>e. ''stdin: '' @ e) (load_stdin (config_lib.truncate lib) (env_stdin env)))]"
  obtain path where "opt_str m ''useconffile'' = Some path"
    using lookup_ok[OF assms, of "''useconffile''"] by auto
  moreover obtain c where "first_present m ?rs = Some c"
    using first_present_ok[OF assms, of ?rs] by auto
  ultimately show ?thesis by (cases c) (simp_all add: choose_config_def Let_def del: first_present.simps)
qed

lemma run_configured_ok:
  assumes "getopts_ok cli_options m"
  shows "\<exists>out. run_configured lib m log c = Some out"
proof -
  note l = lookup_ok[OF assms]
  have q: "\<exists>q. query lib m c pk = Some q" for pk
    unfolding query_def Let_def by (rule first_present_ok[OF assms]) simp
  have "\<exists>r. parse_all_specs m = Some r"
    unfolding parse_all_specs_def by (rule parse_opts_ok[OF assms]) (simp add: spec_options_def)
  then obtain r where r: "parse_all_specs m = Some r" ..
  obtain ns socks http where "opt_str m ''nameserver'' = Some ns" "opt_str m ''socks'' = Some socks"
    "opt_str m ''http'' = Some http"
    using l[of "''nameserver''"] l[of "''socks''"] l[of "''http''"] by (metis declared_simps)
  then have st: "\<exists>p. start_node lib m log c pk ms = Some p" for pk ms by (simp add: start_node_def)
  show ?thesis
  proof (cases "verifying_key lib c")
    case (Inr pk)
    obtain q where "query lib m c pk = Some q" using q by blast
    with Inr r st[of pk] show ?thesis by (cases q; cases r) (simp_all add: run_configured_def)
  qed (simp add: run_configured_def)
qed


section \<open>What runs\<close>

lemma parse_specs_Inr: "parse_specs opt parse specs = Inr ms \<Longrightarrow> map parse specs = map Inr ms"
  by (induction specs arbitrary: ms) auto

lemma parse_specs_Inl:
  "parse_specs opt parse specs = Inl e \<Longrightarrow>
   \<exists>spec err. spec \<in> set specs \<and> parse spec = Inl err \<and> e = ''--'' @ opt @ '' '' @ quoted spec @ '': '' @ err"
proof (induction specs)
  case (Cons s specs)
  show ?case
  proof (cases "parse s")
    case (Inr m)
    with Cons.prems have "parse_specs opt parse specs = Inl e" by (cases "parse_specs opt parse specs") auto
    with Cons.IH show ?thesis by auto
  qed (use Cons.prems in auto)
qed simp

text \<open>The specifications of all the options, in the order they are parsed.\<close>

fun given_specs :: "getopts_matches \<Rightarrow> (string \<times> 'p) list \<Rightarrow> ('p \<times> string) list" where
  "given_specs m [] = []"
| "given_specs m ((opt, p) # os) =
     (case opt_strs m opt of Some specs \<Rightarrow> map (Pair p) specs | None \<Rightarrow> []) @ given_specs m os"

lemma parse_opts_Inr:
  "parse_opts m os = Some (Inr ms) \<Longrightarrow> map Inr ms = map (\<lambda>(parse, spec). parse spec) (given_specs m os)"
proof (induction m os arbitrary: ms rule: parse_opts.induct)
  case (2 m opt parse rest)
  from "2.prems" obtain specs where 1: "opt_strs m opt = Some specs" by (cases "opt_strs m opt") simp_all
  with "2.prems" obtain ms1 where 2: "parse_specs opt parse specs = Inr ms1"
    by (cases "parse_specs opt parse specs") simp_all
  with "2.prems" 1 obtain ms2 where 3: "parse_opts m rest = Some (Inr ms2)" "ms = ms1 @ ms2"
    by auto
  note o = 1 2 3
  from "2.IH"[OF o(1,2,3)] parse_specs_Inr[OF o(2)] o show ?case by (simp add: comp_def)
qed simp

lemma parse_opts_Inl:
  "parse_opts m os = Some (Inl e) \<Longrightarrow>
   \<exists>opt parse specs spec err. (opt, parse) \<in> set os \<and> opt_strs m opt = Some specs \<and> spec \<in> set specs \<and>
     parse spec = Inl err \<and> e = ''--'' @ opt @ '' '' @ quoted spec @ '': '' @ err"
proof (induction m os rule: parse_opts.induct)
  case (2 m opt parse rest)
  from "2.prems" obtain specs where o: "opt_strs m opt = Some specs" by (auto simp: bind_eq_Some_conv)
  show ?case
  proof (cases "parse_specs opt parse specs")
    case (Inl e')
    with "2.prems" o have "e' = e" by simp
    with Inl parse_specs_Inl[of opt parse specs e] obtain spec err where
      "spec \<in> set specs" "parse spec = Inl err" "e = ''--'' @ opt @ '' '' @ quoted spec @ '': '' @ err" by blast
    with o show ?thesis by (intro exI[of _ opt] exI[of _ parse] exI[of _ specs] exI[of _ spec] exI[of _ err]) simp
  next
    case (Inr ms)
    with "2.prems" o obtain z where "parse_opts m rest = Some z" "and_then z (\<lambda>ms'. Inr (ms @ ms')) = Inl e" by auto
    then have "parse_opts m rest = Some (Inl e)" by (cases z) simp_all
    from "2.IH"[OF o Inr this] obtain opt' parse' specs' spec err where "(opt', parse') \<in> set rest"
      "opt_strs m opt' = Some specs'" "spec \<in> set specs'" "parse' spec = Inl err"
      "e = ''--'' @ opt' @ '' '' @ quoted spec @ '': '' @ err" by blast
    then show ?thesis by (intro exI[of _ opt'] exI[of _ parse'] exI[of _ specs'] exI[of _ spec] exI[of _ err]) simp
  qed
qed simp

lemma choose_config_tun_off: "choose_config lib env m = Some (Some (Inr c)) \<Longrightarrow> if_name c = ''none''"
proof -
  assume c: "choose_config lib env m = Some (Some (Inr c))"
  let ?clib = "config_lib.truncate lib"
  from c consider "c = generate ?clib" | e where "map_err e (load_stdin ?clib (env_stdin env)) = Inr c"
    | e path where "map_err e (load_file ?clib (env_read env) path) = Inr c"
    by (auto simp: choose_config_def Let_def Option.bind_eq_Some_conv split: if_splits option.splits)
  then show ?thesis
    by cases (auto simp: generate_def load_stdin_def load_file_def load_text_Inr)
qed

lemma spawn_fn_stats:
  "fst (spawn_fn mp r) = mapping_key mp \<and>
   {k. hm_get (inner (snd (spawn_fn mp r))) k \<noteq> None} = insert (mapping_key mp) {k. hm_get (inner r) k \<noteq> None}"
  by (cases mp) (auto simp: spawn_local_tcp_def spawn_remote_tcp_def spawn_local_udp_def spawn_remote_udp_def
      init_udp_def entry_def Let_def split: option.splits)

definition stats_keys :: "runtime \<Rightarrow> string set" where
  "stats_keys R = {k. hm_get (inner (ni_stats (rt_insts R ! 0))) k \<noteq> None}"

lemma spawn_forwarder_effect:
  assumes "rt_insts R \<noteq> []"
  shows "rt_tasks (spawn_forwarder mp R) = rt_tasks R @
      [\<lparr>tk_kind = Forwarder (mapping_key mp), tk_chan = 0, tk_inst = 0, tk_phase = Starting\<rparr>] \<and>
    stats_keys (spawn_forwarder mp R) = insert (mapping_key mp) (stats_keys R) \<and> rt_insts (spawn_forwarder mp R) \<noteq> []"
proof -
  let ?r = "ni_stats (rt_insts R ! 0)"
  obtain key stats where s: "spawn_fn mp ?r = (key, stats)" by fastforce
  from assms s spawn_fn_stats[of mp ?r] show ?thesis
    by (simp add: spawn_forwarder_def spawn_task_def upd_inst_def stats_keys_def)
qed

lemma spawn_forwarders:
  assumes "rt_insts R \<noteq> []"
  shows "rt_tasks (fold spawn_forwarder ms R) = rt_tasks R @
      map (\<lambda>mp. \<lparr>tk_kind = Forwarder (mapping_key mp), tk_chan = 0, tk_inst = 0, tk_phase = Starting\<rparr>) ms \<and>
    stats_keys (fold spawn_forwarder ms R) = mapping_key ` set ms \<union> stats_keys R"
  using assms
proof (induction ms arbitrary: R)
  case (Cons mp ms)
  from spawn_forwarder_effect[OF Cons.prems, of mp] Cons.IH[of "spawn_forwarder mp R"] show ?case by auto
qed simp

lemma spawn_proxy_simps [simp]:
  "rt_insts (spawn_proxy addr key kind R) = rt_insts R"
  "rt_tasks (spawn_proxy addr key kind R) = rt_tasks R @
     (if addr = None then [] else [\<lparr>tk_kind = Proxy key kind, tk_chan = 0, tk_inst = 0, tk_phase = Starting\<rparr>])"
  "stats_keys (spawn_proxy addr key kind R) = stats_keys R"
  by (simp_all add: spawn_proxy_def spawn_task_def stats_keys_def)

definition planned_tasks :: "'x run_plan \<Rightarrow> task_kind list" where
  "planned_tasks p =
     (if rp_socks p = None then [] else [Proxy SOCKS_STATS_KEY ''socks'']) @
     (if rp_http p = None then [] else [Proxy HTTP_STATS_KEY ''http'']) @
     map (Forwarder \<circ> mapping_key) (rp_mappings p)"

lemma start_node_tasks:
  assumes "start_node lib m log c pk ms = Some p"
  shows "rp_config p = c \<and> rp_mappings p = ms \<and> map tk_kind (rt_tasks (rp_rt p)) = planned_tasks p \<and>
    list_all (\<lambda>t. tk_chan t = 0) (rt_tasks (rp_rt p)) \<and> stats_keys (rp_rt p) = mapping_key ` set ms"
proof -
  from assms obtain ns socks http where o: "opt_str m ''socks'' = Some socks" "opt_str m ''http'' = Some http"
    and p: "p = \<lparr>rp_log = log, rp_config = c, rp_address = addr_for_key (config_lib.truncate lib) pk,
            rp_nameserver = (case ns of Some s \<Rightarrow> s | None \<Rightarrow> []),
            rp_socks = map_option listen_addr socks, rp_http = map_option listen_addr http, rp_mappings = ms,
            rp_rt = fold spawn_forwarder ms (spawn_proxy http HTTP_STATS_KEY ''http''
                      (spawn_proxy socks SOCKS_STATS_KEY ''socks'' fresh_node))\<rparr>"
    by (auto simp: start_node_def bind_eq_Some_conv)
  let ?R = "spawn_proxy http HTTP_STATS_KEY ''http'' (spawn_proxy socks SOCKS_STATS_KEY ''socks'' fresh_node)"
  have "rt_insts ?R \<noteq> []" "stats_keys ?R = {}" by (simp_all add: fresh_node_def stats_keys_def new_registry_def)
  with spawn_forwarders[of ?R ms] show ?thesis
    by (simp add: p planned_tasks_def fresh_node_def list_all_iff)
qed

lemma cli_runs:
  assumes "cli_main lib env (Inr m) = Some (Runs p)"
  obtains c pk ms log where "list_all (\<lambda>q. opt_present m q = Some False) [''help'', ''version'', ''genconf'']"
    "choose_config lib env m = Some (Some (Inr c))" "query lib m c pk = Some None"
    "parse_all_specs m = Some (Inr ms)" "start_node lib m log c pk ms = Some p"
proof -
  from assms have "list_all (\<lambda>q. opt_present m q = Some False) [''help'', ''version'', ''genconf'']"
    by (auto simp: cli_main_def bind_eq_Some_conv split: option.splits if_splits)
  moreover from assms obtain c log where c: "choose_config lib env m = Some (Some (Inr c))"
    and r: "run_configured lib m log c = Some (Runs p)"
    by (auto simp: cli_main_def bind_eq_Some_conv split: option.splits if_splits sum.splits; metis surj_pair)
  moreover from r obtain pk ms where "query lib m c pk = Some None" "parse_all_specs m = Some (Inr ms)"
    "start_node lib m log c pk ms = Some p"
    by (auto simp: run_configured_def bind_eq_Some_conv split: option.splits sum.splits; metis obj_sumE)
  ultimately show ?thesis using that by blast
qed


text \<open>When the specifications do not all parse, the error quotes one that was
  given, under the option the error names, and that option's parser refuses it.\<close>
theorem bad_spec_reported:
  assumes "parse_all_specs m = Some (Inl e)"
  shows "\<exists>opt parse specs spec err. (opt, parse) \<in> set spec_options \<and> opt_strs m opt = Some specs \<and> spec \<in> set specs \<and>
     parse spec = Inl err \<and> e = ''--'' @ opt @ '' '' @ quoted spec @ '': '' @ err"
  using parse_opts_Inl[of m spec_options e] assms unfolding parse_all_specs_def by blast

section \<open>Shutting down\<close>

lemma send_stop_hears:
  "list_all (\<lambda>t. tk_chan t = 0) (rt_tasks R) \<Longrightarrow> t \<in> set (rt_tasks (send_stop 0 R)) \<Longrightarrow> tk_phase t \<noteq> Serving False"
  by (auto simp: send_stop_def hear_stop_def list_all_iff split: phase.splits)

lemma chan_kept:
  "list_all (\<lambda>t. tk_chan t = c) (rt_tasks R) \<Longrightarrow> list_all (\<lambda>t. tk_chan t = c) (rt_tasks (task_event ev R))"
proof -
  assume all: "list_all (\<lambda>t. tk_chan t = c) (rt_tasks R)"
  have ph: "list_all (\<lambda>t. tk_chan t = c) (rt_tasks (set_phase i ph R))" if "i < length (rt_tasks R)" for i ph
    using all that by (auto simp: set_phase_def upd_task_def list_all_iff dest!: set_update_subset_insert[THEN subsetD])
  have un: "rt_tasks (unregister n k R') = rt_tasks R'" for n k R' by (simp add: unregister_def upd_inst_def)
  have up: "rt_tasks (upd_inst n f R') = rt_tasks R'" for n f R' by (simp add: upd_inst_def)
  show ?thesis
  proof (cases ev)
    case (Bound i res)
    with all ph show ?thesis by (cases "tk_kind (rt_tasks R ! i)"; cases res) (auto simp: un up)
  next
    case (Sees_Stop i)
    with all ph show ?thesis by (cases "tk_kind (rt_tasks R ! i)") (auto simp: un)
  qed
qed

lemma chan_kept_all:
  "list_all (\<lambda>t. tk_chan t = c) (rt_tasks R) \<Longrightarrow> list_all (\<lambda>t. tk_chan t = c) (rt_tasks (run_tasks evs R))"
  unfolding run_tasks_def by (induction evs arbitrary: R) (simp_all add: chan_kept)

text \<open>Whatever the tasks of a node have done, a signal that ends the
  program sends the stop to every one of them that is serving: none is left serving without it.\<close>
theorem signal_reaches_every_server:
  assumes "cli_main lib env (Inr m) = Some (Runs p)" and "sig = Ctrl_C \<or> sig = Sigterm"
    and "send_shutdown sig (run_tasks evs (rp_rt p)) = (r, R)"
  shows "r = Inr () \<and> list_all (\<lambda>t. tk_phase t \<noteq> Serving False) (rt_tasks R)"
proof -
  from assms(1) obtain c pk ms log where "start_node lib m log c pk ms = Some p" by (rule cli_runs)
  from start_node_tasks[OF this] have "list_all (\<lambda>t. tk_chan t = 0) (rt_tasks (run_tasks evs (rp_rt p)))"
    by (simp add: chan_kept_all)
  with assms(2,3) send_stop_hears[of "run_tasks evs (rp_rt p)"] show ?thesis
    by (auto simp: send_shutdown_def list_all_iff)
qed

section \<open>A program start without a configuration file and with one mapping\<close>

definition demo_cli_lib :: "unit cli_lib" where
  "demo_cli_lib = engine_lib.extend
     (config_lib.extend demo_lib
        (engine_lib.fields (\<lambda>c. Inr (replicate 32 1)) (\<lambda>c. False) (Inr ()) (\<lambda>bs. [])))
     (cli_lib.fields (\<lambda>c. []))"

definition demo_env :: cli_env where
  "demo_env = \<lparr>env_stdin = Inl [], env_read = (\<lambda>p. Inl []), env_usage = [], env_version = ''1'', env_append = (\<lambda>p. True)\<rparr>"

definition demo_matches :: "string list \<Rightarrow> getopts_matches" where
  "demo_matches specs = \<lparr>opt_present = (\<lambda>x. Some (x = ''autoconf'')), opt_str = (\<lambda>x. Some None),
     opt_strs = (\<lambda>x. Some (if x = ''remote-tcp'' then specs else []))\<rparr>"

lemma demo_matches_ok: "getopts_ok cli_options (demo_matches specs)"
  by (simp add: getopts_ok_def demo_matches_def case_prod_beta)


lemma demo_cli_parse:
  "tcp_parse_remote (print_remote 22 Same_Port) =
     Inr \<lparr>tcp_listen = sock_new (V4 v4_unspecified) 22, tcp_target = SockV4 v4_localhost 22\<rparr>"
  by (simp add: tcp_parse_remote_def parse_remote_print parse_addr_or_def del: print_remote.simps)

lemma demo_cli_runs: "\<exists>p. cli_main demo_cli_lib demo_env (Inr (demo_matches [print_remote 22 Same_Port])) = Some (Runs p)"
proof -
  have k: "verifying_key demo_cli_lib c = Inr (replicate 32 1)" for c
    by (simp add: demo_cli_lib_def engine_lib.defs config_lib.defs cli_lib.defs demo_lib_def)
  show ?thesis
    by (simp add: cli_main_def demo_matches_def choose_config_def Let_def run_configured_def k query_def parse_all_specs_def
        spec_options_def demo_cli_parse start_node_def del: print_remote.simps)
qed


theorem signal_reaches_every_server_witness:
  "\<exists>p. cli_main demo_cli_lib demo_env (Inr (demo_matches [print_remote 22 Same_Port])) = Some (Runs p) \<and>
     list_all (\<lambda>t. tk_phase t \<noteq> Serving False)
       (rt_tasks (snd (send_shutdown Sigterm (run_tasks [Bound 0 (Inr [])] (rp_rt p)))))"
proof -
  obtain p where p: "cli_main demo_cli_lib demo_env (Inr (demo_matches [print_remote 22 Same_Port])) = Some (Runs p)"
    using demo_cli_runs by blast
  from signal_reaches_every_server[OF p, of Sigterm "[Bound 0 (Inr [])]"] p show ?thesis
    by (metis prod.collapse)
qed

lemma demo_bad_parse: "\<exists>e. parse_all_specs (demo_matches [[]]) = Some (Inl e)"
proof -
  have "tcp_parse_remote [] = Inl (''invalid port '' @ quoted [])"
    by (simp add: tcp_parse_remote_def parse_remote_mapping_def splitn_3 str_find_None[THEN iffD2] parse_u16_def parse_unsigned_def)
  then show ?thesis by (simp add: parse_all_specs_def demo_matches_def spec_options_def)
qed

theorem bad_spec_reported_witness:
  "\<exists>e opt parse specs spec err. parse_all_specs (demo_matches [[]]) = Some (Inl e) \<and> (opt, parse) \<in> set spec_options \<and>
     opt_strs (demo_matches [[]]) opt = Some specs \<and> spec \<in> set specs \<and> parse spec = Inl err \<and>
     e = ''--'' @ opt @ '' '' @ quoted spec @ '': '' @ err"
  using demo_bad_parse bad_spec_reported[of "demo_matches [[]]"] by metis

section \<open>Addresses of the proxies\<close>

text \<open>A proxy address of the form \<open>:port\<close> is that port on every IPv4
  interface; an address that names an interface is used as it is.\<close>
theorem colon_address_binds_all:
  "parse_socket (listen_addr (CHR '':'' # show_nat (unat p))) = Some (SockV4 v4_unspecified p) \<and>
   listen_addr (show_socket a) = show_socket a"
proof -
  have "show_ipv4 v4_unspecified = ''0.0.0.0''"
    by (simp add: show_ipv4_def v4_unspecified_def v4_octets_def split_be_def upt_rec show_radix.simps digit_char_def char_of_def bit_0)
  then have "listen_addr (CHR '':'' # show_nat (unat p)) = show_socket (SockV4 v4_unspecified p)"
    by (simp add: listen_addr_def)
  moreover have "hd (show_socket a) \<noteq> CHR '':''"
  proof (cases a)
    case (SockV4 ip q)
    have "hd (show_ipv4 ip) \<in> set (show_ipv4 ip)" by (rule hd_in_set) simp
    with show_ipv4_no_colon[of ip] have "hd (show_ipv4 ip) \<noteq> CHR '':''" by metis
    then show ?thesis by (simp add: SockV4)
  qed (simp add: quoted_def)
  ultimately show ?thesis
    using parse_socket_show[of "SockV4 v4_unspecified p"] show_socket_nonempty[of a]
    by (cases "show_socket a") (simp_all add: listen_addr_def)
qed

end
