(* ===== verification/Spec2Isabelle.thy ===== *)
theory Spec2Isabelle
  imports Frag Port_Mapping Stats Resolver Http_Proxy Socks Forward_Tcp Forward_Udp Netstack_Tasks
    Netstack_Ends Ping Quic_Check Config Mobile_Calls Mobile_Log Mobile_Ping Cli
begin

text \<open>
  A verification development for yggstack-ng, a userspace Yggdrasil node: it joins the overlay
  network without a TUN device and offers it through a SOCKS5 proxy, an HTTP proxy and port
  forwarding.  Paths below are relative to \<open>src/crates\<close>.

  \<^bold>\<open>The program.\<close>  A node is a Yggdrasil core (another crate) whose IPv6 packets go to a TCP/IP
  stack in user space.  \<open>yggstack/src/netstack/mod.rs\<close> drives that stack, smoltcp, for all tasks
  of the node: one lock, one poll task, and handles to sockets that streams, listeners and UDP
  sockets own.  Incoming fragments are rebuilt first (\<open>netstack/frag.rs\<close>), and smoltcp reads and
  writes packets through two queues (\<open>netstack/device.rs\<close>).  On the netstack run the clients:
  the proxies (\<open>socks.rs\<close>, \<open>http_proxy.rs\<close>), which resolve names (\<open>resolver.rs\<close>), the TCP and UDP
  forwarders (\<open>forward/tcp.rs\<close>, \<open>forward/udp.rs\<close>) with the mappings of \<open>mapping.rs\<close>, and ping
  sessions (\<open>ping.rs\<close>).  All count their connections and bytes in one registry (\<open>stats.rs\<close>).  Two
  programs assemble a node: the command line (\<open>main.rs\<close>) and the mobile library
  (\<open>yggstack-mobile/src/mobile.rs\<close>), an object that an application starts and stops and to which
  it adds and removes mappings while it runs; the library also measures QUIC peers
  (\<open>quic_check.rs\<close>).  Both take their configuration from \<open>config.rs\<close>.

  \<^bold>\<open>The library theories.\<close>
  \<^item> \<open>Prelude\<close>: machine integers as words, durations (nanoseconds), \<open>Result\<close> as a sum with the
    error on the left, slices and big-endian codecs; the locales \<open>codec\<close> and \<open>datagram_codec\<close>.
  \<^item> \<open>Machine\<close>: objects driven by calls, with the locales \<open>call_invariant\<close> and \<open>call_simulation\<close>.
  \<^item> \<open>Hash_Map\<close>: \<open>HashMap\<close> behind the locale \<open>map_store\<close>; \<open>Sweep\<close>: the in-place clean-up loop with
    \<open>swap_remove\<close>.
  \<^item> \<open>Std_Text\<close>, \<open>Std_Net\<close>, \<open>Std_Io\<close>, \<open>Std_Utf8\<close>: the string, address and I/O-error parts of Rust's
    standard library, with the round trips of printing and parsing addresses; lossy decoding of
    UTF-8 gives well-formed text and changes only ill-formed bytes.
  \<^item> \<open>Smoltcp\<close>: the device, and smoltcp as a record of functions with the laws \<open>smoltcp_ok\<close>.

  \<^bold>\<open>The components.\<close>  Each theory has a section with the model, definition by definition in the
  order of the source and under the source's names, and the results after it.
  \<^item> \<open>Frag\<close> (\<open>netstack/frag.rs\<close>).  \<open>feed\<close> over the slots: an invariant of all states, that a
    datagram's fragments in any order and among any traffic give back the datagram, that rebuilt
    packets are well-formed, and that a duplicated fragment can leave a hole.
  \<^item> \<open>Port_Mapping\<close> (\<open>mapping.rs\<close>).  Every documented form parses to what it denotes; what the local
    parser accepts.
  \<^item> \<open>Stats\<close> (\<open>stats.rs\<close>).  Entries in a heap, guards as owners: under any interleaving the gauge
    is the number of guards alive; the report is sorted and complete.
  \<^item> \<open>Dns_Wire\<close>, \<open>Resolver\<close> (\<open>resolver.rs\<close>).  The response parser never reads out of bounds and
    returns the first AAAA record of any well-formed response; the failover walk, its cursor and
    cool-down; \<open>.pk.ygg\<close> names.
  \<^item> \<open>Relay\<close> (the \<open>select!\<close> of two \<open>counting_copy\<close> and the accept loop), \<open>Http_Head\<close>, \<open>Http_Proxy\<close>
    (\<open>http_proxy.rs\<close>), \<open>Socks\<close> (\<open>socks.rs\<close>).  A rewritten head parses back to the intended one, reading
    a head is bounded, a client gets at most one response and it precedes the relay, requests
    are carried out as sent, the UDP header round trip, gauges balance on every path.
  \<^item> \<open>Forward_Tcp\<close>, \<open>Forward_Udp\<close> (\<open>forward/\<close>).  Keys identify mappings, gauges balance; for UDP a step
    relation over all interleavings of the receive loop, the listeners, eviction and stop.
  \<^item> \<open>Netstack_Poll\<close>, \<open>Netstack\<close> (\<open>netstack/mod.rs\<close>).  Every operation as a critical section; no
    order of operations uses a dangling handle, every handle has one owner, the poll loop ends,
    servicing and reaping do exactly what they should.  \<open>Netstack_Tasks\<close>: the reader and poll tasks
    with the other tasks' operations in between; every packet of the overlay reaches smoltcp once,
    in order and reassembled; the interface's addresses and routes.  \<open>Netstack_Ends\<close>: how a dial ends,
    which sockets are reclaimed and which are lost, and how long a shutdown takes.
  \<^item> \<open>Config\<close> (\<open>config.rs\<close>).  No configuration enables the TUN adapter; generated text loads.
  \<^item> \<open>Ping\<close> (\<open>ping.rs\<close>).  The shape of every session's log, completion of bounded sessions, which
    reply counts, the range check as a prefix test.
  \<^item> \<open>Quic_Check\<close> (\<open>quic_check.rs\<close>).  Targets, dial order, and the value reported.
  \<^item> \<open>Mobile\<close> (\<open>mobile.rs\<close>): the engine with its tasks.  \<open>Mobile_Lifecycle\<close>: the abstract engine and
    the simulation; \<open>Mobile_Tasks\<close>: the wiring of tasks, entries and channels, and the two ways a
    listener escapes it; \<open>Mobile_Stop\<close>: what is open and alive, what \<open>stop\<close> ends, racing starts,
    and \<open>drop\<close>.  \<open>Mobile_Probe\<close>: address forms, the port checks, the JSON reports and the log filter;
    \<open>Mobile_Calls\<close>: the calls that need a node, on a stopped and on a running engine;
    \<open>Mobile_Log\<close>: which log events reach the application, and the lock held meanwhile;
    \<open>Mobile_Ping\<close>: the parameters of every ping session and the lines its callback gets.
  \<^item> \<open>Cli\<close> (\<open>main.rs\<close>): the option table, and from parsed options to a printed answer, an error or a
    running node, whose tasks a signal stops.  No lookup of an option panics.

  \<^bold>\<open>How effects are modelled.\<close>  State is passed explicitly; shared counters and tasks are
  addresses and indices.  An \<open>await\<close> takes its outcome from an argument: a list of read results,
  of relay or wake-up events, or of probe scripts.  A list that runs out leaves the operation
  waiting (\<open>None\<close>, or a log that has not ended); the termination and liveness theorems say how
  much suffices: \<open>poll_loop\<close> ends because each round consumes a packet, four rounds decide the UDP
  check since timers do not fire early, and \<open>count\<close> scripts complete a bounded ping session.  A
  task that runs on its own is a set of steps that may happen at any point; an operation that
  waits for a task takes the steps that happen meanwhile.  Panics of indexing and of smoltcp are
  values, so that their absence is a theorem.

  \<^bold>\<open>Parameters and their laws.\<close>  smoltcp (\<open>smoltcp_ok\<close>, shown to hold of a slot set), the TOML
  library (\<open>toml_ok\<close>), \<open>serde_json::to_string\<close>, \<open>hex\<close>, key-to-address derivation, the option parser
  (\<open>getopts_ok\<close>), \<open>tokio\<close> timers, and the QUIC stack are arguments; where a result needs a law of one, it is a
  hypothesis with a concrete instance in the witness.

  \<^bold>\<open>Not modelled.\<close>  The Yggdrasil core, its links and its admin socket (open or closed here), the
  netstack's periodic log line, the formatting of log events and the log lines of each
  component, the parsing of the command line and the help texts (\<open>getopts\<close>), the certificate
  verifier given to the QUIC stack, UniFFI glue and generated bindings, build scripts.
  Floating-point formatting in two JSON reports is a parameter.  Calls on one mobile engine run
  one after another, except for the two halves of \<open>start\<close>.
\<close>

end
